(* ===== verification/Prelude.thy ===== *)
theory Prelude
  imports Main "HOL-Library.Word"
begin

text \<open>
  The shared vocabulary of the development: machine integers at their width, instants and
  durations in nanoseconds, the outcome of a computation that may panic, the outcome of
  an awaited operation under a timeout, big-endian bytes of a 32-bit word, decimal printing and
  the text of a duration, the two generic machines (a step function and a step relation
  with an invariant) and the simulation of a specification that the components interpret.
\<close>

unbundle bit_operations_syntax

section \<open>Types\<close>

type_synonym u8 = "8 word"
type_synonym u32 = "32 word"
type_synonym u64 = "64 word"
type_synonym u128 = "128 word"
type_synonym usize = "64 word"

text \<open>
  A \<open>Duration\<close> and an \<open>Instant\<close> of the standard library are counts of nanoseconds. An
  \<open>Instant\<close> is read from a monotonic clock, so every operation that reads the clock takes
  the reading as an argument. \<open>Instant::elapsed\<close> and \<open>duration_since\<close> saturate at zero,
  as subtraction on \<^typ>\<open>nat\<close> does.
\<close>

type_synonym duration = nat
type_synonym instant = nat

definition from_secs :: "nat \<Rightarrow> duration" where
  "from_secs n = n * 1000000000"

definition from_millis :: "nat \<Rightarrow> duration" where
  "from_millis n = n * 1000000"

definition duration_max :: duration where
  "duration_max = (2 ^ 64 - 1) * 1000000000 + 999999999"

definition elapsed :: "instant \<Rightarrow> instant \<Rightarrow> duration" where
  "elapsed now t = now - t"

text \<open>A computation that returns a value or panics (a failed check of the standard library).\<close>

datatype 'a run = Returned 'a | Panicked string

text \<open>
  \<open>tokio::time::timeout(d, fut).await\<close>: the deadline passes first, or the future completes.
\<close>

datatype 'a timed = Elapsed | Completed 'a

section \<open>Collections of lemmas\<close>

named_theorems config_defs \<open>constructors and builders of the configuration records\<close>

section \<open>The operator \<open>?\<close>\<close>

text \<open>An early return of an error, possibly converted, followed by the rest of the function.\<close>

lemma try_Inr_iff: "(case r of Inl e \<Rightarrow> Inl (g e) | Inr x \<Rightarrow> f x) = Inr y \<longleftrightarrow> (\<exists>x. r = Inr x \<and> f x = Inr y)"
  by (cases r) simp_all

lemma try_Inl_iff:
  "(case r of Inl e \<Rightarrow> Inl (g e) | Inr x \<Rightarrow> f x) = Inl y \<longleftrightarrow> (\<exists>e. r = Inl e \<and> y = g e) \<or> (\<exists>x. r = Inr x \<and> f x = Inl y)"
  by (cases r) auto

section \<open>Big-endian bytes\<close>

text \<open>\<open>u32::to_be_bytes\<close> and \<open>u32::from_be_bytes\<close> of the standard library.\<close>

definition u32_to_be_bytes :: "u32 \<Rightarrow> u8 list" where
  "u32_to_be_bytes w =
     [ucast (drop_bit 24 w), ucast (drop_bit 16 w), ucast (drop_bit 8 w), ucast w]"

fun u32_from_be_bytes :: "u8 list \<Rightarrow> u32" where
  "u32_from_be_bytes [a, b, c, d] =
     (push_bit 24 (ucast a) OR push_bit 16 (ucast b) OR push_bit 8 (ucast c) OR ucast d)"
| "u32_from_be_bytes _ = 0"

lemma length_u32_to_be_bytes [simp]: "length (u32_to_be_bytes w) = 4"
  by (simp add: u32_to_be_bytes_def)

lemma u32_from_to_be_bytes [simp]: "u32_from_be_bytes (u32_to_be_bytes w) = w"
proof (rule bit_eqI)
  fix n
  assume "possible_bit TYPE(u32) n"
  then have "n < 32" by simp
  then consider "n < 8" | "8 \<le> n \<and> n < 16" | "16 \<le> n \<and> n < 24" | "24 \<le> n \<and> n < 32"
    by linarith
  then show "bit (u32_from_be_bytes (u32_to_be_bytes w)) n = bit w n"
    by cases (auto simp: u32_to_be_bytes_def bit_simps)
qed

lemma u32_to_from_be_bytes [simp]:
  "u32_to_be_bytes (u32_from_be_bytes [a, b, c, d]) = [a, b, c, d]"
  by (auto simp: u32_to_be_bytes_def bit_eq_iff bit_simps dest: bit_imp_le_length)

lemma length_4_split: "length xs = 4 \<Longrightarrow> \<exists>a b c d. xs = [a, b, c, d]"
  by (auto simp: numeral_eq_Suc length_Suc_conv)

section \<open>Counters\<close>

lemma unat_usize_of_nat: "n < 2 ^ 64 \<Longrightarrow> unat (of_nat n :: usize) = n"
  by (simp add: unat_of_nat)

lemma usize_of_nat_eq_0: "n < 2 ^ 64 \<Longrightarrow> (of_nat n :: usize) = 0 \<longleftrightarrow> n = 0"
  using unat_usize_of_nat [of n] by auto

text \<open>Replacing one element of a list changes by at most one how many elements have a property.\<close>

lemma length_filter_update:
  "i < length xs \<Longrightarrow>
   length (filter P (xs[i := y])) + (if P (xs ! i) then 1 else 0) = length (filter P xs) + (if P y then 1 else 0)"
proof (induction xs arbitrary: i)
  case (Cons x xs)
  show ?case
  proof (cases i)
    case (Suc j)
    with Cons.IH [of j] Cons.prems show ?thesis by (simp split: if_splits)
  qed simp
qed simp

section \<open>Printing numbers\<close>

definition digit_char :: "nat \<Rightarrow> char" where
  "digit_char d = char_of (if d < 10 then 48 + d else 87 + d)"

text \<open>\<open>format!("{}", n)\<close> for an unsigned integer.\<close>

fun show_nat :: "nat \<Rightarrow> string" where
  "show_nat n =
     (if n < 10 then [digit_char n] else show_nat (n div 10) @ [digit_char (n mod 10)])"

declare show_nat.simps [simp del]

text \<open>\<open>format!("{:?}", d)\<close> of a \<open>Duration\<close>: the fraction is printed without trailing zeros.\<close>

primrec frac_digits :: "nat \<Rightarrow> nat \<Rightarrow> string" where
  "frac_digits 0 f = []"
| "frac_digits (Suc k) f = (if f = 0 then [] else digit_char (f div 10 ^ k) # frac_digits k (f mod 10 ^ k))"

definition fmt_decimal :: "nat \<Rightarrow> nat \<Rightarrow> nat \<Rightarrow> string" where
  "fmt_decimal integer_part digits fraction =
     show_nat integer_part @ (if fraction = 0 then [] else CHR ''.'' # frac_digits digits fraction)"

definition show_duration :: "duration \<Rightarrow> string" where
  "show_duration d =
     (if d \<ge> 1000000000 then fmt_decimal (d div 1000000000) 9 (d mod 1000000000) @ ''s''
      else if d \<ge> 1000000 then fmt_decimal (d div 1000000) 6 (d mod 1000000) @ ''ms''
      else if d \<ge> 1000 then fmt_decimal (d div 1000) 3 (d mod 1000) @ [CHR 0xC2, CHR 0xB5, CHR ''s'']
      else fmt_decimal d 0 0 @ ''ns'')"

section \<open>Generic machines\<close>

lemma rtranclp_2: "r a b \<Longrightarrow> r b c \<Longrightarrow> r\<^sup>*\<^sup>* a c"
  by (rule rtranclp.rtrancl_into_rtrancl) (rule r_into_rtranclp)

text \<open>
  A relation on states with an invariant that every step keeps: the invariant holds after
  any number of steps. A machine given by a step function over events is such a relation.
\<close>

locale step_system =
  fixes step :: "'s \<Rightarrow> 's \<Rightarrow> bool"
    and inv :: "'s \<Rightarrow> bool"
  assumes step_inv: "step s t \<Longrightarrow> inv s \<Longrightarrow> inv t"
begin

lemma steps_inv: "step\<^sup>*\<^sup>* s t \<Longrightarrow> inv s \<Longrightarrow> inv t"
  by (induction rule: rtranclp_induct) (auto intro: step_inv)

end

locale event_system =
  fixes apply_event :: "'e \<Rightarrow> 's \<Rightarrow> 's"
    and inv :: "'s \<Rightarrow> bool"
  assumes event_inv: "inv s \<Longrightarrow> inv (apply_event e s)"
begin

lemma run_inv: "inv s \<Longrightarrow> inv (fold apply_event es s)"
  by (induction es arbitrary: s) (auto intro: event_inv)

end

sublocale event_system \<subseteq> steps: step_system "\<lambda>s t. \<exists>e. t = apply_event e s" inv
  by unfold_locales (auto intro: event_inv)

section \<open>Refinement of a specification\<close>

text \<open>
  Making calls one after the other, collecting the answers; and the calls that a
  specification admits one after the other.
\<close>

fun run_calls :: "('op \<Rightarrow> 'st \<Rightarrow> 'ans \<times> 'st) \<Rightarrow> 'op list \<Rightarrow> 'st \<Rightarrow> 'ans list \<times> 'st" where
  "run_calls f [] s = ([], s)"
| "run_calls f (x # xs) s =
     (let (a, s) = f x s; (as, s) = run_calls f xs s in (a # as, s))"

fun admits :: "('op \<Rightarrow> 'a \<Rightarrow> bool) \<Rightarrow> ('op \<Rightarrow> 'a \<Rightarrow> 'ans \<times> 'a) \<Rightarrow> 'op list \<Rightarrow> 'a \<Rightarrow> bool" where
  "admits pre spec [] a \<longleftrightarrow> True"
| "admits pre spec (x # xs) a \<longleftrightarrow> pre x a \<and> admits pre spec xs (snd (spec x a))"

lemma admits_all [simp]: "admits (\<lambda>_ _. True) spec xs a"
  by (induction xs arbitrary: a) simp_all

text \<open>
  The calls of a component simulate the calls of its specification: related states answer
  an admitted call alike and stay related, hence so do any admitted calls.
\<close>

locale simulation =
  fixes call :: "'op \<Rightarrow> 'c \<Rightarrow> 'ans \<times> 'c"
    and spec :: "'op \<Rightarrow> 'a \<Rightarrow> 'ans \<times> 'a"
    and pre :: "'op \<Rightarrow> 'a \<Rightarrow> bool"
    and rel :: "'c \<Rightarrow> 'a \<Rightarrow> bool"
  assumes call_simulates: "rel c a \<Longrightarrow> pre x a \<Longrightarrow> rel_prod (=) rel (call x c) (spec x a)"
begin

lemma run_simulates:
  "rel c a \<Longrightarrow> admits pre spec xs a \<Longrightarrow> rel_prod (=) rel (run_calls call xs c) (run_calls spec xs a)"
proof (induction xs arbitrary: c a)
  case (Cons x xs)
  have "rel_prod (=) rel (call x c) (spec x a)" using Cons.prems by (auto intro: call_simulates)
  moreover from this have "rel_prod (=) rel (run_calls call xs (snd (call x c))) (run_calls spec xs (snd (spec x a)))"
    using Cons.prems by (intro Cons.IH) (auto simp: rel_prod_sel)
  ultimately show ?case by (auto simp: rel_prod_sel Let_def split_beta)
qed simp

end

section \<open>Counting by guards\<close>

text \<open>
  A counter that a guard increments when it is created and decrements when it is dropped.
\<close>

locale guard_counter =
  fixes acquire :: "'s \<Rightarrow> 's"
    and release :: "'s \<Rightarrow> 's"
    and count :: "'s \<Rightarrow> usize"
  assumes count_acquire: "count (acquire s) = count s + 1"
    and count_release: "count (release s) = count s - 1"
begin

lemma count_run:
  "count (fold (\<lambda>b. if b then acquire else release) es s) =
     count s + of_nat (count_list es True) - of_nat (count_list es False)"
  by (induction es arbitrary: s) (auto simp: count_acquire count_release)

end

end
