(* ===== verification/Network_Error.thy ===== *)
theory Network_Error
  imports Prelude
begin

text \<open>
  The error type of the crate (\<open>src/error/mod.rs\<close>): one constructor per variant, the
  constructor functions, and the text the derived \<open>Display\<close> instance prints. An operation
  of the crate returns \<open>NetworkError + 'a\<close>, with \<open>Inl\<close> for \<open>Err\<close> and \<open>Inr\<close> for \<open>Ok\<close>.
\<close>

datatype NetworkError =
    Io string
  | Connection string
  | Timeout string
  | Serialization string
  | InvalidState string
  | InvalidAddress string
  | MessageTooLarge nat nat
  | Channel string
  | Tls string
  | Other string

type_synonym 'a net_result = "NetworkError + 'a"

definition NetworkError_connection :: "string \<Rightarrow> NetworkError" where
  "NetworkError_connection msg = Connection msg"

definition NetworkError_timeout :: "string \<Rightarrow> NetworkError" where
  "NetworkError_timeout msg = Timeout msg"

definition NetworkError_serialization :: "string \<Rightarrow> NetworkError" where
  "NetworkError_serialization msg = Serialization msg"

definition NetworkError_invalid_state :: "string \<Rightarrow> NetworkError" where
  "NetworkError_invalid_state msg = InvalidState msg"

definition NetworkError_invalid_address :: "string \<Rightarrow> NetworkError" where
  "NetworkError_invalid_address msg = InvalidAddress msg"

definition NetworkError_channel :: "string \<Rightarrow> NetworkError" where
  "NetworkError_channel msg = Channel msg"

definition NetworkError_tls :: "string \<Rightarrow> NetworkError" where
  "NetworkError_tls msg = Tls msg"

definition NetworkError_other :: "string \<Rightarrow> NetworkError" where
  "NetworkError_other msg = Other msg"

lemmas NetworkError_constructors [simp] =
  NetworkError_connection_def NetworkError_timeout_def NetworkError_serialization_def
  NetworkError_invalid_state_def NetworkError_invalid_address_def NetworkError_channel_def
  NetworkError_tls_def NetworkError_other_def

text \<open>The \<open>#[error(...)]\<close> attributes.\<close>

fun NetworkError_to_string :: "NetworkError \<Rightarrow> string" where
  "NetworkError_to_string (Io e) = ''I/O error: '' @ e"
| "NetworkError_to_string (Connection e) = ''Connection error: '' @ e"
| "NetworkError_to_string (Timeout e) = ''Operation timed out: '' @ e"
| "NetworkError_to_string (Serialization e) = ''Serialization error: '' @ e"
| "NetworkError_to_string (InvalidState e) = ''Invalid state: '' @ e"
| "NetworkError_to_string (InvalidAddress e) = ''Invalid address: '' @ e"
| "NetworkError_to_string (MessageTooLarge n m) =
     ''Message too large: '' @ show_nat n @ '' bytes (max: '' @ show_nat m @ '' bytes)''"
| "NetworkError_to_string (Channel e) = ''Channel error: '' @ e"
| "NetworkError_to_string (Tls e) = ''TLS error: '' @ e"
| "NetworkError_to_string (Other e) = ''Network error: '' @ e"

text \<open>
  The \<open>?\<close> operator after \<open>timeout(..).await.map_err(|_| t)?.map_err(|e| f(e))?\<close>: the
  deadline gives one error, a failed operation another.
\<close>

fun await_timed :: "NetworkError \<Rightarrow> (string \<Rightarrow> NetworkError) \<Rightarrow> (string + 'a) timed \<Rightarrow> 'a net_result" where
  "await_timed t f Elapsed = Inl t"
| "await_timed t f (Completed (Inl e)) = Inl (f e)"
| "await_timed t f (Completed (Inr x)) = Inr x"

lemma await_timed_Inr_iff [simp]:
  "await_timed t f r = Inr x \<longleftrightarrow> r = Completed (Inr x)"
  by (cases "(t, f, r)" rule: await_timed.cases) auto

end
