(* ===== verification/Bytes_Buffer.thy ===== *)
theory Bytes_Buffer
  imports Prelude
begin

text \<open>
  The buffer type \<open>BytesMut\<close> comes from the \<open>bytes\<close> crate, which is not part of the
  repository. The operations the code calls are the fields of a record, an argument of
  every definition that uses them, and what the crate documents of them are the laws of
  the locale \<open>bytes_buffer\<close>. A frozen \<open>Bytes\<close> is immutable and read only as a byte slice,
  so it is represented by that slice.
\<close>

record 'b bytes_mut =
  bm_with_capacity :: "nat \<Rightarrow> 'b"
  bm_slice :: "'b \<Rightarrow> u8 list"
  bm_put_u32 :: "u32 \<Rightarrow> 'b \<Rightarrow> 'b"
  bm_put_slice :: "u8 list \<Rightarrow> 'b \<Rightarrow> 'b"
  bm_advance :: "nat \<Rightarrow> 'b \<Rightarrow> 'b"
  bm_split_to :: "nat \<Rightarrow> 'b \<Rightarrow> 'b \<times> 'b"

locale bytes_buffer =
  fixes B :: "'b bytes_mut"
  assumes slice_with_capacity: "bm_slice B (bm_with_capacity B n) = []"
    and slice_put_u32: "bm_slice B (bm_put_u32 B w b) = bm_slice B b @ u32_to_be_bytes w"
    and slice_put_slice: "bm_slice B (bm_put_slice B xs b) = bm_slice B b @ xs"
    and slice_advance:
      "n \<le> length (bm_slice B b) \<Longrightarrow> bm_slice B (bm_advance B n b) = drop n (bm_slice B b)"
    and slice_split_to_front:
      "n \<le> length (bm_slice B b) \<Longrightarrow> bm_slice B (fst (bm_split_to B n b)) = take n (bm_slice B b)"
    and slice_split_to_rest:
      "n \<le> length (bm_slice B b) \<Longrightarrow> bm_slice B (snd (bm_split_to B n b)) = drop n (bm_slice B b)"

text \<open>
  A growable byte vector is a buffer in this sense: the laws can hold, and closed examples
  evaluate on it.
\<close>

definition vec_bytes :: "u8 list bytes_mut" where
  "vec_bytes = \<lparr>
     bm_with_capacity = (\<lambda>_. []),
     bm_slice = (\<lambda>b. b),
     bm_put_u32 = (\<lambda>w b. b @ u32_to_be_bytes w),
     bm_put_slice = (\<lambda>xs b. b @ xs),
     bm_advance = drop,
     bm_split_to = (\<lambda>n b. (take n b, drop n b))\<rparr>"

interpretation vec: bytes_buffer vec_bytes
  by unfold_locales (simp_all add: vec_bytes_def)

end
