(* ===== verification/Message_Frame.thy ===== *)
theory Message_Frame
  imports Network_Error Bytes_Buffer
begin

text \<open>
  Network messages (\<open>src/core/message.rs\<close>): construction, JSON conversion over the external
  serializer, the length-prefixed wire format, and the incremental decoder. The abstract
  specification is \<open>Message_frame\<close> (the bytes of one message on the wire) and
  \<open>frame_decode\<close> (the decoder on plain byte sequences); the decoder on buffers refines it.
\<close>

section \<open>Model\<close>

definition MAX_MESSAGE_SIZE :: nat where
  "MAX_MESSAGE_SIZE = 16 * 1024 * 1024"

definition HEADER_SIZE :: nat where
  "HEADER_SIZE = 4"

record Message =
  msg_data :: "u8 list"

definition Message_new :: "u8 list \<Rightarrow> Message" where
  "Message_new data = \<lparr>msg_data = data\<rparr>"

text \<open>\<open>serde_json::to_vec\<close> and \<open>from_slice\<close> are arguments.\<close>

definition Message_from_json :: "('v \<Rightarrow> string + u8 list) \<Rightarrow> 'v \<Rightarrow> Message net_result" where
  "Message_from_json to_vec value =
     (case to_vec value of
        Inl e \<Rightarrow> Inl (NetworkError_serialization (''JSON serialization failed: '' @ e))
      | Inr json \<Rightarrow> Inr (Message_new json))"

definition Message_to_json :: "(u8 list \<Rightarrow> string + 'v) \<Rightarrow> Message \<Rightarrow> 'v net_result" where
  "Message_to_json from_slice m =
     (case from_slice (msg_data m) of
        Inl e \<Rightarrow> Inl (NetworkError_serialization (''JSON deserialization failed: '' @ e))
      | Inr v \<Rightarrow> Inr v)"

definition Message_size :: "Message \<Rightarrow> nat" where
  "Message_size m = length (msg_data m)"

definition Message_is_empty :: "Message \<Rightarrow> bool" where
  "Message_is_empty m \<longleftrightarrow> msg_data m = []"

definition Message_encode :: "'b bytes_mut \<Rightarrow> Message \<Rightarrow> 'b net_result" where
  "Message_encode B m =
     (let len = length (msg_data m) in
      if len > MAX_MESSAGE_SIZE then Inl (MessageTooLarge len MAX_MESSAGE_SIZE)
      else
        let buf = bm_with_capacity B (HEADER_SIZE + len);
            buf = bm_put_u32 B (of_nat len) buf;
            buf = bm_put_slice B (msg_data m) buf
        in Inr buf)"

definition Message_decode :: "'b bytes_mut \<Rightarrow> 'b \<Rightarrow> Message option net_result \<times> 'b" where
  "Message_decode B buf =
     (if length (bm_slice B buf) < HEADER_SIZE then (Inr None, buf)
      else
        let length_bytes = take HEADER_SIZE (bm_slice B buf);
            len = unat (u32_from_be_bytes length_bytes)
        in
          if len > MAX_MESSAGE_SIZE then (Inl (MessageTooLarge len MAX_MESSAGE_SIZE), buf)
          else if length (bm_slice B buf) < HEADER_SIZE + len then (Inr None, buf)
          else
            let buf = bm_advance B HEADER_SIZE buf;
                (data, buf) = bm_split_to B len buf
            in (Inr (Some \<lparr>msg_data = bm_slice B data\<rparr>), buf))"

definition Message_to_string :: "Message \<Rightarrow> string" where
  "Message_to_string m = ''Message['' @ show_nat (Message_size m) @ '' bytes]''"

definition Message_from_String :: "string \<Rightarrow> Message" where
  "Message_from_String s = Message_new (map of_char s)"

definition Message_from_str :: "string \<Rightarrow> Message" where
  "Message_from_str s = Message_new (map of_char s)"

definition Message_from_Vec :: "u8 list \<Rightarrow> Message" where
  "Message_from_Vec v = Message_new v"

section \<open>Specification on byte sequences\<close>

definition Message_frame :: "Message \<Rightarrow> u8 list" where
  "Message_frame m = u32_to_be_bytes (of_nat (length (msg_data m))) @ msg_data m"

definition Message_fits :: "Message \<Rightarrow> bool" where
  "Message_fits m \<longleftrightarrow> length (msg_data m) \<le> MAX_MESSAGE_SIZE"

definition frame_length :: "u8 list \<Rightarrow> nat" where
  "frame_length bs = unat (u32_from_be_bytes (take HEADER_SIZE bs))"

definition frame_decode :: "u8 list \<Rightarrow> Message option net_result \<times> u8 list" where
  "frame_decode bs =
     (if length bs < HEADER_SIZE then (Inr None, bs)
      else if frame_length bs > MAX_MESSAGE_SIZE
      then (Inl (MessageTooLarge (frame_length bs) MAX_MESSAGE_SIZE), bs)
      else if length bs < HEADER_SIZE + frame_length bs then (Inr None, bs)
      else (Inr (Some \<lparr>msg_data = take (frame_length bs) (drop HEADER_SIZE bs)\<rparr>),
            drop (HEADER_SIZE + frame_length bs) bs))"

section \<open>The specification\<close>

lemma u32_length_fits: "n \<le> MAX_MESSAGE_SIZE \<Longrightarrow> unat (of_nat n :: u32) = n"
  by (simp add: MAX_MESSAGE_SIZE_def unat_of_nat)

lemma length_Message_frame [simp]:
  "length (Message_frame m) = HEADER_SIZE + length (msg_data m)"
  by (simp add: Message_frame_def HEADER_SIZE_def)

lemma Message_frame_nonempty [simp]: "Message_frame m \<noteq> []"
  by (metis HEADER_SIZE_def add_is_0 length_0_conv length_Message_frame zero_neq_numeral)

lemma take_header_frame:
  "take HEADER_SIZE (Message_frame m @ rest) = u32_to_be_bytes (of_nat (length (msg_data m)))"
  by (simp add: Message_frame_def HEADER_SIZE_def)

lemma frame_length_frame:
  "Message_fits m \<Longrightarrow> frame_length (Message_frame m @ rest) = length (msg_data m)"
  using take_header_frame [of m rest]
  by (simp only: frame_length_def u32_from_to_be_bytes u32_length_fits Message_fits_def)

lemma frame_decode_frame:
  assumes "Message_fits m"
  shows "frame_decode (Message_frame m @ rest) = (Inr (Some m), rest)"
proof -
  have "drop HEADER_SIZE (Message_frame m @ rest) = msg_data m @ rest"
    by (simp add: Message_frame_def HEADER_SIZE_def)
  moreover have "drop (HEADER_SIZE + length (msg_data m)) (Message_frame m @ rest) = rest"
    by simp
  ultimately show ?thesis
    using assms by (simp add: frame_decode_def frame_length_frame) (simp add: Message_fits_def)
qed

text \<open>A proper prefix of a frame is never enough, and it is left in the buffer.\<close>

lemma frame_decode_prefix:
  assumes fits: "Message_fits m" and split: "Message_frame m = bs @ cs" and "cs \<noteq> []"
  shows "frame_decode bs = (Inr None, bs)"
proof (cases "length bs < HEADER_SIZE")
  case True
  then show ?thesis by (simp add: frame_decode_def)
next
  case False
  then have "take HEADER_SIZE bs = take HEADER_SIZE (Message_frame m @ [])"
    using split by simp
  then have len: "frame_length bs = length (msg_data m)"
    using frame_length_frame [OF fits, of "[]"] by (simp add: frame_length_def)
  have "length bs < HEADER_SIZE + length (msg_data m)"
    using split \<open>cs \<noteq> []\<close> length_Message_frame [of m] by (cases cs) auto
  with len fits False show ?thesis by (simp add: frame_decode_def Message_fits_def)
qed

lemma frame_decode_None_length:
  "fst (frame_decode bs) = Inr None \<Longrightarrow> length bs < HEADER_SIZE + MAX_MESSAGE_SIZE"
  by (auto simp: frame_decode_def split: if_splits)

lemma frame_decode_None_unchanged:
  "fst (frame_decode bs) = Inr None \<Longrightarrow> snd (frame_decode bs) = bs"
  by (auto simp: frame_decode_def split: if_splits)

lemma frame_decode_Some_inverse:
  assumes "frame_decode bs = (Inr (Some m), rest)"
  shows "bs = Message_frame m @ rest \<and> Message_fits m"
proof -
  from assms have len: "\<not> length bs < HEADER_SIZE" "frame_length bs \<le> MAX_MESSAGE_SIZE"
      "HEADER_SIZE + frame_length bs \<le> length bs"
    and m: "msg_data m = take (frame_length bs) (drop HEADER_SIZE bs)"
    and rest: "rest = drop (HEADER_SIZE + frame_length bs) bs"
    by (auto simp: frame_decode_def split: if_splits)
  have data: "length (msg_data m) = frame_length bs" using len m by simp
  from len(1) have "length (take HEADER_SIZE bs) = 4" by (simp add: HEADER_SIZE_def)
  then obtain a b c d where abcd: "take HEADER_SIZE bs = [a, b, c, d]"
    using length_4_split by blast
  have "u32_to_be_bytes (of_nat (frame_length bs)) = take HEADER_SIZE bs"
    by (simp add: frame_length_def abcd del: u32_from_be_bytes.simps)
  then have "Message_frame m = take HEADER_SIZE bs @ msg_data m"
    by (simp add: Message_frame_def data)
  moreover have "msg_data m @ rest = drop HEADER_SIZE bs"
    by (simp add: m rest add.commute [of HEADER_SIZE] flip: drop_drop)
  ultimately show ?thesis using len data by (simp add: Message_fits_def)
qed

section \<open>The decoder on buffers refines the specification\<close>

context bytes_buffer
begin

lemma encode_slice:
  "Message_encode B m = Inr buf \<Longrightarrow> bm_slice B buf = Message_frame m \<and> Message_fits m"
  by (auto simp: Message_encode_def Let_def Message_frame_def Message_fits_def
        slice_with_capacity slice_put_u32 slice_put_slice split: if_splits)

lemma decode_refines: "map_prod id (bm_slice B) (Message_decode B buf) = frame_decode (bm_slice B buf)"
proof -
  let ?bs = "bm_slice B buf" and ?len = "frame_length (bm_slice B buf)"
  let ?buf1 = "bm_advance B HEADER_SIZE buf"
  show ?thesis
  proof (cases "HEADER_SIZE + ?len \<le> length ?bs")
    case True
    then have "HEADER_SIZE \<le> length ?bs" by simp
    then have "bm_slice B ?buf1 = drop HEADER_SIZE ?bs" by (rule slice_advance)
    with True show ?thesis
      by (simp add: Message_decode_def frame_decode_def frame_length_def Let_def add.commute
            slice_split_to_front slice_split_to_rest case_prod_beta)
  qed (auto simp: Message_decode_def frame_decode_def frame_length_def Let_def)
qed

lemma fst_decode: "fst (Message_decode B buf) = fst (frame_decode (bm_slice B buf))"
  by (simp flip: decode_refines)

lemma slice_snd_decode: "bm_slice B (snd (Message_decode B buf)) = snd (frame_decode (bm_slice B buf))"
  by (simp flip: decode_refines)

end

lemma Message_decode_None: "fst (Message_decode B buf) = Inr None \<Longrightarrow> snd (Message_decode B buf) = buf"
  by (auto simp: Message_decode_def Let_def split: if_splits prod.splits)

text \<open>
  What a receiver relies on: a codec that recognises a complete frame at the front of a
  buffer, leaves what follows it, and leaves an incomplete frame alone. The receive loops
  of the client and of the session are verified against this interface.
\<close>

locale frame_codec =
  fixes frame :: "'m \<Rightarrow> 'byte list"
    and fits :: "'m \<Rightarrow> bool"
    and decode :: "'b \<Rightarrow> ('e + 'm option) \<times> 'b"
    and slice :: "'b \<Rightarrow> 'byte list"
  assumes decode_frame:
      "fits m \<Longrightarrow> slice b = frame m @ rest \<Longrightarrow>
       fst (decode b) = Inr (Some m) \<and> slice (snd (decode b)) = rest"
    and decode_prefix:
      "fits m \<Longrightarrow> frame m = slice b @ cs \<Longrightarrow> cs \<noteq> [] \<Longrightarrow> decode b = (Inr None, b)"
begin

text \<open>
  A stream cut at any point either already holds the whole first frame or holds a proper
  prefix of it.
\<close>

lemma stream_cut:
  assumes "fits m" and "slice b @ pending = frame m @ rest"
  shows "(\<exists>rest'. slice b = frame m @ rest' \<and> rest = rest' @ pending) \<or> decode b = (Inr None, b)"
proof -
  from assms(2) obtain us where
    "slice b = frame m @ us \<and> us @ pending = rest \<or> slice b @ us = frame m \<and> pending = us @ rest"
    by (auto simp: append_eq_append_conv2)
  then show ?thesis
    using decode_prefix [OF assms(1), of b us] by (cases "us = []") auto
qed

end

sublocale bytes_buffer \<subseteq> codec: frame_codec Message_frame Message_fits "Message_decode B" "bm_slice B"
proof unfold_locales
  show "fst (Message_decode B b) = Inr (Some m) \<and> bm_slice B (snd (Message_decode B b)) = rest"
    if "Message_fits m" "bm_slice B b = Message_frame m @ rest" for m b rest
    using that by (simp add: fst_decode slice_snd_decode frame_decode_frame)
  show "Message_decode B b = (Inr None, b)"
    if "Message_fits m" "Message_frame m = bm_slice B b @ cs" "cs \<noteq> []" for m b cs
    using frame_decode_prefix [OF that] Message_decode_None [of B b]
    by (simp add: prod_eq_iff fst_decode)
qed

context bytes_buffer
begin

lemma encode_then_decode:
  assumes e: "Message_encode B m = Inr e" and buf: "bm_slice B buf = bm_slice B e @ rest"
  shows "\<exists>buf'. Message_decode B buf = (Inr (Some m), buf') \<and> bm_slice B buf' = rest"
  using encode_slice [OF e] buf codec.decode_frame [of m buf rest] by (metis prod.collapse)

end

section \<open>Properties\<close>

text \<open>
  C2. Wire round trip. Encoding a message of at most 16 MiB succeeds; a buffer that holds
  the encoding followed by any further bytes decodes to that message and keeps exactly the
  further bytes. Larger messages are refused with their size and the limit.
\<close>

theorem encode_decode_roundtrip:
  assumes "bytes_buffer B"
  shows "if length (msg_data m) \<le> MAX_MESSAGE_SIZE
         then \<exists>e. Message_encode B m = Inr e \<and>
                (\<forall>buf rest. bm_slice B buf = bm_slice B e @ rest \<longrightarrow>
                   (\<exists>buf'. Message_decode B buf = (Inr (Some m), buf') \<and> bm_slice B buf' = rest))
         else Message_encode B m = Inl (MessageTooLarge (length (msg_data m)) MAX_MESSAGE_SIZE)"
proof (cases "length (msg_data m) \<le> MAX_MESSAGE_SIZE")
  case True
  then obtain e where e: "Message_encode B m = Inr e" by (auto simp: Message_encode_def Let_def)
  with True bytes_buffer.encode_then_decode [OF assms e] show ?thesis by auto
qed (simp add: Message_encode_def Let_def)

theorem encode_decode_roundtrip_witness:
  "bytes_buffer vec_bytes \<and>
   (\<exists>e. Message_encode vec_bytes (Message_from_str ''Hello'') = Inr e \<and>
      (\<forall>buf rest. bm_slice vec_bytes buf = bm_slice vec_bytes e @ rest \<longrightarrow>
         (\<exists>buf'. Message_decode vec_bytes buf = (Inr (Some (Message_from_str ''Hello'')), buf') \<and>
            bm_slice vec_bytes buf' = rest)))"
  using encode_decode_roundtrip [OF vec.bytes_buffer_axioms, of "Message_from_str ''Hello''"]
    vec.bytes_buffer_axioms
  by (simp add: Message_from_str_def Message_new_def MAX_MESSAGE_SIZE_def)

text \<open>
  C3. What each result of the decoder means for the buffer. A decoded message is exactly
  the frame at the front of the buffer, and nothing else is consumed. A request for more
  data leaves the buffer as it was, and no frame is complete in it. An error leaves the
  buffer as it was and reports an announced length above the limit.
\<close>

theorem decode_exact:
  assumes "bytes_buffer B"
  shows "case Message_decode B buf of
           (Inr (Some m), buf') \<Rightarrow> bm_slice B buf = Message_frame m @ bm_slice B buf' \<and> Message_fits m
         | (Inr None, buf') \<Rightarrow>
             buf' = buf \<and> (\<forall>m rest. Message_fits m \<longrightarrow> bm_slice B buf \<noteq> Message_frame m @ rest)
         | (Inl err, buf') \<Rightarrow>
             buf' = buf \<and> (\<exists>len > MAX_MESSAGE_SIZE. err = MessageTooLarge len MAX_MESSAGE_SIZE)"
proof -
  obtain r buf' where d: "Message_decode B buf = (r, buf')" by fastforce
  then have spec: "frame_decode (bm_slice B buf) = (r, bm_slice B buf')"
    using bytes_buffer.decode_refines [OF assms, of buf] by simp
  have "bm_slice B buf \<noteq> Message_frame m @ rest" if "r = Inr None" "Message_fits m" for m rest
    using spec that frame_decode_frame [OF that(2), of rest] by auto
  moreover have "buf' = buf \<and> (\<exists>len > MAX_MESSAGE_SIZE. err = MessageTooLarge len MAX_MESSAGE_SIZE)"
    if "r = Inl err" for err
    using d that by (auto simp: Message_decode_def Let_def split: if_splits prod.splits)
  ultimately show ?thesis
    using frame_decode_Some_inverse [of "bm_slice B buf"] spec d Message_decode_None [of B buf]
    by (auto split: sum.splits option.splits)
qed

theorem decode_exact_witness:
  "bytes_buffer vec_bytes \<and>
   Message_decode vec_bytes [0, 0, 0, 2, 72, 105, 33] = (Inr (Some \<lparr>msg_data = [72, 105]\<rparr>), [33]) \<and>
   [0, 0, 0, 2, 72, 105, 33] = Message_frame \<lparr>msg_data = [72, 105]\<rparr> @ [33]"
proof -
  have d: "Message_decode vec_bytes [0, 0, 0, 2, 72, 105, 33] = (Inr (Some \<lparr>msg_data = [72, 105]\<rparr>), [33])"
    by (simp add: Message_decode_def vec_bytes_def HEADER_SIZE_def MAX_MESSAGE_SIZE_def)
  show ?thesis
    using decode_exact [OF vec.bytes_buffer_axioms, of "[0, 0, 0, 2, 72, 105, 33]"] d
      vec.bytes_buffer_axioms
    by (simp add: vec_bytes_def)
qed

end
