(* ===== verification/Receive_Loop.thy ===== *)
theory Receive_Loop
  imports Message_Frame
begin

text \<open>
  The loop that assembles one message from a byte stream. \<open>Session::receive\<close>
  (\<open>src/session/mod.rs\<close>) and \<open>TcpClient::receive\<close> (\<open>src/core/client.rs\<close>) run the same loop;
  they differ in the buffer they start from and in what they keep of it afterwards.

  The socket is the list of the results that successive reads give (the read half comes
  from tokio): a read times out, fails, or returns a chunk, empty when the peer has closed
  the connection. The clock gives the time since the start of the call at the head of each
  iteration. \<open>None\<close> as a result means that the loop awaits a read that is not in the list.
\<close>

section \<open>Model\<close>

type_synonym socket_read = "(string + u8 list) timed"

definition MAX_BUFFER_SIZE :: nat where
  "MAX_BUFFER_SIZE = MAX_MESSAGE_SIZE + 1024"

definition assembly_timeout_error :: NetworkError where
  "assembly_timeout_error =
     NetworkError_timeout ''Message assembly timeout: took too long to receive complete message''"

definition malformed_error :: NetworkError where
  "malformed_error =
     NetworkError_connection
       ''Malformed message: buffer exceeded maximum size without complete message''"

definition closed_by_peer_error :: NetworkError where
  "closed_by_peer_error = NetworkError_connection ''Connection closed by peer''"

definition await_read :: "socket_read \<Rightarrow> u8 list net_result" where
  "await_read =
     await_timed (NetworkError_timeout ''Read timed out'')
       (\<lambda>e. NetworkError_connection (''Failed to read: '' @ e))"

fun receive_loop ::
  "'b bytes_mut \<Rightarrow> duration \<Rightarrow> (nat \<Rightarrow> duration) \<Rightarrow> nat \<Rightarrow> socket_read list \<Rightarrow> 'b \<Rightarrow>
     Message net_result option \<times> 'b \<times> socket_read list" where
  "receive_loop B assembly_timeout clock i reads buf =
     (if clock i \<ge> assembly_timeout then (Some (Inl assembly_timeout_error), buf, reads)
      else
        case Message_decode B buf of
          (Inl e, buf) \<Rightarrow> (Some (Inl e), buf, reads)
        | (Inr (Some message), buf) \<Rightarrow> (Some (Inr message), buf, reads)
        | (Inr None, buf) \<Rightarrow>
            (if length (bm_slice B buf) \<ge> MAX_BUFFER_SIZE
             then (Some (Inl malformed_error), buf, reads)
             else
               case reads of
                 [] \<Rightarrow> (None, buf, [])
               | r # rs \<Rightarrow>
                   (case await_read r of
                      Inl e \<Rightarrow> (Some (Inl e), buf, rs)
                    | Inr chunk \<Rightarrow>
                        let buf = bm_put_slice B chunk buf in
                        if length chunk = 0 then (Some (Inl closed_by_peer_error), buf, rs)
                        else receive_loop B assembly_timeout clock (Suc i) rs buf)))"

declare receive_loop.simps [simp del]

lemma await_read_chunk [simp]: "await_read (Completed (Inr chunk)) = Inr chunk"
  by (simp add: await_read_def)

lemma await_read_Inr [simp]: "await_read r = Inr chunk \<longleftrightarrow> r = Completed (Inr chunk)"
  by (simp add: await_read_def)

section \<open>Assembling a frame\<close>

text \<open>The bytes that the successful reads of a list bring.\<close>

fun read_bytes :: "socket_read list \<Rightarrow> u8 list" where
  "read_bytes (Completed (Inr chunk) # rs) = chunk @ read_bytes rs"
| "read_bytes (_ # rs) = read_bytes rs"
| "read_bytes [] = []"

definition chunk_reads :: "socket_read list \<Rightarrow> bool" where
  "chunk_reads rs \<longleftrightarrow> (\<forall>r \<in> set rs. \<exists>chunk. r = Completed (Inr chunk) \<and> chunk \<noteq> [])"

lemma chunk_reads_Cons [simp]:
  "chunk_reads (r # rs) \<longleftrightarrow> (\<exists>chunk. r = Completed (Inr chunk) \<and> chunk \<noteq> []) \<and> chunk_reads rs"
  by (simp add: chunk_reads_def)

lemma chunk_reads_Nil [simp]: "chunk_reads []"
  by (simp add: chunk_reads_def)

lemmas error_texts = assembly_timeout_error_def malformed_error_def closed_by_peer_error_def

lemma Message_decode_errors:
  "Message_decode B buf = (Inl e, buf') \<Longrightarrow> \<exists>len. e = MessageTooLarge len MAX_MESSAGE_SIZE"
  by (auto simp: Message_decode_def Let_def split: if_splits prod.splits)

context bytes_buffer
begin

lemma decode_None_short:
  assumes "Message_decode B buf = (Inr None, buf')"
  shows "buf' = buf \<and> length (bm_slice B buf) < HEADER_SIZE + MAX_MESSAGE_SIZE"
  using assms Message_decode_None [of B buf] frame_decode_None_length [of "bm_slice B buf"]
    fst_decode [of buf] by auto

text \<open>
  The loop delivers the first frame of the stream formed by the buffer and the pending
  reads, however the frame is cut into reads, and loses no byte of what follows.
\<close>

lemma receive_loop_frame:
  assumes "Message_fits m" and "\<And>j. clock j < assembly_timeout" and "chunk_reads reads"
    and "bm_slice B buf @ read_bytes reads = Message_frame m @ rest"
  shows "\<exists>buf' reads'. receive_loop B assembly_timeout clock i (reads @ tail) buf
           = (Some (Inr m), buf', reads' @ tail) \<and>
         chunk_reads reads' \<and> bm_slice B buf' @ read_bytes reads' = rest"
  using assms(3,4)
proof (induction reads arbitrary: i buf)
  case Nil
  then have "fst (Message_decode B buf) = Inr (Some m) \<and> bm_slice B (snd (Message_decode B buf)) = rest"
    using codec.decode_frame [OF assms(1), of buf rest] by simp
  then show ?case
    using assms(2) [of i] Nil
    by (subst receive_loop.simps) (auto split: prod.splits intro!: exI [of _ "[]"])
next
  case (Cons r reads)
  then obtain chunk where r: "r = Completed (Inr chunk)" "chunk \<noteq> []" by auto
  from codec.stream_cut [OF assms(1) Cons.prems(2)] show ?case
  proof (elim disjE exE conjE)
    fix rest'
    assume "bm_slice B buf = Message_frame m @ rest'" and rest: "rest = rest' @ read_bytes (r # reads)"
    then have "fst (Message_decode B buf) = Inr (Some m) \<and> bm_slice B (snd (Message_decode B buf)) = rest'"
      using codec.decode_frame [OF assms(1), of buf rest'] by simp
    then show ?thesis
      using assms(2) [of i] Cons.prems(1) rest
      by (subst receive_loop.simps) (auto split: prod.splits intro!: exI [of _ "r # reads"])
  next
    assume dec: "Message_decode B buf = (Inr None, buf)"
    let ?buf = "bm_put_slice B chunk buf"
    have "bm_slice B ?buf @ read_bytes reads = Message_frame m @ rest"
      using Cons.prems(2) r by (simp add: slice_put_slice)
    moreover have "receive_loop B assembly_timeout clock i ((r # reads) @ tail) buf
        = receive_loop B assembly_timeout clock (Suc i) (reads @ tail) ?buf"
      using assms(2) [of i] dec r decode_None_short [OF dec]
      by (subst receive_loop.simps) (simp add: MAX_BUFFER_SIZE_def HEADER_SIZE_def)
    ultimately show ?thesis using Cons.IH [of ?buf "Suc i"] Cons.prems(1) by simp
  qed
qed

text \<open>The guard against an oversized buffer is never the reason for an error.\<close>

lemma receive_loop_never_malformed:
  "fst (receive_loop B assembly_timeout clock i reads buf) \<noteq> Some (Inl malformed_error)"
proof (induction reads arbitrary: i buf)
  case Nil
  show ?case
    using decode_None_short [of buf] Message_decode_errors [of B buf]
    by (subst receive_loop.simps)
       (auto simp: error_texts MAX_BUFFER_SIZE_def HEADER_SIZE_def split: prod.splits sum.splits option.splits)
next
  case (Cons r reads)
  show ?case
    using decode_None_short [of buf] Message_decode_errors [of B buf] Cons.IH
    by (subst receive_loop.simps)
       (auto simp: error_texts await_read_def MAX_BUFFER_SIZE_def HEADER_SIZE_def Let_def
          split: prod.splits sum.splits option.splits elim!: await_timed.elims)
qed

text \<open>Once a clock reading passes the assembly timeout, the loop has returned.\<close>

lemma receive_loop_returns:
  assumes "clock j \<ge> assembly_timeout" and "i \<le> j" and "j \<le> i + length reads"
  shows "fst (receive_loop B assembly_timeout clock i reads buf) \<noteq> None"
  using assms(2,3)
proof (induction reads arbitrary: i buf)
  case Nil
  with assms(1) show ?case by (subst receive_loop.simps) simp
next
  case (Cons r reads)
  show ?case
  proof (cases "i = j")
    case True
    with assms(1) show ?thesis by (subst receive_loop.simps) simp
  next
    case False
    then have "fst (receive_loop B assembly_timeout clock (Suc i) reads b) \<noteq> None" for b
      using Cons by simp
    then show ?thesis
      by (subst receive_loop.simps) (auto simp: Let_def split: prod.splits sum.splits option.splits)
  qed
qed

end

end
