(* ===== verification/Session.thy ===== *)
theory Session
  imports Receive_Loop
begin

text \<open>
  Sessions (\<open>src/session/mod.rs\<close>): the state of one accepted connection, sending and
  receiving on it, idleness, and closing. The two halves of the TCP stream, the result of
  a write and the session id come from tokio and the system's random generator: the halves
  are opaque, and what awaiting them gives is an argument. Every operation takes the clock
  readings it makes, in the order it makes them. The handler callbacks of the trait
  \<open>SessionHandler\<close> appear in the server's session task.
\<close>

section \<open>Model\<close>

datatype SessionState = Active | Closing | Closed

record ('r, 'w, 'b) Session =
  sess_id :: u128
  read_half :: "'r option"
  write_half :: "'w option"
  peer_addr :: string
  sess_state :: SessionState
  sess_read_timeout :: duration
  sess_write_timeout :: duration
  sess_idle_timeout :: duration
  created_at :: instant
  last_activity :: instant
  sess_active :: bool
  read_buffer :: 'b

definition Session_new ::
  "'b bytes_mut \<Rightarrow> u128 \<Rightarrow> instant \<Rightarrow> 'r \<times> 'w \<Rightarrow> string \<Rightarrow> duration \<Rightarrow> duration \<Rightarrow> duration \<Rightarrow>
     ('r, 'w, 'b) Session" where
  "Session_new B sid now halves addr read_timeout write_timeout idle_timeout =
     \<lparr>sess_id = sid, read_half = Some (fst halves), write_half = Some (snd halves),
      peer_addr = addr, sess_state = Active, sess_read_timeout = read_timeout,
      sess_write_timeout = write_timeout, sess_idle_timeout = idle_timeout,
      created_at = now, last_activity = now, sess_active = True,
      read_buffer = bm_with_capacity B 4096\<rparr>"

definition Session_update_activity :: "instant \<Rightarrow> ('r, 'w, 'b) Session \<Rightarrow> ('r, 'w, 'b) Session" where
  "Session_update_activity now s = s\<lparr>last_activity := now\<rparr>"

definition Session_is_idle :: "instant \<Rightarrow> ('r, 'w, 'b) Session \<Rightarrow> bool" where
  "Session_is_idle now s \<longleftrightarrow> elapsed now (last_activity s) > sess_idle_timeout s"

definition Session_idle_time :: "instant \<Rightarrow> ('r, 'w, 'b) Session \<Rightarrow> duration" where
  "Session_idle_time now s = elapsed now (last_activity s)"

definition Session_is_active :: "('r, 'w, 'b) Session \<Rightarrow> bool" where
  "Session_is_active s \<longleftrightarrow> sess_active s"

definition Session_set_inactive :: "('r, 'w, 'b) Session \<Rightarrow> ('r, 'w, 'b) Session" where
  "Session_set_inactive s = s\<lparr>sess_active := False\<rparr>"

definition Session_uptime :: "instant \<Rightarrow> ('r, 'w, 'b) Session \<Rightarrow> duration" where
  "Session_uptime now s = elapsed now (created_at s)"

text \<open>
  \<open>write_all\<close> stands for \<open>timeout(d, write_half.write_all(&data)).await\<close>: the deadline, the
  bytes and the write half, giving the outcome and the write half after it.
\<close>

type_synonym 'w writer = "duration \<Rightarrow> u8 list \<Rightarrow> 'w \<Rightarrow> (string + unit) timed \<times> 'w"

definition Session_send ::
  "'b bytes_mut \<Rightarrow> 'w writer \<Rightarrow> instant \<Rightarrow> instant \<Rightarrow> Message \<Rightarrow> ('r, 'w, 'b) Session \<Rightarrow>
     unit net_result \<times> ('r, 'w, 'b) Session" where
  "Session_send B write_all now now' message s =
     (if \<not> Session_is_active s
      then (Inl (NetworkError_invalid_state ''Session is not active''), s)
      else if Session_is_idle now s
      then (Inl (NetworkError_timeout ''Session idle timeout exceeded''), s)
      else
        case Message_encode B message of
          Inl e \<Rightarrow> (Inl e, s)
        | Inr data \<Rightarrow>
            (case write_half s of
               None \<Rightarrow> (Inl (NetworkError_invalid_state ''Session write half is closed''), s)
             | Some w \<Rightarrow>
                 let (outcome, w') = write_all (sess_write_timeout s) (bm_slice B data) w;
                     s = s\<lparr>write_half := Some w'\<rparr>
                 in
                   case await_timed (NetworkError_timeout ''Write timed out'')
                          (\<lambda>e. NetworkError_connection (''Failed to write: '' @ e)) outcome of
                     Inl e \<Rightarrow> (Inl e, s)
                   | Inr _ \<Rightarrow> (Inr (), Session_update_activity now' s)))"

text \<open>
  \<open>self.read_timeout * 3\<close> panics when the product is no longer a \<open>Duration\<close>.
\<close>

definition Session_receive ::
  "'b bytes_mut \<Rightarrow> (nat \<Rightarrow> duration) \<Rightarrow> instant \<Rightarrow> instant \<Rightarrow> socket_read list \<Rightarrow>
     ('r, 'w, 'b) Session \<Rightarrow>
     (Message net_result option \<times> ('r, 'w, 'b) Session \<times> socket_read list) run" where
  "Session_receive B clock now now' reads s =
     (if \<not> Session_is_active s
      then Returned (Some (Inl (NetworkError_invalid_state ''Session is not active'')), s, reads)
      else if Session_is_idle now s
      then Returned (Some (Inl (NetworkError_timeout ''Session idle timeout exceeded'')), s, reads)
      else
        case read_half s of
          None \<Rightarrow>
            Returned (Some (Inl (NetworkError_invalid_state ''Session read half is closed'')), s, reads)
        | Some _ \<Rightarrow>
            if sess_read_timeout s * 3 > duration_max
            then Panicked ''overflow when multiplying duration by scalar''
            else
              let (result, buf, reads') =
                    receive_loop B (sess_read_timeout s * 3) clock 0 reads (read_buffer s);
                  s = s\<lparr>read_buffer := buf\<rparr>
              in
                Returned
                  (result,
                   (case result of
                      Some (Inr _) \<Rightarrow> Session_update_activity now' s
                    | _ \<Rightarrow> s),
                   reads'))"

text \<open>\<open>write_half.shutdown()\<close> is best effort, so its result does not appear.\<close>

definition Session_close :: "('r, 'w, 'b) Session \<Rightarrow> unit net_result \<times> ('r, 'w, 'b) Session" where
  "Session_close s =
     (let s = s\<lparr>sess_state := Closing\<rparr>;
          s = s\<lparr>sess_active := False\<rparr>;
          s = s\<lparr>write_half := None\<rparr>;
          s = s\<lparr>read_half := None\<rparr>;
          s = s\<lparr>sess_state := Closed\<rparr>
      in (Inr (), s))"

definition Session_id :: "('r, 'w, 'b) Session \<Rightarrow> u128" where
  "Session_id s = sess_id s"

definition Session_peer_addr :: "('r, 'w, 'b) Session \<Rightarrow> string" where
  "Session_peer_addr s = peer_addr s"

definition Session_state :: "('r, 'w, 'b) Session \<Rightarrow> SessionState" where
  "Session_state s = sess_state s"

text \<open>The texts of \<open>DefaultSessionHandler\<close>.\<close>

definition DefaultSessionHandler_on_message :: "('r, 'w, 'b) Session \<Rightarrow> Message \<Rightarrow> string" where
  "DefaultSessionHandler_on_message s m =
     ''Session '' @ show_nat (unat (sess_id s)) @ '' received message: '' @ Message_to_string m"

definition DefaultSessionHandler_on_connected :: "('r, 'w, 'b) Session \<Rightarrow> string" where
  "DefaultSessionHandler_on_connected s =
     ''Session '' @ show_nat (unat (sess_id s)) @ '' connected from '' @ peer_addr s"

definition DefaultSessionHandler_on_disconnected :: "instant \<Rightarrow> ('r, 'w, 'b) Session \<Rightarrow> string" where
  "DefaultSessionHandler_on_disconnected now s =
     ''Session '' @ show_nat (unat (sess_id s)) @ '' disconnected (uptime: '' @
     show_duration (Session_uptime now s) @ '')''"

section \<open>The life of a session\<close>

text \<open>One call on a session, with what the environment answers.\<close>

datatype 'w session_event =
    Send "'w writer" instant instant Message
  | Receive "nat \<Rightarrow> duration" instant instant "socket_read list"
  | Close
  | SetInactive

fun session_apply ::
  "'b bytes_mut \<Rightarrow> 'w session_event \<Rightarrow> ('r, 'w, 'b) Session \<Rightarrow> ('r, 'w, 'b) Session" where
  "session_apply B (Send write_all now now' m) s = snd (Session_send B write_all now now' m s)"
| "session_apply B (Receive clock now now' reads) s =
     (case Session_receive B clock now now' reads s of
        Returned (_, s', _) \<Rightarrow> s'
      | Panicked _ \<Rightarrow> s)"
| "session_apply B Close s = snd (Session_close s)"
| "session_apply B SetInactive s = Session_set_inactive s"

text \<open>
  An active session is in state \<open>Active\<close> and owns both halves of its stream; a session
  that was closed owns neither.
\<close>

definition session_inv :: "('r, 'w, 'b) Session \<Rightarrow> bool" where
  "session_inv s \<longleftrightarrow>
     (sess_active s \<longrightarrow> sess_state s = Active \<and> read_half s \<noteq> None \<and> write_half s \<noteq> None) \<and>
     (sess_state s = Closed \<longrightarrow> read_half s = None \<and> write_half s = None) \<and>
     sess_state s \<noteq> Closing"

lemmas session_simps =
  Session_send_def Session_receive_def Session_close_def Session_set_inactive_def
  Session_update_activity_def Session_is_active_def

lemma session_apply_inv: "session_inv s \<Longrightarrow> session_inv (session_apply B e s)"
  by (cases e)
     (auto simp: session_simps session_inv_def Let_def split: sum.splits option.splits prod.splits)

lemma session_apply_inactive: "\<not> sess_active s \<Longrightarrow> \<not> sess_active (session_apply B e s)"
  by (cases e)
     (auto simp: session_simps Let_def split: sum.splits option.splits prod.splits)

text \<open>The states of a session in the order in which it goes through them.\<close>

primrec state_rank :: "SessionState \<Rightarrow> nat" where
  "state_rank Active = 0"
| "state_rank Closing = 1"
| "state_rank Closed = 2"

instantiation SessionState :: linorder
begin

definition less_eq_SessionState :: "SessionState \<Rightarrow> SessionState \<Rightarrow> bool" where
  "s \<le> t \<longleftrightarrow> state_rank s \<le> state_rank t"

definition less_SessionState :: "SessionState \<Rightarrow> SessionState \<Rightarrow> bool" where
  "s < t \<longleftrightarrow> state_rank s < state_rank t"

instance
proof
  fix s t :: SessionState
  show "s \<le> t \<Longrightarrow> t \<le> s \<Longrightarrow> s = t" by (cases s; cases t) (simp_all add: less_eq_SessionState_def)
qed (auto simp: less_eq_SessionState_def less_SessionState_def)

end

text \<open>No call takes a session back to an earlier state.\<close>

lemma session_state_advances: "sess_state s \<le> sess_state (session_apply B e s)"
proof -
  have "state_rank x \<le> 2" for x by (cases x) simp_all
  then show ?thesis
    by (cases e)
       (auto simp: session_simps less_eq_SessionState_def Let_def split: sum.splits option.splits prod.splits)
qed

lemma session_states_sorted: "sess_state s \<le> sess_state (fold (session_apply B) es s)"
  by (induction es arbitrary: s) (auto intro: order_trans [OF session_state_advances])

interpretation session: event_system "session_apply B" session_inv
  by unfold_locales (rule session_apply_inv)

interpretation session_off: event_system "session_apply B" "\<lambda>s. \<not> sess_active s"
  by unfold_locales (rule session_apply_inactive)

text \<open>Once \<open>close\<close> has run, the session stays closed whatever is called on it.\<close>

definition session_closed :: "('r, 'w, 'b) Session \<Rightarrow> bool" where
  "session_closed s \<longleftrightarrow>
     \<not> sess_active s \<and> sess_state s = Closed \<and> read_half s = None \<and> write_half s = None"

lemma session_apply_closed: "session_closed s \<Longrightarrow> session_closed (session_apply B e s)"
  by (cases e) (auto simp: session_closed_def session_simps Let_def)

interpretation session_gone: event_system "session_apply B" session_closed
  by unfold_locales (rule session_apply_closed)

lemma session_closed_close: "session_closed (snd (Session_close s))"
  by (simp add: Session_close_def session_closed_def Let_def)

section \<open>Sending and receiving on an open session\<close>

context bytes_buffer
begin

lemma encode_fits:
  "Message_fits m \<Longrightarrow> \<exists>data. Message_encode B m = Inr data \<and> bm_slice B data = Message_frame m"
  using encode_slice [of m] by (auto simp: Message_encode_def Message_fits_def Let_def)

lemma session_send_ok:
  assumes "Session_is_active s" "\<not> Session_is_idle now s" "write_half s = Some w" "Message_fits m"
    and "write_all (sess_write_timeout s) (Message_frame m) w = (Completed (Inr ()), w')"
  shows "Session_send B write_all now now' m s = (Inr (), s\<lparr>write_half := Some w', last_activity := now'\<rparr>)"
  using assms encode_fits [of m]
  by (auto simp: Session_send_def Session_update_activity_def)

lemma session_receive_ok:
  assumes "Session_is_active s" "\<not> Session_is_idle now s" "read_half s \<noteq> None"
    and "sess_read_timeout s * 3 \<le> duration_max" "\<And>j. clock j < sess_read_timeout s * 3"
    and "Message_fits m" "chunk_reads reads"
    and "bm_slice B (read_buffer s) @ read_bytes reads = Message_frame m @ rest"
  shows "\<exists>buf reads'.
           Session_receive B clock now now' (reads @ tail) s =
             Returned (Some (Inr m), s\<lparr>read_buffer := buf, last_activity := now'\<rparr>, reads' @ tail) \<and>
           chunk_reads reads' \<and> bm_slice B buf @ read_bytes reads' = rest"
proof -
  obtain buf reads' where
    "receive_loop B (sess_read_timeout s * 3) clock 0 (reads @ tail) (read_buffer s) =
       (Some (Inr m), buf, reads' @ tail)"
    "chunk_reads reads'" "bm_slice B buf @ read_bytes reads' = rest"
    using receive_loop_frame [where clock = clock and i = 0, OF assms(6,5,7,8)] by blast
  with assms(1-4) show ?thesis by (auto simp: Session_receive_def Session_update_activity_def)
qed

end

text \<open>
  A writer that accepts everything, where \<open>sent\<close> gives the bytes a write half has taken, and
  what a session has sent.
\<close>

definition accepting_writer :: "('w \<Rightarrow> u8 list) \<Rightarrow> 'w writer \<Rightarrow> bool" where
  "accepting_writer sent write_all \<longleftrightarrow>
     (\<forall>d data w. fst (write_all d data w) = Completed (Inr ()) \<and>
        sent (snd (write_all d data w)) = sent w @ data)"

definition session_sent :: "('w \<Rightarrow> u8 list) \<Rightarrow> ('r, 'w, 'b) Session \<Rightarrow> u8 list" where
  "session_sent sent s = (case write_half s of None \<Rightarrow> [] | Some w \<Rightarrow> sent w)"

section \<open>Properties\<close>

text \<open>
  C4. A session reads its stream message by message. When the bytes already buffered and the
  bytes still to be read form the frame of a message followed by anything, \<open>receive\<close>
  returns that message, however the bytes are cut into reads, and the buffer it keeps
  together with the unread chunks is exactly what follows the frame: a second message
  that arrived in the same read is not lost. Only the buffer and the activity time change.
\<close>

theorem session_receive_next_message:
  assumes "bytes_buffer B" "Session_is_active s" "\<not> Session_is_idle now s" "read_half s \<noteq> None"
    and "sess_read_timeout s * 3 \<le> duration_max" "\<And>j. clock j < sess_read_timeout s * 3"
    and "Message_fits m" "chunk_reads reads"
    and "bm_slice B (read_buffer s) @ read_bytes reads = Message_frame m @ rest"
  shows "\<exists>buf reads'.
           Session_receive B clock now now' reads s =
             Returned (Some (Inr m), s\<lparr>read_buffer := buf, last_activity := now'\<rparr>, reads') \<and>
           chunk_reads reads' \<and> bm_slice B buf @ read_bytes reads' = rest"
  using bytes_buffer.session_receive_ok [where tail = "[]", OF assms(1-7) _ assms(9)] assms(8)
  by simp

definition example_session :: "(unit, u8 list, u8 list) Session" where
  "example_session =
     Session_new vec_bytes 7 100 ((), []) ''127.0.0.1:5000'' (from_secs 30) (from_secs 10) (from_secs 300)"

text \<open>Two messages in three reads that respect no message boundary.\<close>

definition example_reads :: "socket_read list" where
  "example_reads =
     [Completed (Inr [0, 0]), Completed (Inr [0, 1, 65, 0, 0]), Completed (Inr [0, 2, 66, 67])]"

theorem session_receive_next_message_witness:
  "\<exists>buf reads'.
     Session_receive vec_bytes (\<lambda>_. 0) 200 300 example_reads example_session =
       Returned (Some (Inr \<lparr>msg_data = [65]\<rparr>), example_session\<lparr>read_buffer := buf, last_activity := 300\<rparr>, reads') \<and>
     chunk_reads reads' \<and> bm_slice vec_bytes buf @ read_bytes reads' = [0, 0, 0, 2, 66, 67]"
proof (rule session_receive_next_message [OF vec.bytes_buffer_axioms])
  show "bm_slice vec_bytes (read_buffer example_session) @ read_bytes example_reads =
      Message_frame \<lparr>msg_data = [65]\<rparr> @ [0, 0, 0, 2, 66, 67]"
    by (simp add: example_session_def example_reads_def Session_new_def vec_bytes_def Message_frame_def
          u32_to_be_bytes_def)
qed (simp_all add: example_session_def example_reads_def Session_new_def Session_is_active_def
      Session_is_idle_def elapsed_def from_secs_def duration_max_def Message_fits_def
      MAX_MESSAGE_SIZE_def)

text \<open>
  C19. A slow or malicious peer cannot hold \<open>receive\<close> beyond the assembly timeout: as soon
  as the clock reading of some iteration has reached three times the read timeout, the
  call has returned (a message or an error), whatever the peer sent. Whatever it returns,
  it is never the oversized-buffer error: a buffer in which no complete message is found
  is always shorter than that guard.
\<close>

theorem session_receive_terminates:
  assumes "bytes_buffer B" "sess_read_timeout s * 3 \<le> duration_max"
    and "clock j \<ge> sess_read_timeout s * 3" "j \<le> length reads"
  shows "\<exists>r s' reads'. Session_receive B clock now now' reads s = Returned (Some r, s', reads') \<and>
           r \<noteq> Inl malformed_error"
proof -
  let ?loop = "receive_loop B (sess_read_timeout s * 3) clock 0 reads (read_buffer s)"
  have "fst ?loop \<noteq> None"
    using bytes_buffer.receive_loop_returns [OF assms(1), of _ clock j 0 reads] assms(3,4) by simp
  moreover have "fst ?loop \<noteq> Some (Inl malformed_error)"
    by (rule bytes_buffer.receive_loop_never_malformed [OF assms(1)])
  ultimately show ?thesis
    using assms(2) by (auto simp: Session_receive_def malformed_error_def Let_def split: prod.splits option.splits)
qed

theorem session_receive_terminates_witness:
  "\<exists>r s' reads'.
     Session_receive vec_bytes (\<lambda>j. j * from_secs 60) 200 300
       [Completed (Inr [0]), Completed (Inr [0])] example_session = Returned (Some r, s', reads') \<and>
     r \<noteq> Inl malformed_error"
  by (rule session_receive_terminates [OF vec.bytes_buffer_axioms, where j = 2])
     (simp_all add: example_session_def Session_new_def from_secs_def duration_max_def)

text \<open>
  Closing is final. Whatever calls are made on a session after \<open>close\<close>, it stays
  inactive, in state \<open>Closed\<close> and without its stream halves, and every further \<open>send\<close>
  and \<open>receive\<close> is refused as an invalid state, without touching the stream.
\<close>

theorem session_close_final:
  "let s' = fold (session_apply B) es (snd (Session_close s)) in
     \<not> Session_is_active s' \<and> sess_state s' = Closed \<and> read_half s' = None \<and> write_half s' = None \<and>
     Session_send B write_all now now' m s' = (Inl (InvalidState ''Session is not active''), s') \<and>
     Session_receive B clock now now' reads s' =
       Returned (Some (Inl (InvalidState ''Session is not active'')), s', reads)"
  using session_gone.run_inv [OF session_closed_close, of B es s]
  by (simp add: Let_def session_closed_def Session_is_active_def Session_send_def Session_receive_def)

text \<open>
  C28. Whatever sequence of calls a new session sees, while it is active it is in state
  \<open>Active\<close> and owns both stream halves, so neither \<open>send\<close> nor \<open>receive\<close> of an active
  session ever reports a closed half; and no call leaves it in the transient state
  \<open>Closing\<close>.
\<close>

theorem session_active_owns_stream:
  "let s = fold (session_apply B) es (Session_new B sid t halves addr rt wt it) in
     (Session_is_active s \<longrightarrow> sess_state s = Active \<and> read_half s \<noteq> None \<and> write_half s \<noteq> None) \<and>
     sess_state s \<noteq> Closing"
proof -
  have "session_inv (Session_new B sid t halves addr rt wt it)"
    by (simp add: Session_new_def session_inv_def)
  then have "session_inv (fold (session_apply B) es (Session_new B sid t halves addr rt wt it))"
    by (rule session.run_inv)
  then show ?thesis by (simp add: Let_def session_inv_def Session_is_active_def)
qed

theorem session_active_owns_stream_witness:
  "let s = fold (session_apply vec_bytes) [SetInactive] example_session in
     (Session_is_active s \<longrightarrow> sess_state s = Active \<and> read_half s \<noteq> None \<and> write_half s \<noteq> None) \<and>
     sess_state s \<noteq> Closing"
  unfolding example_session_def by (rule session_active_owns_stream)

end
