(* ===== verification/Client.thy ===== *)
theory Client
  imports Session
begin

text \<open>
  The TCP client (\<open>src/core/client.rs\<close>): connecting, sending, receiving, and reconnecting
  with exponential backoff. The sockets come from tokio and socket2, so the calls the
  client makes on them are the fields of the record \<open>tcp_ops\<close>, an argument that may differ
  from attempt to attempt; \<open>parse_addr\<close> is the parser of socket addresses and \<open>jitter\<close> the
  random generator. A stream is opaque; what reading gives is an argument of \<open>receive\<close>.
\<close>

section \<open>Model\<close>

record ClientConfig =
  connect_timeout :: duration
  cl_read_timeout :: duration
  cl_write_timeout :: duration
  cl_keep_alive :: "duration option"
  auto_reconnect :: bool
  max_reconnect_attempts :: nat

definition ClientConfig_default :: ClientConfig where
  "ClientConfig_default =
     \<lparr>connect_timeout = from_secs 10, cl_read_timeout = from_secs 30, cl_write_timeout = from_secs 10,
      cl_keep_alive = Some (from_secs 60), auto_reconnect = True, max_reconnect_attempts = 3\<rparr>"

definition ClientConfig_new :: ClientConfig where
  "ClientConfig_new = ClientConfig_default"

definition ClientConfig_with_connect_timeout :: "duration \<Rightarrow> ClientConfig \<Rightarrow> ClientConfig" where
  "ClientConfig_with_connect_timeout d c = c\<lparr>connect_timeout := d\<rparr>"

definition ClientConfig_with_read_timeout :: "duration \<Rightarrow> ClientConfig \<Rightarrow> ClientConfig" where
  "ClientConfig_with_read_timeout d c = c\<lparr>cl_read_timeout := d\<rparr>"

definition ClientConfig_with_write_timeout :: "duration \<Rightarrow> ClientConfig \<Rightarrow> ClientConfig" where
  "ClientConfig_with_write_timeout d c = c\<lparr>cl_write_timeout := d\<rparr>"

definition ClientConfig_with_keep_alive :: "duration option \<Rightarrow> ClientConfig \<Rightarrow> ClientConfig" where
  "ClientConfig_with_keep_alive d c = c\<lparr>cl_keep_alive := d\<rparr>"

definition ClientConfig_with_auto_reconnect :: "bool \<Rightarrow> ClientConfig \<Rightarrow> ClientConfig" where
  "ClientConfig_with_auto_reconnect b c = c\<lparr>auto_reconnect := b\<rparr>"

lemmas ClientConfig_defs [config_defs] =
  ClientConfig_default_def ClientConfig_new_def ClientConfig_with_connect_timeout_def
  ClientConfig_with_read_timeout_def ClientConfig_with_write_timeout_def ClientConfig_with_keep_alive_def
  ClientConfig_with_auto_reconnect_def

datatype ClientState = Disconnected | Connecting | Connected | Reconnecting

record 's TcpClient =
  cl_config :: ClientConfig
  cl_address :: string
  cl_state :: ClientState
  cl_stream :: "'s option"
  cl_shutdown_tx :: "unit option"

definition TcpClient_with_config :: "string \<Rightarrow> ClientConfig \<Rightarrow> 's TcpClient" where
  "TcpClient_with_config addr config =
     \<lparr>cl_config = config, cl_address = addr, cl_state = Disconnected, cl_stream = None, cl_shutdown_tx = None\<rparr>"

definition TcpClient_new :: "string \<Rightarrow> 's TcpClient" where
  "TcpClient_new addr = TcpClient_with_config addr ClientConfig_default"

text \<open>The calls on sockets that connecting makes: \<open>'s\<close> a stream of tokio, \<open>'k\<close> a socket2 socket.\<close>

record ('a, 's, 'k) tcp_ops =
  tcp_parse_addr :: "string \<Rightarrow> string + 'a"
  tcp_connect :: "duration \<Rightarrow> 'a \<Rightarrow> (string + 's) timed"
  tcp_into_std :: "'s \<Rightarrow> string + 'k"
  tcp_set_keepalive :: "duration \<Rightarrow> 'k \<Rightarrow> string + 'k"
  tcp_set_nonblocking :: "'k \<Rightarrow> string + 'k"
  tcp_from_std :: "'k \<Rightarrow> string + 's"

definition map_err :: "('e \<Rightarrow> NetworkError) \<Rightarrow> 'e + 'v \<Rightarrow> 'v net_result" where
  "map_err f r = (case r of Inl e \<Rightarrow> Inl (f e) | Inr v \<Rightarrow> Inr v)"

text \<open>The keep-alive branch: convert the stream, set the options, convert it back.\<close>

definition set_keep_alive :: "('a, 's, 'k) tcp_ops \<Rightarrow> duration \<Rightarrow> 's \<Rightarrow> 's net_result" where
  "set_keep_alive T keep_alive stream =
     (case map_err (\<lambda>e. NetworkError_other (''Failed to convert tokio stream to std: '' @ e)) (tcp_into_std T stream) of
        Inl e \<Rightarrow> Inl e
      | Inr socket \<Rightarrow>
     (case map_err (\<lambda>e. NetworkError_other (''Failed to set keep-alive: '' @ e)) (tcp_set_keepalive T keep_alive socket) of
        Inl e \<Rightarrow> Inl e
      | Inr socket \<Rightarrow>
     (case map_err (\<lambda>e. NetworkError_other (''Failed to restore nonblocking mode after keep-alive config: '' @ e))
             (tcp_set_nonblocking T socket) of
        Inl e \<Rightarrow> Inl e
      | Inr socket \<Rightarrow>
          map_err (\<lambda>e. NetworkError_other (''Failed to convert std socket back to tokio: '' @ e))
            (tcp_from_std T socket))))"

text \<open>From the address to a configured stream.\<close>

definition open_stream :: "('a, 's, 'k) tcp_ops \<Rightarrow> ClientConfig \<Rightarrow> string \<Rightarrow> 's net_result" where
  "open_stream T config addr =
     (case map_err (\<lambda>e. NetworkError_invalid_address (''Invalid address: '' @ e)) (tcp_parse_addr T addr) of
        Inl e \<Rightarrow> Inl e
      | Inr addr \<Rightarrow>
     (case await_timed (NetworkError_timeout ''Connection timed out'')
             (\<lambda>e. NetworkError_connection (''Failed to connect: '' @ e)) (tcp_connect T (connect_timeout config) addr) of
        Inl e \<Rightarrow> Inl e
      | Inr stream \<Rightarrow>
          (case cl_keep_alive config of
             Some keep_alive \<Rightarrow> set_keep_alive T keep_alive stream
           | None \<Rightarrow> Inr stream)))"

definition TcpClient_connect_internal ::
  "('a, 's, 'k) tcp_ops \<Rightarrow> bool \<Rightarrow> 's TcpClient \<Rightarrow> unit net_result \<times> 's TcpClient" where
  "TcpClient_connect_internal T is_reconnect c =
     (if \<not> is_reconnect \<and> (cl_state c = Connected \<or> cl_state c = Connecting)
      then (Inl (NetworkError_invalid_state ''Client is already connected or connecting''), c)
      else
        let c = c\<lparr>cl_state := (if is_reconnect then Reconnecting else Connecting)\<rparr> in
        case open_stream T (cl_config c) (cl_address c) of
          Inl e \<Rightarrow> (Inl e, c)
        | Inr stream \<Rightarrow> (Inr (), c\<lparr>cl_stream := Some stream, cl_state := Connected\<rparr>))"

definition TcpClient_connect :: "('a, 's, 'k) tcp_ops \<Rightarrow> 's TcpClient \<Rightarrow> unit net_result \<times> 's TcpClient" where
  "TcpClient_connect T c = TcpClient_connect_internal T False c"

text \<open>The results of the shutdown signal and of \<open>stream.shutdown()\<close> are ignored by the code.\<close>

definition TcpClient_disconnect :: "'s TcpClient \<Rightarrow> unit net_result \<times> 's TcpClient" where
  "TcpClient_disconnect c =
     (let c = c\<lparr>cl_shutdown_tx := None\<rparr>;
          c = c\<lparr>cl_stream := None\<rparr>;
          c = c\<lparr>cl_state := Disconnected\<rparr>
      in (Inr (), c))"

definition TcpClient_send ::
  "'b bytes_mut \<Rightarrow> (duration \<Rightarrow> 's \<Rightarrow> (string + unit) timed) \<Rightarrow> 's writer \<Rightarrow> Message \<Rightarrow> 's TcpClient \<Rightarrow>
     unit net_result \<times> 's TcpClient" where
  "TcpClient_send B writable write_all message c =
     (if cl_state c \<noteq> Connected then (Inl (NetworkError_invalid_state ''Client is not connected''), c)
      else
        case Message_encode B message of
          Inl e \<Rightarrow> (Inl e, c)
        | Inr data \<Rightarrow>
            (case cl_stream c of
               None \<Rightarrow> (Inl (NetworkError_invalid_state ''No active connection''), c)
             | Some stream \<Rightarrow>
                 (case await_timed (NetworkError_timeout ''Socket not ready for writing (backpressure)'')
                         (\<lambda>e. NetworkError_connection (''Failed to check writability: '' @ e))
                         (writable (cl_write_timeout (cl_config c)) stream) of
                    Inl e \<Rightarrow> (Inl e, c)
                  | Inr _ \<Rightarrow>
                      let (outcome, stream) = write_all (cl_write_timeout (cl_config c)) (bm_slice B data) stream in
                      (await_timed (NetworkError_timeout ''Write timed out'')
                         (\<lambda>e. NetworkError_connection (''Failed to write: '' @ e)) outcome,
                       c\<lparr>cl_stream := Some stream\<rparr>))))"

text \<open>\<open>stream.try_write(&data)\<close>: some bytes are written, the socket would block, or it fails.\<close>

datatype try_write = Wrote nat | WouldBlock | WriteFailed string

definition TcpClient_try_send ::
  "'b bytes_mut \<Rightarrow> (u8 list \<Rightarrow> 's \<Rightarrow> try_write \<times> 's) \<Rightarrow> 's writer \<Rightarrow> Message \<Rightarrow> 's TcpClient \<Rightarrow>
     unit net_result \<times> 's TcpClient" where
  "TcpClient_try_send B try_write_op write_all message c =
     (if cl_state c \<noteq> Connected then (Inl (NetworkError_invalid_state ''Client is not connected''), c)
      else
        case Message_encode B message of
          Inl e \<Rightarrow> (Inl e, c)
        | Inr data \<Rightarrow>
            (case cl_stream c of
               None \<Rightarrow> (Inl (NetworkError_invalid_state ''No active connection''), c)
             | Some stream \<Rightarrow>
                 (case try_write_op (bm_slice B data) stream of
                    (Wrote n, stream) \<Rightarrow>
                      if n = length (bm_slice B data) then (Inr (), c\<lparr>cl_stream := Some stream\<rparr>)
                      else
                        let (outcome, stream) =
                              write_all (cl_write_timeout (cl_config c)) (drop n (bm_slice B data)) stream in
                        (await_timed (NetworkError_timeout ''Write timed out after partial write'')
                           (\<lambda>e. NetworkError_connection (''Failed to complete write: '' @ e)) outcome,
                         c\<lparr>cl_stream := Some stream\<rparr>)
                  | (WouldBlock, stream) \<Rightarrow>
                      (Inl (NetworkError_other ''Backpressure: send buffer full, cannot write without blocking''),
                       c\<lparr>cl_stream := Some stream\<rparr>)
                  | (WriteFailed e, stream) \<Rightarrow>
                      (Inl (NetworkError_connection (''Failed to write: '' @ e)), c\<lparr>cl_stream := Some stream\<rparr>))))"

text \<open>
  \<open>receive\<close> runs the loop of the sessions on a buffer of its own, which is dropped when the
  call returns.
\<close>

definition TcpClient_receive ::
  "'b bytes_mut \<Rightarrow> (nat \<Rightarrow> duration) \<Rightarrow> socket_read list \<Rightarrow> 's TcpClient \<Rightarrow>
     (Message net_result option \<times> socket_read list) run" where
  "TcpClient_receive B clock reads c =
     (if cl_state c \<noteq> Connected
      then Returned (Some (Inl (NetworkError_invalid_state ''Client is not connected'')), reads)
      else
        case cl_stream c of
          None \<Rightarrow> Returned (Some (Inl (NetworkError_invalid_state ''No active connection'')), reads)
        | Some _ \<Rightarrow>
            if cl_read_timeout (cl_config c) * 3 > duration_max
            then Panicked ''overflow when multiplying duration by scalar''
            else
              let (result, _, reads) =
                    receive_loop B (cl_read_timeout (cl_config c) * 3) clock 0 reads (bm_with_capacity B 4096)
              in Returned (result, reads))"

definition TcpClient_state :: "'s TcpClient \<Rightarrow> ClientState" where
  "TcpClient_state c = cl_state c"

definition TcpClient_is_connected :: "'s TcpClient \<Rightarrow> bool" where
  "TcpClient_is_connected c \<longleftrightarrow> cl_state c = Connected"

definition MAX_DELAY_MS :: nat where
  "MAX_DELAY_MS = 30000"

text \<open>
  The loop of \<open>reconnect\<close>. \<open>T n\<close> is what the sockets do in attempt number \<open>n\<close>, counted from
  zero, and \<open>jitter n\<close> the random part of the sleep after it. The sleeps are returned.
\<close>

function reconnect_loop ::
  "(nat \<Rightarrow> ('a, 's, 'k) tcp_ops) \<Rightarrow> (nat \<Rightarrow> nat) \<Rightarrow> nat \<Rightarrow> nat \<Rightarrow> nat \<Rightarrow> 's TcpClient \<Rightarrow>
     unit net_result \<times> duration list \<times> 's TcpClient" where
  "reconnect_loop T jitter max_attempts attempt delay_ms c =
     (if attempt < max_attempts then
        (case TcpClient_connect_internal (T attempt) True c of
           (Inr _, c) \<Rightarrow> (Inr (), [], c)
         | (Inl e, c) \<Rightarrow>
             if Suc attempt \<ge> max_attempts
             then (Inl (NetworkError_connection
                     (''Failed to reconnect after '' @ show_nat max_attempts @ '' attempts'')),
                   [], c\<lparr>cl_state := Disconnected\<rparr>)
             else
               let sleep_duration = from_millis (delay_ms + jitter attempt);
                   (r, sleeps, c) =
                     reconnect_loop T jitter max_attempts (Suc attempt) (min (delay_ms * 2) MAX_DELAY_MS) c
               in (r, sleep_duration # sleeps, c))
      else
        (Inl (NetworkError_connection ''Max reconnection attempts reached''), [], c\<lparr>cl_state := Disconnected\<rparr>))"
  by auto

termination
  by (relation "measure (\<lambda>(T, jitter, max_attempts, attempt, delay_ms, c). max_attempts - attempt)") auto

declare reconnect_loop.simps [simp del]

definition TcpClient_reconnect ::
  "(nat \<Rightarrow> ('a, 's, 'k) tcp_ops) \<Rightarrow> (nat \<Rightarrow> nat) \<Rightarrow> 's TcpClient \<Rightarrow>
     unit net_result \<times> duration list \<times> 's TcpClient" where
  "TcpClient_reconnect T jitter c =
     reconnect_loop T jitter (max_reconnect_attempts (cl_config c)) 0 100 c"

definition TcpClient_is_connection_error :: "NetworkError \<Rightarrow> bool" where
  "TcpClient_is_connection_error e =
     (case e of Connection _ \<Rightarrow> True | InvalidState _ \<Rightarrow> True | _ \<Rightarrow> False)"

definition TcpClient_send_with_reconnect ::
  "'b bytes_mut \<Rightarrow> (duration \<Rightarrow> 's \<Rightarrow> (string + unit) timed) \<Rightarrow> 's writer \<Rightarrow>
     (nat \<Rightarrow> ('a, 's, 'k) tcp_ops) \<Rightarrow> (nat \<Rightarrow> nat) \<Rightarrow> Message \<Rightarrow> 's TcpClient \<Rightarrow> unit net_result \<times> 's TcpClient" where
  "TcpClient_send_with_reconnect B writable write_all T jitter message c =
     (case TcpClient_send B writable write_all message c of
        (Inr _, c) \<Rightarrow> (Inr (), c)
      | (Inl e, c) \<Rightarrow>
          if auto_reconnect (cl_config c) \<and> TcpClient_is_connection_error e
          then
            (case TcpClient_reconnect T jitter c of
               (Inl e, _, c) \<Rightarrow> (Inl e, c)
             | (Inr _, _, c) \<Rightarrow> TcpClient_send B writable write_all message c)
          else (Inl e, c))"

text \<open>\<open>reads'\<close> is what reading the new stream gives.\<close>

definition TcpClient_receive_with_reconnect ::
  "'b bytes_mut \<Rightarrow> (nat \<Rightarrow> duration) \<Rightarrow> socket_read list \<Rightarrow> (nat \<Rightarrow> duration) \<Rightarrow> socket_read list \<Rightarrow>
     (nat \<Rightarrow> ('a, 's, 'k) tcp_ops) \<Rightarrow> (nat \<Rightarrow> nat) \<Rightarrow> 's TcpClient \<Rightarrow>
     (Message net_result option \<times> socket_read list) run \<times> 's TcpClient" where
  "TcpClient_receive_with_reconnect B clock reads clock' reads' T jitter c =
     (case TcpClient_receive B clock reads c of
        Returned (Some (Inl e), rest) \<Rightarrow>
          if auto_reconnect (cl_config c) \<and> TcpClient_is_connection_error e
          then
            (case TcpClient_reconnect T jitter c of
               (Inl e, _, c) \<Rightarrow> (Returned (Some (Inl e), rest), c)
             | (Inr _, _, c) \<Rightarrow> (TcpClient_receive B clock' reads' c, c))
          else (Returned (Some (Inl e), rest), c)
      | r \<Rightarrow> (r, c))"

section \<open>The states of a client\<close>

datatype ('a, 's, 'k) client_event =
    Connect "('a, 's, 'k) tcp_ops"
  | Disconnect
  | SendMessage "duration \<Rightarrow> 's \<Rightarrow> (string + unit) timed" "'s writer" Message
  | TrySend "u8 list \<Rightarrow> 's \<Rightarrow> try_write \<times> 's" "'s writer" Message
  | Reconnect "nat \<Rightarrow> ('a, 's, 'k) tcp_ops" "nat \<Rightarrow> nat"
  | SendReconnect "duration \<Rightarrow> 's \<Rightarrow> (string + unit) timed" "'s writer" "nat \<Rightarrow> ('a, 's, 'k) tcp_ops" "nat \<Rightarrow> nat" Message
  | ReceiveReconnect "nat \<Rightarrow> duration" "socket_read list" "nat \<Rightarrow> duration" "socket_read list"
      "nat \<Rightarrow> ('a, 's, 'k) tcp_ops" "nat \<Rightarrow> nat"

fun client_apply :: "'b bytes_mut \<Rightarrow> ('a, 's, 'k) client_event \<Rightarrow> 's TcpClient \<Rightarrow> 's TcpClient" where
  "client_apply B (Connect T) c = snd (TcpClient_connect T c)"
| "client_apply B Disconnect c = snd (TcpClient_disconnect c)"
| "client_apply B (SendMessage writable write_all m) c = snd (TcpClient_send B writable write_all m c)"
| "client_apply B (TrySend try_write_op write_all m) c = snd (TcpClient_try_send B try_write_op write_all m c)"
| "client_apply B (Reconnect T jitter) c = snd (snd (TcpClient_reconnect T jitter c))"
| "client_apply B (SendReconnect writable write_all T jitter m) c =
     snd (TcpClient_send_with_reconnect B writable write_all T jitter m c)"
| "client_apply B (ReceiveReconnect clock reads clock' reads' T jitter) c =
     snd (TcpClient_receive_with_reconnect B clock reads clock' reads' T jitter c)"

text \<open>A connected client has a stream.\<close>

definition client_inv :: "'s TcpClient \<Rightarrow> bool" where
  "client_inv c \<longleftrightarrow> (cl_state c = Connected \<longrightarrow> cl_stream c \<noteq> None)"

lemma connect_internal_inv: "client_inv c \<Longrightarrow> client_inv (snd (TcpClient_connect_internal T b c))"
  by (auto simp: client_inv_def TcpClient_connect_internal_def Let_def split: sum.splits)

lemma send_inv: "client_inv c \<Longrightarrow> client_inv (snd (TcpClient_send B writable write_all m c))"
  by (auto simp: client_inv_def TcpClient_send_def Let_def split: sum.splits option.splits prod.splits)


lemma reconnect_loop_inv:
  "client_inv c \<Longrightarrow> client_inv (snd (snd (reconnect_loop T jitter max_attempts attempt delay_ms c)))"
proof (induction T jitter max_attempts attempt delay_ms c rule: reconnect_loop.induct)
  case (1 T jitter max_attempts attempt delay_ms c)
  obtain r c' where conn: "TcpClient_connect_internal (T attempt) True c = (r, c')" by fastforce
  with connect_internal_inv [OF "1.prems", of "T attempt" True] have c': "client_inv c'" by simp
  show ?case
    using "1.IH" [OF _ conn [symmetric]] conn c'
    by (subst reconnect_loop.simps) (auto simp: client_inv_def Let_def split: sum.splits prod.splits)
qed

lemma client_apply_inv:
  assumes "client_inv c"
  shows "client_inv (client_apply B e c)"
proof (cases e)
  case (TrySend try_write_op write_all m)
  then show ?thesis
    using assms
    by (auto simp: client_inv_def TcpClient_try_send_def Let_def split: sum.splits option.splits prod.splits try_write.splits)
next
  case (SendReconnect writable write_all T jitter m)
  obtain r c' where send: "TcpClient_send B writable write_all m c = (r, c')" by fastforce
  obtain r2 sl c2 where rec: "TcpClient_reconnect T jitter c' = (r2, sl, c2)" using prod_cases3 by blast
  have c': "client_inv c'" using send_inv [OF assms, of B writable write_all m] send by simp
  then have "client_inv c2" using reconnect_loop_inv [OF c', of T jitter] rec by (metis TcpClient_reconnect_def snd_conv)
  then have "client_inv (snd (TcpClient_send B writable write_all m c2))" by (rule send_inv)
  with SendReconnect send rec c' \<open>client_inv c2\<close> show ?thesis
    by (auto simp: TcpClient_send_with_reconnect_def split: sum.splits)
next
  case (ReceiveReconnect clock reads clock' reads' T jitter)
  obtain r2 sl c2 where rec: "TcpClient_reconnect T jitter c = (r2, sl, c2)" using prod_cases3 by blast
  have "client_inv c2" using reconnect_loop_inv [OF assms, of T jitter] rec by (metis TcpClient_reconnect_def snd_conv)
  with ReceiveReconnect rec assms show ?thesis
    by (auto simp: TcpClient_receive_with_reconnect_def split: run.splits sum.splits option.splits)
qed (use assms in \<open>auto simp: TcpClient_connect_def TcpClient_disconnect_def TcpClient_reconnect_def
      client_inv_def [of "c\<lparr>cl_shutdown_tx := None, cl_stream := None, cl_state := Disconnected\<rparr>"]
      intro: connect_internal_inv send_inv reconnect_loop_inv\<close>)

interpretation client: event_system "client_apply B" client_inv
  by unfold_locales (rule client_apply_inv)

section \<open>Reconnecting\<close>

text \<open>The delay before the jitter, after \<open>i\<close> failed attempts have doubled it.\<close>

definition backoff_ms :: "nat \<Rightarrow> nat \<Rightarrow> nat" where
  "backoff_ms d i = min (d * 2 ^ i) MAX_DELAY_MS"

lemma backoff_step: "d \<le> MAX_DELAY_MS \<Longrightarrow> backoff_ms (min (d * 2) MAX_DELAY_MS) i = backoff_ms d (Suc i)"
proof (cases "d * 2 \<le> MAX_DELAY_MS")
  case False
  have "d * 2 \<le> d * 2 ^ Suc i" "MAX_DELAY_MS \<le> MAX_DELAY_MS * 2 ^ i" by simp_all
  with False show ?thesis unfolding backoff_ms_def by linarith
qed (simp add: backoff_ms_def mult.assoc)

lemma backoff_0: "d \<le> MAX_DELAY_MS \<Longrightarrow> backoff_ms d 0 = d"
  by (simp add: backoff_ms_def)

lemma connect_internal_reconnect:
  "TcpClient_connect_internal T True c =
     (case open_stream T (cl_config c) (cl_address c) of
        Inl e \<Rightarrow> (Inl e, c\<lparr>cl_state := Reconnecting\<rparr>)
      | Inr stream \<Rightarrow> (Inr (), c\<lparr>cl_stream := Some stream, cl_state := Connected\<rparr>))"
  by (simp add: TcpClient_connect_internal_def Let_def split: sum.splits)

lemma reconnect_loop_success:
  assumes "open_stream (T (attempt + k)) (cl_config c) (cl_address c) = Inr stream"
    and "\<And>n. n < k \<Longrightarrow> isl (open_stream (T (attempt + n)) (cl_config c) (cl_address c))"
    and "attempt + k < max_attempts" "d \<le> MAX_DELAY_MS"
  shows "reconnect_loop T jitter max_attempts attempt d c =
    (Inr (), map (\<lambda>i. from_millis (backoff_ms d i + jitter (attempt + i))) [0..<k],
     c\<lparr>cl_stream := Some stream, cl_state := Connected\<rparr>)"
  using assms
proof (induction k arbitrary: attempt d c)
  case 0
  then show ?case by (subst reconnect_loop.simps) (simp add: connect_internal_reconnect)
next
  case (Suc k)
  obtain e where e: "open_stream (T attempt) (cl_config c) (cl_address c) = Inl e"
    using Suc.prems(2) [of 0] by (auto simp: isl_def)
  have "isl (open_stream (T (Suc attempt + n)) (cl_config c) (cl_address c))" if "n < k" for n
    using Suc.prems(2) [of "Suc n"] that by simp
  with Suc.IH [of "Suc attempt" "c\<lparr>cl_state := Reconnecting\<rparr>" "min (d * 2) MAX_DELAY_MS"] Suc.prems(1,3,4)
  have "reconnect_loop T jitter max_attempts (Suc attempt) (min (d * 2) MAX_DELAY_MS) (c\<lparr>cl_state := Reconnecting\<rparr>) =
      (Inr (), map (\<lambda>i. from_millis (backoff_ms d (Suc i) + jitter (attempt + Suc i))) [0..<k],
       c\<lparr>cl_stream := Some stream, cl_state := Connected\<rparr>)"
    by (simp add: backoff_step)
  with e Suc.prems(3,4) show ?case
    by (subst reconnect_loop.simps)
       (simp add: connect_internal_reconnect Let_def backoff_0 upt_conv_Cons map_Suc_upt [symmetric] comp_def
          del: upt_Suc map_Suc_upt)
qed

lemma reconnect_loop_failure:
  assumes "\<And>n. attempt \<le> n \<Longrightarrow> n \<le> attempt + k \<Longrightarrow> isl (open_stream (T n) (cl_config c) (cl_address c))"
    and "max_attempts = Suc (attempt + k)" "d \<le> MAX_DELAY_MS"
  shows "reconnect_loop T jitter max_attempts attempt d c =
    (Inl (NetworkError_connection (''Failed to reconnect after '' @ show_nat max_attempts @ '' attempts'')),
     map (\<lambda>i. from_millis (backoff_ms d i + jitter (attempt + i))) [0..<k], c\<lparr>cl_state := Disconnected\<rparr>)"
  using assms
proof (induction k arbitrary: attempt d c)
  case 0
  then obtain e where "open_stream (T attempt) (cl_config c) (cl_address c) = Inl e"
    by (metis isl_def le_refl add_0_right)
  with 0 show ?case by (subst reconnect_loop.simps) (simp add: connect_internal_reconnect)
next
  case (Suc k)
  obtain e where e: "open_stream (T attempt) (cl_config c) (cl_address c) = Inl e"
    using Suc.prems(1) [of attempt] by (auto simp: isl_def)
  have "reconnect_loop T jitter max_attempts (Suc attempt) (min (d * 2) MAX_DELAY_MS) (c\<lparr>cl_state := Reconnecting\<rparr>) =
      (Inl (NetworkError_connection (''Failed to reconnect after '' @ show_nat max_attempts @ '' attempts'')),
       map (\<lambda>i. from_millis (backoff_ms d (Suc i) + jitter (attempt + Suc i))) [0..<k],
       c\<lparr>cl_state := Disconnected\<rparr>)"
    using Suc.IH [of "Suc attempt" "c\<lparr>cl_state := Reconnecting\<rparr>" "min (d * 2) MAX_DELAY_MS"] Suc.prems
    by (simp add: backoff_step)
  with e Suc.prems(2,3) show ?case
    by (subst reconnect_loop.simps)
       (simp add: connect_internal_reconnect Let_def backoff_0 upt_conv_Cons map_Suc_upt [symmetric] comp_def
          del: upt_Suc map_Suc_upt)
qed

section \<open>Receiving on a fresh buffer\<close>

context bytes_buffer
begin

lemma decode_fresh: "Message_decode B (bm_with_capacity B n) = (Inr None, bm_with_capacity B n)"
proof -
  have "fst (Message_decode B (bm_with_capacity B n)) = Inr None"
    by (simp add: fst_decode slice_with_capacity frame_decode_def HEADER_SIZE_def)
  with Message_decode_None [OF this] show ?thesis by (metis prod.collapse)
qed

lemma receive_fresh_none:
  assumes "\<And>j. clock j < assembly_timeout"
  shows "\<exists>buf. receive_loop B assembly_timeout clock 0 [] (bm_with_capacity B n) = (None, buf, [])"
  using assms [of 0]
  by (subst receive_loop.simps) (simp add: decode_fresh slice_with_capacity MAX_BUFFER_SIZE_def)

lemma receive_fresh_frame:
  assumes "Message_fits m" "\<And>j. clock j < assembly_timeout" "chunk_reads reads"
    and "read_bytes reads = Message_frame m @ rest"
  shows "\<exists>buf reads'. receive_loop B assembly_timeout clock 0 reads (bm_with_capacity B n) = (Some (Inr m), buf, reads')"
  using receive_loop_frame [where clock = clock and i = 0 and reads = reads and tail = "[]"
      and buf = "bm_with_capacity B n" and rest = rest, OF assms(1,2)] assms(3,4)
  by (auto simp: slice_with_capacity)

lemma receive_fresh_single:
  assumes "Message_fits m" "\<And>j. clock j < assembly_timeout"
  shows "\<exists>buf. receive_loop B assembly_timeout clock 0 [Completed (Inr (Message_frame m @ rest))]
    (bm_with_capacity B n) = (Some (Inr m), buf, [])"
proof -
  let ?buf = "bm_put_slice B (Message_frame m @ rest) (bm_with_capacity B n)"
  have "fst (Message_decode B ?buf) = Inr (Some m)"
    using codec.decode_frame [OF assms(1), of ?buf rest] by (simp add: slice_put_slice slice_with_capacity)
  then show ?thesis
    using assms(2) [of 0] assms(2) [of 1]
    by (subst receive_loop.simps, simp add: decode_fresh slice_with_capacity MAX_BUFFER_SIZE_def HEADER_SIZE_def Let_def)
       (subst receive_loop.simps, auto split: prod.splits)
qed

end

section \<open>Sending on a stream that accepts everything\<close>

text \<open>
  A stream that accepts everything: \<open>written\<close> gives the bytes a stream has taken so far.
\<close>

definition accepting_stream ::
  "('s \<Rightarrow> u8 list) \<Rightarrow> (duration \<Rightarrow> 's \<Rightarrow> (string + unit) timed) \<Rightarrow> 's writer \<Rightarrow> bool" where
  "accepting_stream written writable write_all \<longleftrightarrow>
     (\<forall>d st. writable d st = Completed (Inr ())) \<and> accepting_writer written write_all"

context bytes_buffer
begin

lemma client_send_frame:
  assumes "accepting_stream written writable write_all" "Message_fits m" "cl_state c = Connected" "cl_stream c = Some st"
  shows "\<exists>st'. TcpClient_send B writable write_all m c = (Inr (), c\<lparr>cl_stream := Some st'\<rparr>) \<and>
    written st' = written st @ Message_frame m"
proof -
  obtain data where data: "Message_encode B m = Inr data" "bm_slice B data = Message_frame m"
    using encode_fits [OF assms(2)] by blast
  let ?d = "cl_write_timeout (cl_config c)"
  obtain r st' where wr: "write_all ?d (Message_frame m) st = (r, st')" by fastforce
  have ready: "writable ?d st = Completed (Inr ())" using assms(1) by (simp add: accepting_stream_def)
  have "fst (write_all ?d (Message_frame m) st) = Completed (Inr ()) \<and>
      written (snd (write_all ?d (Message_frame m) st)) = written st @ Message_frame m"
    using assms(1) unfolding accepting_stream_def accepting_writer_def by blast
  with wr have "r = Completed (Inr ())" "written st' = written st @ Message_frame m" by simp_all
  with assms(3,4) data wr ready show ?thesis by (intro exI [of _ st']) (simp add: TcpClient_send_def)
qed

lemma client_sends_frames:
  assumes "accepting_stream written writable write_all" "\<forall>m \<in> set ms. Message_fits m"
    and "cl_state c = Connected" "cl_stream c = Some st"
  shows "\<exists>st'. fold (\<lambda>m c. snd (TcpClient_send B writable write_all m c)) ms c = c\<lparr>cl_stream := Some st'\<rparr> \<and>
    written st' = written st @ concat (map Message_frame ms)"
  using assms(2-4)
proof (induction ms arbitrary: c st)
  case Nil
  then show ?case by (intro exI [of _ st]) simp
next
  case (Cons m ms)
  obtain st' where "TcpClient_send B writable write_all m c = (Inr (), c\<lparr>cl_stream := Some st'\<rparr>)"
    "written st' = written st @ Message_frame m"
    using client_send_frame [OF assms(1), of m c st] Cons.prems by auto
  with Cons.IH [of "c\<lparr>cl_stream := Some st'\<rparr>" st'] Cons.prems show ?case by auto
qed

end

text \<open>A stream that keeps what is written.\<close>

definition keep_written :: "u8 list writer" where
  "keep_written d data st = (Completed (Inr ()), st @ data)"

definition always_writable :: "duration \<Rightarrow> u8 list \<Rightarrow> (string + unit) timed" where
  "always_writable d st = Completed (Inr ())"

lemma keep_written_accepts: "accepting_stream (\<lambda>st. st) always_writable keep_written"
  by (simp add: accepting_stream_def accepting_writer_def keep_written_def always_writable_def)

section \<open>Properties\<close>

text \<open>
  A connected client has a stream. Whatever sequence of calls a client sees and however
  the sockets behave, when it reports to be connected it holds a stream, so \<open>send\<close>,
  \<open>try_send\<close> and \<open>receive\<close> never fail with \<open>No active connection\<close>; after \<open>disconnect\<close> it is
  not connected and every send and receive is refused.
\<close>

theorem client_connected_has_stream:
  "let c = fold (client_apply B) es (TcpClient_with_config addr config) in
   (TcpClient_is_connected c \<longrightarrow> cl_stream c \<noteq> None) \<and>
   fst (TcpClient_send B writable write_all m c) \<noteq> Inl (InvalidState ''No active connection'') \<and>
   \<not> TcpClient_is_connected (snd (TcpClient_disconnect c)) \<and>
   fst (TcpClient_send B writable write_all m (snd (TcpClient_disconnect c))) =
     Inl (InvalidState ''Client is not connected'') \<and>
   TcpClient_receive B clock reads (snd (TcpClient_disconnect c)) =
     Returned (Some (Inl (InvalidState ''Client is not connected'')), reads)"
proof -
  have "client_inv (TcpClient_with_config addr config)"
    by (simp add: client_inv_def TcpClient_with_config_def)
  then have "client_inv (fold (client_apply B) es (TcpClient_with_config addr config))"
    by (rule client.run_inv)
  then show ?thesis
    unfolding Let_def
    by (auto simp: client_inv_def TcpClient_is_connected_def TcpClient_disconnect_def TcpClient_receive_def
          TcpClient_send_def Message_encode_def Let_def split: sum.splits option.splits prod.splits
          dest: sym elim!: await_timed.elims)
qed

theorem client_connected_has_stream_witness:
  "(let c = fold (client_apply vec_bytes) [Disconnect] (TcpClient_with_config ''x'' ClientConfig_default :: unit TcpClient) in
    \<not> TcpClient_is_connected (snd (TcpClient_disconnect c)))"
  using client_connected_has_stream [of vec_bytes "[Disconnect]" "''x''" ClientConfig_default] unfolding Let_def by blast

text \<open>
  C18. Reconnecting ends and backs off. If attempt number \<open>k\<close> (from zero) is the first in which
  a stream can be opened and it is within the allowed attempts, \<open>reconnect\<close> returns success,
  connected with that stream, after exactly \<open>k\<close> sleeps; sleep number \<open>i\<close> lasts
  100 * 2^i milliseconds, at most 30 seconds, plus the jitter. If all allowed attempts fail,
  it returns an error, disconnected, having slept between the attempts only.
\<close>

theorem client_reconnect_backoff:
  assumes "n = max_reconnect_attempts (cl_config c)"
    and "\<And>j. j < k \<Longrightarrow> isl (open_stream (T j) (cl_config c) (cl_address c))"
    and "sleep = (\<lambda>i. from_millis (min (100 * 2 ^ i) 30000 + jitter i))"
  shows "(k < n \<and> open_stream (T k) (cl_config c) (cl_address c) = Inr stream \<longrightarrow>
      TcpClient_reconnect T jitter c =
        (Inr (), map sleep [0..<k], c\<lparr>cl_stream := Some stream, cl_state := Connected\<rparr>)) \<and>
    (n = k \<longrightarrow> isl (fst (TcpClient_reconnect T jitter c)) \<and>
      fst (snd (TcpClient_reconnect T jitter c)) = map sleep [0..<k - 1] \<and>
      snd (snd (TcpClient_reconnect T jitter c)) = c\<lparr>cl_state := Disconnected\<rparr>)"
proof (intro conjI impI; (elim conjE)?)
  have sleep: "sleep = (\<lambda>i. from_millis (backoff_ms 100 i + jitter i))"
    by (simp add: assms(3) backoff_ms_def MAX_DELAY_MS_def)
  {
    assume "k < n" "open_stream (T k) (cl_config c) (cl_address c) = Inr stream"
    with reconnect_loop_success [of T 0 k c stream n 100 jitter] assms(1,2)
    show "TcpClient_reconnect T jitter c =
        (Inr (), map sleep [0..<k], c\<lparr>cl_stream := Some stream, cl_state := Connected\<rparr>)"
      by (simp add: TcpClient_reconnect_def sleep MAX_DELAY_MS_def)
  next
    assume "n = k"
    then show "isl (fst (TcpClient_reconnect T jitter c))"
      and "fst (snd (TcpClient_reconnect T jitter c)) = map sleep [0..<k - 1]"
      and "snd (snd (TcpClient_reconnect T jitter c)) = c\<lparr>cl_state := Disconnected\<rparr>"
      using reconnect_loop_failure [of 0 "k - 1" T c n 100 jitter] assms(1,2)
      by (cases k; simp add: TcpClient_reconnect_def sleep MAX_DELAY_MS_def reconnect_loop.simps [of _ _ 0])+
  }
qed

text \<open>Sockets that refuse the connection, and sockets that accept it.\<close>

definition refusing_ops :: "(unit, 's, 's) tcp_ops" where
  "refusing_ops =
     \<lparr>tcp_parse_addr = (\<lambda>_. Inr ()), tcp_connect = (\<lambda>_ _. Completed (Inl ''refused'')), tcp_into_std = Inr,
      tcp_set_keepalive = (\<lambda>_. Inr), tcp_set_nonblocking = Inr, tcp_from_std = Inr\<rparr>"

definition accepting_ops :: "'s \<Rightarrow> (unit, 's, 's) tcp_ops" where
  "accepting_ops stream = refusing_ops\<lparr>tcp_connect := (\<lambda>_ _. Completed (Inr stream))\<rparr>"

lemma open_example [simp]:
  "open_stream refusing_ops config addr = Inl (Connection ''Failed to connect: refused'')"
  "open_stream (accepting_ops s) config addr = Inr s"
  by (simp_all add: open_stream_def set_keep_alive_def map_err_def refusing_ops_def accepting_ops_def
        split: option.splits)

definition example_client :: "nat TcpClient" where
  "example_client = TcpClient_new ''127.0.0.1:8080''"

theorem client_reconnect_backoff_witness:
  "TcpClient_reconnect (\<lambda>n. if n < 2 then refusing_ops else accepting_ops 9) (\<lambda>_. 7) example_client =
     (Inr (), [from_millis 107, from_millis 207], example_client\<lparr>cl_stream := Some 9, cl_state := Connected\<rparr>)"
proof -
  have n: "3 = max_reconnect_attempts (cl_config example_client)"
    by (simp add: example_client_def TcpClient_new_def TcpClient_with_config_def config_defs)
  define T where "T = (\<lambda>n :: nat. if n < 2 then refusing_ops else accepting_ops (9::nat))"
  have "\<And>j. j < 2 \<Longrightarrow> isl (open_stream (T j) (cl_config example_client) (cl_address example_client))"
    by (simp add: T_def)
  moreover have "open_stream (T 2) (cl_config example_client) (cl_address example_client) = Inr 9"
    by (simp add: T_def)
  ultimately have "TcpClient_reconnect T (\<lambda>_. 7) example_client =
     (Inr (), [from_millis 107, from_millis 207], example_client\<lparr>cl_stream := Some 9, cl_state := Connected\<rparr>)"
    using client_reconnect_backoff [where jitter = "\<lambda>_. 7" and stream = 9 and k = 2 and T = T, OF n _ refl]
    by (simp add: upt_rec)
  then show ?thesis by (simp add: T_def)
qed



text \<open>
  C40. Receiving assembles one message, and drops what follows it. When the reads bring the
  frame of a message and then any bytes, \<open>receive\<close> returns the message however the bytes
  are cut into reads; but the buffer is dropped with the call, so if one read brings two
  frames, the second message is never delivered: the next \<open>receive\<close> waits for further
  bytes.
\<close>

theorem client_receive_drops_rest:
  assumes "bytes_buffer B" "cl_state c = Connected" "cl_stream c = Some stream"
    and "cl_read_timeout (cl_config c) * 3 \<le> duration_max" "\<And>j. clock j < cl_read_timeout (cl_config c) * 3"
    and "Message_fits m" "chunk_reads reads" "read_bytes reads = Message_frame m @ rest"
  shows "(\<exists>reads'. TcpClient_receive B clock reads c = Returned (Some (Inr m), reads')) \<and>
    TcpClient_receive B clock [Completed (Inr (Message_frame m @ Message_frame m2))] c = Returned (Some (Inr m), []) \<and>
    TcpClient_receive B clock [] c = Returned (None, [])"
proof -
  let ?t = "cl_read_timeout (cl_config c) * 3"
  obtain buf reads' where "receive_loop B ?t clock 0 reads (bm_with_capacity B 4096) = (Some (Inr m), buf, reads')"
    using bytes_buffer.receive_fresh_frame [where clock = clock, OF assms(1,6,5,7,8)] by blast
  moreover obtain buf where "receive_loop B ?t clock 0
      [Completed (Inr (Message_frame m @ Message_frame m2))] (bm_with_capacity B 4096) = (Some (Inr m), buf, [])"
    using bytes_buffer.receive_fresh_single [where clock = clock, OF assms(1,6,5)] by blast
  moreover obtain buf where "receive_loop B ?t clock 0 [] (bm_with_capacity B 4096) = (None, buf, [])"
    using bytes_buffer.receive_fresh_none [where clock = clock, OF assms(1,5)] by blast
  ultimately show ?thesis using assms(2-4) by (simp add: TcpClient_receive_def)
qed

theorem client_receive_drops_rest_witness:
  "TcpClient_receive vec_bytes (\<lambda>_. 0)
     [Completed (Inr (Message_frame (Message_from_str ''a'') @ Message_frame (Message_from_str ''b'')))]
     (example_client\<lparr>cl_stream := Some 1, cl_state := Connected\<rparr>) = Returned (Some (Inr (Message_from_str ''a'')), [])"
proof -
  let ?c = "example_client\<lparr>cl_stream := Some 1, cl_state := Connected\<rparr>"
  let ?m = "Message_from_str ''a''"
  have "Message_fits ?m" by (simp add: Message_fits_def Message_from_str_def Message_new_def MAX_MESSAGE_SIZE_def)
  from client_receive_drops_rest [OF vec.bytes_buffer_axioms, where c = ?c and stream = 1 and clock = "\<lambda>_. 0"
      and m = ?m and reads = "[Completed (Inr (Message_frame ?m))]" and rest = "[]", OF _ _ _ _ this]
  show ?thesis
    by (simp add: example_client_def TcpClient_new_def TcpClient_with_config_def config_defs from_secs_def duration_max_def)
qed

text \<open>
  A failed \<open>connect\<close> leaves the client in state \<open>Connecting\<close>, so every further \<open>connect\<close> is
  refused until the client is disconnected or reconnects.
\<close>

lemma client_failed_connect_blocks:
  assumes "cl_state c = Disconnected" "open_stream T (cl_config c) (cl_address c) = Inl e"
  shows "TcpClient_connect T c = (Inl e, c\<lparr>cl_state := Connecting\<rparr>) \<and>
    TcpClient_connect T' (c\<lparr>cl_state := Connecting\<rparr>) =
      (Inl (InvalidState ''Client is already connected or connecting''), c\<lparr>cl_state := Connecting\<rparr>)"
  using assms by (simp add: TcpClient_connect_def TcpClient_connect_internal_def)

end
