(* ===== verification/Session_Calls.thy ===== *)
theory Session_Calls
  imports Session
begin

text \<open>
  A session that several tasks use at the same time (\<open>src/session/mod.rs\<close>). The theory
  \<open>Session\<close> has the calls \<open>send\<close>, \<open>receive\<close> and \<open>close\<close> as functions, which is what they are
  when one runs after the other. Here they are cut where another task can come in between:
  at every wait for one of the three locks (the write half, the read half, the read buffer),
  and between two accesses to shared cells. The session is then its record together with the
  list of the calls made on it so far, each at its stage; a lock is free when no call is at a
  stage that holds it. What a call does while it holds a lock touches only what the lock
  protects, and the activity time at its end, so it is one step.
\<close>

section \<open>The parts of the calls\<close>

text \<open>
  The checks before the first wait. A call reads whether the session is active, then whether
  it is idle.
\<close>

definition Session_check_active :: "('r, 'w, 'b) Session \<Rightarrow> unit net_result" where
  "Session_check_active s =
     (if \<not> Session_is_active s then Inl (NetworkError_invalid_state ''Session is not active'') else Inr ())"

definition Session_check_idle :: "instant \<Rightarrow> ('r, 'w, 'b) Session \<Rightarrow> unit net_result" where
  "Session_check_idle now s =
     (if Session_is_idle now s then Inl (NetworkError_timeout ''Session idle timeout exceeded'') else Inr ())"

text \<open>\<open>send\<close> with the write half locked, and \<open>receive\<close> with the read buffer and the read half locked.\<close>

definition Session_send_locked ::
  "'w writer \<Rightarrow> instant \<Rightarrow> u8 list \<Rightarrow> ('r, 'w, 'b) Session \<Rightarrow> unit net_result \<times> ('r, 'w, 'b) Session" where
  "Session_send_locked write_all now' data s =
     (case write_half s of
        None \<Rightarrow> (Inl (NetworkError_invalid_state ''Session write half is closed''), s)
      | Some w \<Rightarrow>
          let (outcome, w') = write_all (sess_write_timeout s) data w;
              s = s\<lparr>write_half := Some w'\<rparr>
          in
            case await_timed (NetworkError_timeout ''Write timed out'')
                   (\<lambda>e. NetworkError_connection (''Failed to write: '' @ e)) outcome of
              Inl e \<Rightarrow> (Inl e, s)
            | Inr _ \<Rightarrow> (Inr (), Session_update_activity now' s))"

definition Session_receive_locked ::
  "'b bytes_mut \<Rightarrow> (nat \<Rightarrow> duration) \<Rightarrow> instant \<Rightarrow> socket_read list \<Rightarrow> ('r, 'w, 'b) Session \<Rightarrow>
     (Message net_result option \<times> ('r, 'w, 'b) Session \<times> socket_read list) run" where
  "Session_receive_locked B clock now' reads s =
     (case read_half s of
        None \<Rightarrow> Returned (Some (Inl (NetworkError_invalid_state ''Session read half is closed'')), s, reads)
      | Some _ \<Rightarrow>
          if sess_read_timeout s * 3 > duration_max
          then Panicked ''overflow when multiplying duration by scalar''
          else
            let (result, buf, reads') = receive_loop B (sess_read_timeout s * 3) clock 0 reads (read_buffer s);
                s = s\<lparr>read_buffer := buf\<rparr>
            in Returned (result, (case result of Some (Inr _) \<Rightarrow> Session_update_activity now' s | _ \<Rightarrow> s), reads'))"

text \<open>The writes of \<open>close\<close>, in their order.\<close>

definition Session_mark_closing :: "('r, 'w, 'b) Session \<Rightarrow> ('r, 'w, 'b) Session" where
  "Session_mark_closing s = s\<lparr>sess_state := Closing\<rparr>"

definition Session_take_write_half :: "('r, 'w, 'b) Session \<Rightarrow> ('r, 'w, 'b) Session" where
  "Session_take_write_half s = s\<lparr>write_half := None\<rparr>"

definition Session_take_read_half :: "('r, 'w, 'b) Session \<Rightarrow> ('r, 'w, 'b) Session" where
  "Session_take_read_half s = s\<lparr>read_half := None\<rparr>"

definition Session_mark_closed :: "('r, 'w, 'b) Session \<Rightarrow> ('r, 'w, 'b) Session" where
  "Session_mark_closed s = s\<lparr>sess_state := Closed\<rparr>"

text \<open>With nothing in between, the parts make up the calls.\<close>

lemma Session_send_parts:
  "Session_send B write_all now now' m s =
     (case Session_check_active s of Inl e \<Rightarrow> (Inl e, s)
      | Inr _ \<Rightarrow>
          (case Session_check_idle now s of Inl e \<Rightarrow> (Inl e, s)
           | Inr _ \<Rightarrow>
               (case Message_encode B m of Inl e \<Rightarrow> (Inl e, s)
                | Inr data \<Rightarrow> Session_send_locked write_all now' (bm_slice B data) s)))"
  by (simp add: Session_send_def Session_check_active_def Session_check_idle_def Session_send_locked_def split: sum.split)

lemma Session_receive_parts:
  "Session_receive B clock now now' reads s =
     (case Session_check_active s of Inl e \<Rightarrow> Returned (Some (Inl e), s, reads)
      | Inr _ \<Rightarrow>
          (case Session_check_idle now s of Inl e \<Rightarrow> Returned (Some (Inl e), s, reads)
           | Inr _ \<Rightarrow> Session_receive_locked B clock now' reads s))"
  by (simp add: Session_receive_def Session_check_active_def Session_check_idle_def Session_receive_locked_def)

lemma Session_close_parts:
  "snd (Session_close s) =
     Session_mark_closed (Session_take_read_half (Session_take_write_half (Session_set_inactive (Session_mark_closing s))))"
  by (simp add: Session_close_def Session_mark_closing_def Session_set_inactive_def Session_take_write_half_def
      Session_take_read_half_def Session_mark_closed_def)

section \<open>Calls in progress\<close>

text \<open>
  The stages of the three calls. \<open>SendActive\<close> and \<open>ReceiveActive\<close> have found the session active;
  \<open>Sending\<close> has its bytes and waits for the write half, \<open>Writing\<close> holds it; \<open>AwaitBuffer\<close> waits
  for the read buffer, \<open>AwaitReader\<close> holds it and waits for the read half, \<open>Reading\<close> holds both.
  \<open>close\<close> has marked the session (\<open>CloseBegun\<close>), waits for the write half, shuts it down with the
  lock held, waits for the read half, and has both. \<open>Cancelled\<close> is a call whose future was
  dropped, or that panicked.
\<close>

datatype session_call =
    SendActive Message | Sending "u8 list" | Writing "u8 list" | SendDone "unit net_result"
  | ReceiveActive | AwaitBuffer | AwaitReader | Reading | ReceiveDone "Message net_result"
  | CloseBegun | AwaitWriter | ShuttingDown | AwaitReadHalf | HalvesTaken | CloseDone
  | Cancelled

fun call_returned :: "session_call \<Rightarrow> bool" where
  "call_returned (SendDone r) \<longleftrightarrow> True"
| "call_returned (ReceiveDone r) \<longleftrightarrow> True"
| "call_returned CloseDone \<longleftrightarrow> True"
| "call_returned Cancelled \<longleftrightarrow> True"
| "call_returned _ \<longleftrightarrow> False"

fun holds_write_half :: "session_call \<Rightarrow> bool" where
  "holds_write_half (Writing data) \<longleftrightarrow> True"
| "holds_write_half ShuttingDown \<longleftrightarrow> True"
| "holds_write_half _ \<longleftrightarrow> False"

fun holds_read_half :: "session_call \<Rightarrow> bool" where
  "holds_read_half Reading \<longleftrightarrow> True"
| "holds_read_half _ \<longleftrightarrow> False"

fun holds_buffer :: "session_call \<Rightarrow> bool" where
  "holds_buffer AwaitReader \<longleftrightarrow> True"
| "holds_buffer Reading \<longleftrightarrow> True"
| "holds_buffer _ \<longleftrightarrow> False"

definition free :: "(session_call \<Rightarrow> bool) \<Rightarrow> session_call list \<Rightarrow> bool" where
  "free holds cs \<longleftrightarrow> (\<forall>c \<in> set cs. \<not> holds c)"

text \<open>The first step of a call, giving its stage and the session.\<close>

inductive call_start :: "('r, 'w, 'b) Session \<Rightarrow> session_call \<Rightarrow> ('r, 'w, 'b) Session \<Rightarrow> bool" for s where
  send: "call_start s (case Session_check_active s of Inl e \<Rightarrow> SendDone (Inl e) | Inr _ \<Rightarrow> SendActive m) s"
| receive: "call_start s (case Session_check_active s of Inl e \<Rightarrow> ReceiveDone (Inl e) | Inr _ \<Rightarrow> ReceiveActive) s"
| close: "call_start s CloseBegun (Session_mark_closing s)"

text \<open>A further step of one call, where \<open>cs\<close> are all calls.\<close>

inductive call_move ::
  "'b bytes_mut \<Rightarrow> session_call list \<Rightarrow> session_call \<Rightarrow> ('r, 'w, 'b) Session \<Rightarrow> session_call \<Rightarrow> ('r, 'w, 'b) Session \<Rightarrow> bool"
  for B cs where
  encode: "call_move B cs (SendActive m) s
     (case Session_check_idle now s of Inl e \<Rightarrow> SendDone (Inl e)
      | Inr _ \<Rightarrow> (case Message_encode B m of Inl e \<Rightarrow> SendDone (Inl e) | Inr data \<Rightarrow> Sending (bm_slice B data))) s"
| lock_write: "free holds_write_half cs \<Longrightarrow> call_move B cs (Sending data) s (Writing data) s"
| written: "Session_send_locked write_all now' data s = (r, s') \<Longrightarrow> call_move B cs (Writing data) s (SendDone r) s'"
| check_idle: "call_move B cs ReceiveActive s
     (case Session_check_idle now s of Inl e \<Rightarrow> ReceiveDone (Inl e) | Inr _ \<Rightarrow> AwaitBuffer) s"
| lock_buffer: "free holds_buffer cs \<Longrightarrow> call_move B cs AwaitBuffer s AwaitReader s"
| lock_read: "free holds_read_half cs \<Longrightarrow> call_move B cs AwaitReader s Reading s"
| received: "Session_receive_locked B clock now' reads s = Returned (Some r, s', reads') \<Longrightarrow>
     call_move B cs Reading s (ReceiveDone r) s'"
| overflow: "Session_receive_locked B clock now' reads s = Panicked e \<Longrightarrow> call_move B cs Reading s Cancelled s"
| deactivate: "call_move B cs CloseBegun s AwaitWriter (Session_set_inactive s)"
| take_write: "free holds_write_half cs \<Longrightarrow> call_move B cs AwaitWriter s ShuttingDown (Session_take_write_half s)"
| shut_down: "call_move B cs ShuttingDown s AwaitReadHalf s"
| take_read: "free holds_read_half cs \<Longrightarrow> call_move B cs AwaitReadHalf s HalvesTaken (Session_take_read_half s)"
| closed: "call_move B cs HalvesTaken s CloseDone (Session_mark_closed s)"

text \<open>
  A call whose future is dropped while it waits. A write may have got through in part; the
  reads that have completed are in the buffer.
\<close>

inductive call_cancel :: "'b bytes_mut \<Rightarrow> session_call \<Rightarrow> ('r, 'w, 'b) Session \<Rightarrow> ('r, 'w, 'b) Session \<Rightarrow> bool" for B where
  unlocked: "\<not> call_returned c \<Longrightarrow> \<not> holds_write_half c \<Longrightarrow> \<not> holds_read_half c \<Longrightarrow> call_cancel B c s s"
| shutting: "call_cancel B ShuttingDown s s"
| partly_written: "call_cancel B (Writing data) s (s\<lparr>write_half := map_option f (write_half s)\<rparr>)"
| partly_read: "Session_receive_locked B clock now' reads s = Returned (None, s', reads') \<Longrightarrow> call_cancel B Reading s s'"

text \<open>
  One step of the session and its calls. \<open>call_progress\<close> has the steps that the calls in progress
  make on their own.
\<close>

inductive call_progress ::
  "'b bytes_mut \<Rightarrow> ('r, 'w, 'b) Session \<times> session_call list \<Rightarrow> ('r, 'w, 'b) Session \<times> session_call list \<Rightarrow> bool" for B where
  move: "i < length cs \<Longrightarrow> call_move B cs (cs ! i) s c s' \<Longrightarrow> call_progress B (s, cs) (s', cs[i := c])"

inductive call_step ::
  "'b bytes_mut \<Rightarrow> ('r, 'w, 'b) Session \<times> session_call list \<Rightarrow> ('r, 'w, 'b) Session \<times> session_call list \<Rightarrow> bool" for B where
  start: "call_start s c s' \<Longrightarrow> call_step B (s, cs) (s', cs @ [c])"
| progress: "call_progress B sc sc' \<Longrightarrow> call_step B sc sc'"
| cancel: "i < length cs \<Longrightarrow> call_cancel B (cs ! i) s s' \<Longrightarrow> call_step B (s, cs) (s', cs[i := Cancelled])"
| inactive: "call_step B (s, cs) (Session_set_inactive s, cs)"

inductive_cases call_startE: "call_start s c s'"

inductive_cases call_progressE: "call_progress B sc sc'"

inductive_cases call_stepE: "call_step B sc sc'"

section \<open>Exclusion and closing\<close>

text \<open>
  What a stage knows of the session: a call of \<open>close\<close> has made it inactive before it waits
  for the write half, and has taken the halves one after the other. None of it is ever undone.
\<close>

fun stage_ok :: "('r, 'w, 'b) Session \<Rightarrow> session_call \<Rightarrow> bool" where
  "stage_ok s AwaitWriter \<longleftrightarrow> \<not> sess_active s"
| "stage_ok s ShuttingDown \<longleftrightarrow> \<not> sess_active s \<and> write_half s = None"
| "stage_ok s AwaitReadHalf \<longleftrightarrow> \<not> sess_active s \<and> write_half s = None"
| "stage_ok s HalvesTaken \<longleftrightarrow> \<not> sess_active s \<and> write_half s = None \<and> read_half s = None"
| "stage_ok s CloseDone \<longleftrightarrow> \<not> sess_active s \<and> write_half s = None \<and> read_half s = None"
| "stage_ok s _ \<longleftrightarrow> True"

definition closer :: "('r, 'w, 'b) Session \<Rightarrow> ('r, 'w, 'b) Session \<Rightarrow> bool" where
  "closer s s' \<longleftrightarrow>
     (\<not> sess_active s \<longrightarrow> \<not> sess_active s') \<and> (write_half s = None \<longrightarrow> write_half s' = None) \<and>
     (read_half s = None \<longrightarrow> read_half s' = None)"

definition owns_stream :: "('r, 'w, 'b) Session \<Rightarrow> bool" where
  "owns_stream s \<longleftrightarrow> (sess_active s \<longrightarrow> write_half s \<noteq> None \<and> read_half s \<noteq> None)"

definition exclusive :: "(session_call \<Rightarrow> bool) \<Rightarrow> session_call list \<Rightarrow> bool" where
  "exclusive holds cs \<longleftrightarrow> length (filter holds cs) \<le> 1"

definition shared_inv :: "('r, 'w, 'b) Session \<times> session_call list \<Rightarrow> bool" where
  "shared_inv sc \<longleftrightarrow> (case sc of (s, cs) \<Rightarrow>
     exclusive holds_write_half cs \<and> exclusive holds_read_half cs \<and> exclusive holds_buffer cs \<and>
     owns_stream s \<and> (\<forall>c \<in> set cs. stage_ok s c))"

lemmas session_parts =
  Session_check_active_def Session_check_idle_def Session_send_locked_def Session_receive_locked_def
  Session_mark_closing_def Session_take_write_half_def Session_take_read_half_def Session_mark_closed_def
  Session_set_inactive_def Session_update_activity_def

lemma closer_trans: "closer a b \<Longrightarrow> closer b c \<Longrightarrow> closer a c"
  by (simp add: closer_def)

lemma stage_ok_closer: "closer s s' \<Longrightarrow> stage_ok s c \<Longrightarrow> stage_ok s' c"
  by (cases c) (simp_all add: closer_def)

lemma free_no_holder: "free holds cs \<Longrightarrow> filter holds cs = []"
  by (simp add: free_def)

lemma exclusive_replace:
  assumes "exclusive holds cs" "i < length cs" "holds c \<longrightarrow> holds (cs ! i) \<or> free holds cs"
  shows "exclusive holds (cs[i := c])"
  using assms length_filter_update [of i cs holds c] free_no_holder [of holds cs]
  by (auto simp: exclusive_def split: if_splits)

lemma exclusive_append: "exclusive holds cs \<Longrightarrow> \<not> holds c \<Longrightarrow> exclusive holds (cs @ [c])"
  by (simp add: exclusive_def)

text \<open>A step of one call.\<close>

lemma call_start_facts:
  assumes "call_start s c s'"
  shows "closer s s' \<and> (owns_stream s \<longrightarrow> owns_stream s') \<and> stage_ok s' c \<and>
    \<not> holds_write_half c \<and> \<not> holds_read_half c \<and> \<not> holds_buffer c"
  using assms by (cases rule: call_start.cases) (auto simp: session_parts closer_def owns_stream_def)

lemma call_move_locks:
  assumes "call_move B cs c s c' s'"
  shows "(holds_write_half c' \<longrightarrow> holds_write_half c \<or> free holds_write_half cs) \<and>
    (holds_read_half c' \<longrightarrow> holds_read_half c \<or> free holds_read_half cs) \<and>
    (holds_buffer c' \<longrightarrow> holds_buffer c \<or> free holds_buffer cs)"
  using assms by (cases rule: call_move.cases) (auto simp: session_parts split: sum.splits)

lemma call_move_session:
  assumes "call_move B cs c s c' s'" "stage_ok s c"
  shows "closer s s' \<and> (owns_stream s \<longrightarrow> owns_stream s') \<and> stage_ok s' c'"
  using assms
  by (cases rule: call_move.cases)
     (auto simp: session_parts closer_def owns_stream_def Let_def split: sum.splits option.splits prod.splits if_splits)

lemma call_cancel_session:
  assumes "call_cancel B c s s'"
  shows "closer s s' \<and> (owns_stream s \<longrightarrow> owns_stream s')"
  using assms
  by (cases rule: call_cancel.cases)
     (auto simp: session_parts closer_def owns_stream_def Let_def split: option.splits prod.splits if_splits)

lemma shared_inv_replace:
  assumes "shared_inv (s, cs)" "i < length cs" "closer s s'" "owns_stream s'" "stage_ok s' c"
    and "holds_write_half c \<longrightarrow> holds_write_half (cs ! i) \<or> free holds_write_half cs"
    and "holds_read_half c \<longrightarrow> holds_read_half (cs ! i) \<or> free holds_read_half cs"
    and "holds_buffer c \<longrightarrow> holds_buffer (cs ! i) \<or> free holds_buffer cs"
  shows "shared_inv (s', cs[i := c])"
  using assms
  by (auto simp: shared_inv_def exclusive_replace stage_ok_closer dest!: subsetD [OF set_update_subset_insert])

lemma shared_step_inv:
  assumes "call_step B sc sc'" "shared_inv sc"
  shows "shared_inv sc'"
  using assms(1)
proof (cases rule: call_step.cases)
  case (start s c s' cs)
  with call_start_facts [OF start(3)] assms(2) show ?thesis
    by (auto simp: shared_inv_def exclusive_append stage_ok_closer)
next
  case progress
  then show ?thesis
  proof (cases rule: call_progress.cases)
    case (move i cs s c s')
    have "stage_ok s (cs ! i)" "owns_stream s" using assms(2) move by (auto simp: shared_inv_def)
    with call_move_session [OF move(4)] call_move_locks [OF move(4)] assms(2) move show ?thesis
      by (auto intro: shared_inv_replace)
  qed
next
  case (cancel i cs s s')
  have "owns_stream s" using assms(2) cancel by (simp add: shared_inv_def)
  with call_cancel_session [OF cancel(4)] assms(2) cancel show ?thesis
    by (auto intro: shared_inv_replace)
next
  case (inactive s cs)
  have "closer s (Session_set_inactive s)" "owns_stream (Session_set_inactive s)"
    by (simp_all add: closer_def owns_stream_def Session_set_inactive_def)
  with inactive assms(2) show ?thesis by (auto simp: shared_inv_def stage_ok_closer)
qed

interpretation shared: step_system "call_step B" shared_inv
  by unfold_locales (rule shared_step_inv)

lemma shared_inv_new: "shared_inv (Session_new B sid t halves addr rt wt it, [])"
  by (simp add: shared_inv_def exclusive_def owns_stream_def Session_new_def)

text \<open>Once a session has no halves, no call succeeds any more.\<close>

definition session_shut :: "('r, 'w, 'b) Session \<Rightarrow> bool" where
  "session_shut s \<longleftrightarrow> \<not> sess_active s \<and> write_half s = None \<and> read_half s = None"

fun call_succeeded :: "session_call \<Rightarrow> bool" where
  "call_succeeded (SendDone r) \<longleftrightarrow> r = Inr ()"
| "call_succeeded (ReceiveDone r) \<longleftrightarrow> (\<exists>m. r = Inr m)"
| "call_succeeded _ \<longleftrightarrow> False"

lemma session_shut_closer: "closer s s' \<Longrightarrow> session_shut s \<Longrightarrow> session_shut s'"
  by (simp add: closer_def session_shut_def)

lemma call_move_fails: "call_move B cs c s c' s' \<Longrightarrow> session_shut s \<Longrightarrow> \<not> call_succeeded c'"
  by (cases rule: call_move.cases) (auto simp: session_parts session_shut_def split: sum.splits)

lemma call_start_fails: "call_start s c s' \<Longrightarrow> \<not> call_succeeded c"
  by (cases rule: call_start.cases) (auto simp: session_parts split: sum.splits)

lemma call_step_closer:
  assumes "call_step B (s, cs) (s', cs')" "shared_inv (s, cs)"
  shows "closer s s' \<and> length cs \<le> length cs'"
  using assms(1)
proof (cases rule: call_step.cases)
  case (start c)
  with call_start_facts show ?thesis by fastforce
next
  case progress
  then show ?thesis
  proof (cases rule: call_progress.cases)
    case (move i c)
    then have "stage_ok s (cs ! i)" using assms(2) by (auto simp: shared_inv_def)
    with move call_move_session [OF move(3)] show ?thesis by simp
  qed
next
  case (cancel i)
  with call_cancel_session show ?thesis by fastforce
qed (auto simp: closer_def Session_set_inactive_def)

lemma call_step_shut:
  assumes "call_step B (s, cs) (s', cs')" "shared_inv (s, cs)" "session_shut s" "i < length cs'" "call_succeeded (cs' ! i)"
  shows "i < length cs \<and> cs ! i = cs' ! i"
  using assms(1)
proof (cases rule: call_step.cases)
  case (start c)
  then show ?thesis using assms(4,5) call_start_fails [OF start(2)] by (auto simp: nth_append split: if_splits)
next
  case progress
  then show ?thesis
  proof (cases rule: call_progress.cases)
    case (move j c)
    then show ?thesis using assms(3-5) call_move_fails [OF move(3)] by (auto simp: nth_list_update split: if_splits)
  qed
next
  case (cancel j)
  then show ?thesis using assms(4,5) by (auto simp: nth_list_update split: if_splits)
qed (use assms(4) in simp)

lemma calls_shut:
  assumes "(call_step B)\<^sup>*\<^sup>* (s, cs) (s', cs')" "shared_inv (s, cs)" "session_shut s"
  shows "session_shut s' \<and> length cs \<le> length cs' \<and>
    (\<forall>i < length cs'. call_succeeded (cs' ! i) \<longrightarrow> i < length cs \<and> cs ! i = cs' ! i)"
  using assms(1)
proof (induction "(s', cs')" arbitrary: s' cs' rule: rtranclp_induct)
  case base
  with assms(3) show ?case by simp
next
  case (step sc)
  obtain s1 cs1 where sc: "sc = (s1, cs1)" by fastforce
  have inv: "shared_inv (s1, cs1)" using shared.steps_inv [OF _ assms(2)] step(1) sc by blast
  have last: "call_step B (s1, cs1) (s', cs')" using step(2) sc by simp
  have IH: "session_shut s1" "length cs \<le> length cs1"
    "i < length cs1 \<Longrightarrow> call_succeeded (cs1 ! i) \<Longrightarrow> i < length cs \<and> cs ! i = cs1 ! i" for i
    using step(3) [OF sc] by blast+
  have "i < length cs \<and> cs ! i = cs' ! i" if "i < length cs'" "call_succeeded (cs' ! i)" for i
    using call_step_shut [OF last inv IH(1) that] IH(3) [of i] that(2) by simp
  moreover have "session_shut s'" "length cs \<le> length cs'"
    using call_step_closer [OF last inv] session_shut_closer [OF _ IH(1)] IH(2) by auto
  ultimately show ?case by blast
qed

section \<open>No deadlock\<close>

text \<open>How many steps a call in progress has at most before it.\<close>

primrec call_rank :: "session_call \<Rightarrow> nat" where
  "call_rank (SendActive m) = 3"
| "call_rank (Sending data) = 2"
| "call_rank (Writing data) = 1"
| "call_rank (SendDone r) = 0"
| "call_rank ReceiveActive = 4"
| "call_rank AwaitBuffer = 3"
| "call_rank AwaitReader = 2"
| "call_rank Reading = 1"
| "call_rank (ReceiveDone r) = 0"
| "call_rank CloseBegun = 5"
| "call_rank AwaitWriter = 4"
| "call_rank ShuttingDown = 3"
| "call_rank AwaitReadHalf = 2"
| "call_rank HalvesTaken = 1"
| "call_rank CloseDone = 0"
| "call_rank Cancelled = 0"

lemma call_move_rank: "call_move B cs c s c' s' \<Longrightarrow> call_rank c' < call_rank c"
  by (cases rule: call_move.cases) (auto split: sum.splits)

text \<open>A call at a stage that waits for no lock can always go on: a pending read or write ends by its timeout.\<close>

fun waits_for :: "session_call \<Rightarrow> session_call \<Rightarrow> bool" where
  "waits_for (Sending data) = holds_write_half"
| "waits_for AwaitBuffer = holds_buffer"
| "waits_for AwaitReader = holds_read_half"
| "waits_for AwaitWriter = holds_write_half"
| "waits_for AwaitReadHalf = holds_read_half"
| "waits_for _ = (\<lambda>_. False)"

lemma call_can_move:
  assumes "\<not> call_returned c" "free (waits_for c) cs"
  shows "\<exists>c' s'. call_move B cs c s c' s'"
proof (cases "c = Reading")
  case True
  let ?locked = "Session_receive_locked B (\<lambda>_. sess_read_timeout s * 3) 0 [] s"
  show ?thesis
  proof (cases ?locked)
    case (Returned x)
    then obtain r s' reads' where x: "?locked = Returned (r, s', reads')" by (cases x) simp
    have "r \<noteq> None"
      using x by (auto simp: Session_receive_locked_def Let_def receive_loop.simps [where reads = "[]"]
          split: option.splits if_splits)
    with x True show ?thesis by (auto intro: call_move.received)
  next
    case (Panicked e)
    with True show ?thesis by (auto intro: call_move.overflow)
  qed
next
  case False
  then show ?thesis
    using assms
    by (cases c) (auto intro: call_move.intros call_move.written [OF prod.collapse [symmetric]])
qed

lemma calls_can_move:
  assumes "c \<in> set cs" "\<not> call_returned c"
  shows "\<exists>s' cs'. call_progress B (s, cs) (s', cs')"
proof -
  have step: "\<exists>s' cs'. call_progress B (s, cs) (s', cs')" if c: "d \<in> set cs" "\<not> call_returned d" "free (waits_for d) cs" for d
  proof -
    obtain i where i: "i < length cs" "cs ! i = d" using c(1) by (auto simp: in_set_conv_nth)
    obtain c' s' where "call_move B cs (cs ! i) s c' s'" using call_can_move [OF c(2,3)] i by blast
    with i show ?thesis by (blast intro: call_progress.move)
  qed
  have holder: "\<not> call_returned d" "waits_for d = (\<lambda>_. False)" if "holds_write_half d \<or> holds_read_half d" for d
    using that by (cases d; simp)+
  show ?thesis
  proof (cases "free (\<lambda>d. holds_write_half d \<or> holds_read_half d) cs")
    case False
    then obtain d where "d \<in> set cs" "holds_write_half d \<or> holds_read_half d" by (auto simp: free_def)
    with step [of d] holder [of d] show ?thesis by (simp add: free_def)
  next
    case True
    show ?thesis
    proof (cases "AwaitReader \<in> set cs")
      case True
      with \<open>free (\<lambda>d. holds_write_half d \<or> holds_read_half d) cs\<close> step [of AwaitReader] show ?thesis
        by (simp add: free_def)
    next
      case False
      have "\<not> waits_for c d" if "d \<in> set cs" for d
        using True False that by (cases c; cases d) (auto simp: free_def)
      with step [OF assms] show ?thesis by (simp add: free_def)
    qed
  qed
qed

lemma sum_list_replace_less:
  "i < length xs \<Longrightarrow> f y < (f (xs ! i) :: nat) \<Longrightarrow> sum_list (map f (xs[i := y])) < sum_list (map f xs)"
proof (induction xs arbitrary: i)
  case (Cons x xs)
  then show ?case by (cases i) auto
qed simp

lemma call_progress_rank:
  "call_progress B (s, cs) (s', cs') \<Longrightarrow>
   length cs' = length cs \<and> sum_list (map call_rank cs') < sum_list (map call_rank cs)"
  by (auto elim!: call_progressE intro: sum_list_replace_less dest: call_move_rank)

text \<open>
  So the calls in progress return, in whatever order they take their steps, and a call of
  \<open>close\<close> ends as one.
\<close>

fun is_close :: "session_call \<Rightarrow> bool" where
  "is_close CloseBegun \<longleftrightarrow> True"
| "is_close AwaitWriter \<longleftrightarrow> True"
| "is_close ShuttingDown \<longleftrightarrow> True"
| "is_close AwaitReadHalf \<longleftrightarrow> True"
| "is_close HalvesTaken \<longleftrightarrow> True"
| "is_close CloseDone \<longleftrightarrow> True"
| "is_close _ \<longleftrightarrow> False"

lemma is_close_returned: "is_close c \<Longrightarrow> call_returned c \<Longrightarrow> c = CloseDone"
  by (cases c) simp_all

lemma call_move_close: "call_move B cs c s c' s' \<Longrightarrow> is_close c' = is_close c"
  by (cases rule: call_move.cases) (auto split: sum.splits)

lemma call_progress_close:
  assumes "call_progress B (s, cs) (s', cs')"
  shows "map is_close cs' = map is_close cs"
  using assms
proof (cases rule: call_progress.cases)
  case (move i c)
  with call_move_close [OF move(3)] show ?thesis by (auto simp: map_update list_update_same_conv)
qed

lemma calls_return:
  "\<exists>s' cs'. (call_progress B)\<^sup>*\<^sup>* (s, cs) (s', cs') \<and> map is_close cs' = map is_close cs \<and> (\<forall>c \<in> set cs'. call_returned c)"
proof (induction "sum_list (map call_rank cs)" arbitrary: s cs rule: less_induct)
  case less
  show ?case
  proof (cases "\<forall>c \<in> set cs. call_returned c")
    case False
    then obtain s1 cs1 where step: "call_progress B (s, cs) (s1, cs1)" using calls_can_move by blast
    from less [of cs1 s1] call_progress_rank [OF step] call_progress_close [OF step] show ?thesis
      using converse_rtranclp_into_rtranclp [of "call_progress B", OF step] by (metis (no_types))
  qed blast
qed

text \<open>A \<open>close\<close> that no other call holds up does what the function \<open>Session_close\<close> says.\<close>

lemma progress_last:
  "call_move B (cs @ [c]) c s c' s' \<Longrightarrow> call_progress B (s, cs @ [c]) (s', cs @ [c'])"
  using call_progress.move [of "length cs" "cs @ [c]" B s c' s'] by simp

lemma close_runs:
  assumes "free holds_write_half cs" "free holds_read_half cs"
  shows "(call_progress B)\<^sup>*\<^sup>* (s, cs @ [CloseBegun]) (snd (Session_close s), cs @ [CloseDone])"
proof -
  have held: "free holds_write_half (cs @ [c])" "free holds_read_half (cs @ [c])"
    if "\<not> holds_write_half c" "\<not> holds_read_half c" for c
    using assms that by (simp_all add: free_def)
  have "call_progress B (s, cs @ [CloseBegun]) (Session_set_inactive s, cs @ [AwaitWriter])"
    by (rule progress_last) (rule call_move.deactivate)
  moreover have "call_progress B (t, cs @ [AwaitWriter]) (Session_take_write_half t, cs @ [ShuttingDown])" for t :: "('a, 'b, 'c) Session"
    by (rule progress_last) (rule call_move.take_write, rule held, simp_all)
  moreover have "call_progress B (t, cs @ [ShuttingDown]) (t, cs @ [AwaitReadHalf])" for t :: "('a, 'b, 'c) Session"
    by (rule progress_last) (rule call_move.shut_down)
  moreover have "call_progress B (t, cs @ [AwaitReadHalf]) (Session_take_read_half t, cs @ [HalvesTaken])" for t :: "('a, 'b, 'c) Session"
    by (rule progress_last) (rule call_move.take_read, rule held, simp_all)
  moreover have "call_progress B (t, cs @ [HalvesTaken]) (Session_mark_closed t, cs @ [CloseDone])" for t :: "('a, 'b, 'c) Session"
    by (rule progress_last) (rule call_move.closed)
  ultimately have "(call_progress B)\<^sup>*\<^sup>* (s, cs @ [CloseBegun])
      (Session_mark_closed (Session_take_read_half (Session_take_write_half (Session_set_inactive s))), cs @ [CloseDone])"
    by (metis (no_types) r_into_rtranclp rtranclp.rtrancl_into_rtrancl)
  moreover have "Session_mark_closed (Session_take_read_half (Session_take_write_half (Session_set_inactive s))) = snd (Session_close s)"
    by (simp add: session_parts Session_close_def)
  ultimately show ?thesis by simp
qed

lemma progress_steps: "(call_progress B)\<^sup>*\<^sup>* a b \<Longrightarrow> (call_step B)\<^sup>*\<^sup>* a b"
  by (rule rtranclp_mono [THEN predicate2D]) (auto intro: call_step.progress)

section \<open>Property\<close>

text \<open>
  C27. A session shared by any number of tasks. However their calls of \<open>send\<close>, \<open>receive\<close> and
  \<open>close\<close> interleave, also when calls are cancelled: at most one call at a time uses the write
  half and at most one the read half; an active session owns both. As soon as one call of
  \<open>close\<close> has returned, the session is inactive and without stream for good, and no call
  succeeds any more that had not succeeded before, the ones that were waiting included. And
  the calls never block each other for ever: those in progress can always run to their
  return without a new call or a cancellation.
\<close>

theorem session_calls_safe:
  assumes "(call_step B)\<^sup>*\<^sup>* (Session_new B sid t halves addr rt wt it, []) (s, cs)"
  shows "length (filter holds_write_half cs) \<le> 1 \<and> length (filter holds_read_half cs) \<le> 1 \<and>
    (Session_is_active s \<longrightarrow> read_half s \<noteq> None \<and> write_half s \<noteq> None) \<and>
    (CloseDone \<in> set cs \<and> (call_step B)\<^sup>*\<^sup>* (s, cs) (s', cs') \<longrightarrow>
       \<not> Session_is_active s' \<and> read_half s' = None \<and> write_half s' = None \<and>
       (\<forall>i < length cs'. call_succeeded (cs' ! i) \<longrightarrow> i < length cs \<and> cs ! i = cs' ! i)) \<and>
    (\<exists>s'' cs''. (call_progress B)\<^sup>*\<^sup>* (s, cs) (s'', cs'') \<and> length cs'' = length cs \<and> (\<forall>c \<in> set cs''. call_returned c))"
proof -
  have inv: "shared_inv (s, cs)" by (rule shared.steps_inv [OF assms shared_inv_new])
  moreover have "session_shut s" if "CloseDone \<in> set cs"
    using inv that by (auto simp: shared_inv_def session_shut_def dest!: bspec)
  ultimately show ?thesis
    using calls_shut [of B s cs s' cs'] calls_return [of B s cs]
    by (auto simp: shared_inv_def exclusive_def owns_stream_def session_shut_def Session_is_active_def dest: map_eq_imp_length_eq)
qed

text \<open>
  A call of \<open>receive\<close> has found the session active; another task closes the session before it
  goes on. The call can return, and then it has failed.
\<close>

lemma example_close:
  "(call_step vec_bytes)\<^sup>*\<^sup>* (example_session, []) (snd (Session_close example_session), [ReceiveActive, CloseDone])"
proof -
  have "call_step vec_bytes (example_session, []) (example_session, [ReceiveActive])"
    using call_step.start [OF call_start.receive, of vec_bytes example_session "[]"]
    by (simp add: Session_check_active_def example_session_def Session_new_def Session_is_active_def)
  moreover have "call_step vec_bytes (example_session, [ReceiveActive])
      (Session_mark_closing example_session, [ReceiveActive, CloseBegun])"
    using call_step.start [OF call_start.close, of vec_bytes example_session "[ReceiveActive]"] by simp
  moreover have "(call_step vec_bytes)\<^sup>*\<^sup>* (Session_mark_closing example_session, [ReceiveActive, CloseBegun])
      (snd (Session_close (Session_mark_closing example_session)), [ReceiveActive, CloseDone])"
    using progress_steps [OF close_runs [of "[ReceiveActive]" vec_bytes]] by (simp add: free_def)
  ultimately show ?thesis
    by (simp add: converse_rtranclp_into_rtranclp Session_close_def Session_mark_closing_def)
qed

theorem session_calls_safe_witness:
  "\<exists>s' cs'. (call_step vec_bytes)\<^sup>*\<^sup>* (snd (Session_close example_session), [ReceiveActive, CloseDone]) (s', cs') \<and>
     call_returned (cs' ! 0) \<and> \<not> call_succeeded (cs' ! 0) \<and> \<not> Session_is_active s'"
proof -
  note safe = session_calls_safe [OF example_close [unfolded example_session_def], folded example_session_def]
  obtain s' cs' where run: "(call_progress vec_bytes)\<^sup>*\<^sup>* (snd (Session_close example_session), [ReceiveActive, CloseDone]) (s', cs')"
    "length cs' = 2" "\<forall>c \<in> set cs'. call_returned c"
    using safe [THEN conjunct2, THEN conjunct2, THEN conjunct2, THEN conjunct2] by auto
  then have "call_returned (cs' ! 0)" by simp
  with run(2) progress_steps [OF run(1)] show ?thesis
    using safe [of s' cs', THEN conjunct2, THEN conjunct2, THEN conjunct2, THEN conjunct1]
    by (intro exI [of _ s'] exI [of _ cs']) (auto dest: spec [of _ "0 :: nat"])
qed

end
