(* ===== verification/Tokio_Sync.thy ===== *)
theory Tokio_Sync
  imports Prelude
begin

text \<open>
  The synchronisation primitives of tokio that the crate builds on: the counting semaphore,
  the bounded channel and the \<open>Notify\<close>. They are not part of the repository, so their operations are
  fields of a record, an argument of every definition that uses them; the locales
  \<open>semaphore\<close>, \<open>channel\<close> and \<open>notify\<close> state what tokio documents of them, and prove once what the
  clients need. Dropping an acquired permit and \<open>add_permits\<close> have the same effect on the
  number of available permits; \<open>forget\<close> has none.
\<close>

section \<open>Semaphore\<close>

definition MAX_PERMITS :: nat where
  "MAX_PERMITS = (2 ^ 64 - 1) div 8"

datatype 's try_acquire = Acquired 's | NoPermits | SemClosed

record 's semaphore_ops =
  sem_new :: "nat \<Rightarrow> 's"
  sem_available :: "'s \<Rightarrow> nat"
  sem_is_closed :: "'s \<Rightarrow> bool"
  sem_try_acquire :: "'s \<Rightarrow> 's try_acquire"
  sem_add_permits :: "nat \<Rightarrow> 's \<Rightarrow> 's"

locale semaphore =
  fixes S :: "'s semaphore_ops"
  assumes available_new: "n \<le> MAX_PERMITS \<Longrightarrow> sem_available S (sem_new S n) = n"
    and open_new: "n \<le> MAX_PERMITS \<Longrightarrow> \<not> sem_is_closed S (sem_new S n)"
    and acquired_available: "sem_try_acquire S s = Acquired s' \<Longrightarrow> sem_available S s = Suc (sem_available S s')"
    and acquired_open: "sem_try_acquire S s = Acquired s' \<Longrightarrow> sem_is_closed S s' = sem_is_closed S s"
    and no_permits: "\<not> sem_is_closed S s \<Longrightarrow> sem_available S s = 0 \<Longrightarrow> sem_try_acquire S s = NoPermits"
    and permits: "\<not> sem_is_closed S s \<Longrightarrow> 0 < sem_available S s \<Longrightarrow> \<exists>s'. sem_try_acquire S s = Acquired s'"
    and available_add:
      "sem_available S s + n \<le> MAX_PERMITS \<Longrightarrow> sem_available S (sem_add_permits S n s) = sem_available S s + n"
    and open_add:
      "sem_available S s + n \<le> MAX_PERMITS \<Longrightarrow> sem_is_closed S (sem_add_permits S n s) = sem_is_closed S s"
begin

lemma acquired_iff:
  "\<not> sem_is_closed S s \<Longrightarrow> (\<exists>s'. sem_try_acquire S s = Acquired s') \<longleftrightarrow> 0 < sem_available S s"
  using permits acquired_available by fastforce

lemma not_acquired_iff:
  "\<not> sem_is_closed S s \<Longrightarrow> sem_try_acquire S s = NoPermits \<longleftrightarrow> sem_available S s = 0"
  using permits no_permits by fastforce

lemma never_SemClosed: "\<not> sem_is_closed S s \<Longrightarrow> sem_try_acquire S s \<noteq> SemClosed"
  using permits no_permits by (cases "sem_available S s") fastforce+

end

text \<open>A counter is a semaphore.\<close>

definition counter_semaphore :: "nat semaphore_ops" where
  "counter_semaphore = \<lparr>
     sem_new = (\<lambda>n. n),
     sem_available = (\<lambda>n. n),
     sem_is_closed = (\<lambda>_. False),
     sem_try_acquire = (\<lambda>n. case n of 0 \<Rightarrow> NoPermits | Suc k \<Rightarrow> Acquired k),
     sem_add_permits = (+)\<rparr>"

interpretation counter: semaphore counter_semaphore
  by unfold_locales (auto simp: counter_semaphore_def split: nat.splits)

section \<open>Bounded channel\<close>

datatype 'c send_result = Sent 'c | SendWaits | SendClosed

text \<open>\<open>ch_channel n\<close> is \<open>mpsc::channel(n)\<close>, where \<open>None\<close> is its panic.\<close>

record ('c, 'm) channel_ops =
  ch_channel :: "nat \<Rightarrow> 'c option"
  ch_capacity :: "'c \<Rightarrow> nat"
  ch_contents :: "'c \<Rightarrow> 'm list"
  ch_send :: "'m \<Rightarrow> 'c \<Rightarrow> 'c send_result"
  ch_recv :: "'c \<Rightarrow> ('m \<times> 'c) option"

text \<open>
  The laws are those of a channel whose two ends are both alive, as they are in a queue
  that owns them.
\<close>

locale channel =
  fixes C :: "('c, 'm) channel_ops"
  assumes channel_zero: "ch_channel C 0 = None"
    and channel_new:
      "0 < n \<Longrightarrow> n \<le> MAX_PERMITS \<Longrightarrow>
       \<exists>c. ch_channel C n = Some c \<and> ch_contents C c = [] \<and> ch_capacity C c = n"
    and send_room:
      "length (ch_contents C c) < ch_capacity C c \<Longrightarrow>
       \<exists>c'. ch_send C m c = Sent c' \<and> ch_contents C c' = ch_contents C c @ [m] \<and>
         ch_capacity C c' = ch_capacity C c"
    and send_full: "length (ch_contents C c) \<ge> ch_capacity C c \<Longrightarrow> ch_send C m c = SendWaits"
    and recv_empty: "ch_contents C c = [] \<Longrightarrow> ch_recv C c = None"
    and recv_Cons:
      "ch_contents C c = m # ms \<Longrightarrow>
       \<exists>c'. ch_recv C c = Some (m, c') \<and> ch_contents C c' = ms \<and> ch_capacity C c' = ch_capacity C c"
begin

lemma sentD:
  assumes "ch_send C m c = Sent c'"
  shows "ch_contents C c' = ch_contents C c @ [m] \<and> ch_capacity C c' = ch_capacity C c \<and>
    length (ch_contents C c) < ch_capacity C c"
proof (cases "length (ch_contents C c) < ch_capacity C c")
  case True
  with send_room [of c m] assms show ?thesis by auto
next
  case False
  with send_full [of c m] assms show ?thesis by simp
qed

lemma never_SendClosed: "ch_send C m c \<noteq> SendClosed"
  using send_room [of c m] send_full [of c m] by (cases "length (ch_contents C c) < ch_capacity C c") auto

lemma recvD:
  assumes "ch_recv C c = Some (m, c')"
  shows "ch_contents C c = m # ch_contents C c' \<and> ch_capacity C c' = ch_capacity C c"
  using assms recv_empty [of c] recv_Cons [of c] by (cases "ch_contents C c") auto

lemma recv_None_iff: "ch_recv C c = None \<longleftrightarrow> ch_contents C c = []"
  using recv_empty [of c] recv_Cons [of c] by (cases "ch_contents C c") auto

lemma channel_SomeD:
  "ch_channel C n = Some c \<Longrightarrow> n \<le> MAX_PERMITS \<Longrightarrow> 0 < n \<and> ch_contents C c = [] \<and> ch_capacity C c = n"
  using channel_zero channel_new [of n] by (cases "n = 0") auto

end

text \<open>A list with a capacity is a channel.\<close>

definition list_channel :: "('m list \<times> nat, 'm) channel_ops" where
  "list_channel = \<lparr>
     ch_channel = (\<lambda>n. if n = 0 then None else Some ([], n)),
     ch_capacity = snd,
     ch_contents = fst,
     ch_send = (\<lambda>m (ms, n). if length ms < n then Sent (ms @ [m], n) else SendWaits),
     ch_recv = (\<lambda>(ms, n). case ms of [] \<Rightarrow> None | m # ms \<Rightarrow> Some (m, (ms, n)))\<rparr>"

interpretation listch: channel list_channel
  by unfold_locales (auto simp: list_channel_def)

section \<open>Notify\<close>

text \<open>
  \<open>nt_notified\<close> creates a \<open>Notified\<close> future and \<open>nt_ready\<close> tells whether awaiting it
  completes. The law is what tokio documents of \<open>notify_waiters\<close>: it wakes every future
  that was created before the call, and no permit is stored for the ones created later.
\<close>

record ('n, 'w) notify_ops =
  nt_new :: 'n
  nt_notified :: "'n \<Rightarrow> 'w"
  nt_notify_waiters :: "'n \<Rightarrow> 'n"
  nt_ready :: "'w \<Rightarrow> 'n \<Rightarrow> bool"

locale notify =
  fixes N :: "('n, 'w) notify_ops"
  assumes ready_iff: "nt_ready N (nt_notified N n) ((nt_notify_waiters N ^^ k) n) \<longleftrightarrow> 0 < k"
begin

definition waits_on :: "'w \<Rightarrow> 'n \<Rightarrow> bool" where
  "waits_on w n \<longleftrightarrow> (\<exists>n0 k. w = nt_notified N n0 \<and> n = (nt_notify_waiters N ^^ k) n0)"

lemma waits_on_new: "waits_on (nt_notified N n) n"
  unfolding waits_on_def by (rule exI [of _ n], rule exI [of _ 0]) simp

lemma waits_on_notify: "waits_on w n \<Longrightarrow> waits_on w (nt_notify_waiters N n)"
  unfolding waits_on_def by (metis funpow.simps(2) comp_apply)

lemma notify_wakes: "waits_on w n \<Longrightarrow> nt_ready N w (nt_notify_waiters N n)"
  unfolding waits_on_def by (metis ready_iff funpow.simps(2) comp_apply zero_less_Suc)

lemma new_not_ready: "\<not> nt_ready N (nt_notified N n) n"
  using ready_iff [of n 0] by simp

end

text \<open>A count of the calls of \<open>notify_waiters\<close> is a \<open>Notify\<close>.\<close>

definition epoch_notify :: "(nat, nat) notify_ops" where
  "epoch_notify = \<lparr>nt_new = 0, nt_notified = (\<lambda>n. n), nt_notify_waiters = Suc, nt_ready = (<)\<rparr>"

lemma funpow_Suc: "(Suc ^^ k) n = n + k"
  by (induction k) auto

interpretation epoch: notify epoch_notify
  by unfold_locales (simp add: epoch_notify_def funpow_Suc)

end
