(* ===== verification/Server.thy ===== *)
theory Server
  imports Session_Calls Tokio_Sync
begin

text \<open>
  The TCP server (\<open>src/core/server.rs\<close>): its configuration, the accept loop, the task of each
  session, the cleanup of idle sessions, \<open>stop\<close>, the emergency cleanup when the server is
  dropped, and \<open>broadcast\<close>.

  A session is shared between its task, the cleanup task and the server, so sessions live
  in the store \<open>sv_store\<close> and are referred to by their index; \<open>sv_calls\<close> has for each session the
  calls made on it (theory \<open>Session_Calls\<close>). A spawned session task is an entry of \<open>sv_tasks\<close>, in
  the order of spawning, with what it is doing; the code keeps handles to them in
  \<open>session_tasks\<close>, and \<open>sv_aborts\<close> are the tasks whose \<open>abort\<close> has been called. \<open>accepting\<close> and
  \<open>cleaning\<close> tell whether the accept loop and the cleanup task have not ended, \<open>server_task\<close> and
  \<open>cleanup_task\<close> whether the server has their handles.

  A permit of the connection semaphore is passed by value to \<open>handle_connection\<close>. That function is not
  \<open>async\<close>: it spawns a task and returns. The block of the task does not mention the parameter
  \<open>_permit\<close> and so does not capture it; the permit is dropped when the function returns,
  right after the spawn, and not when the connection ends.

  The handler is an argument: the calls it makes on its session are a list of session events.
\<close>

section \<open>Model\<close>

record ServerConfig =
  bind_address :: string
  max_connections :: nat
  sv_read_timeout :: duration
  sv_write_timeout :: duration
  sv_idle_timeout :: duration
  sv_keep_alive :: "duration option"

definition ServerConfig_default :: ServerConfig where
  "ServerConfig_default =
     \<lparr>bind_address = ''127.0.0.1:8080'', max_connections = 1000, sv_read_timeout = from_secs 30,
      sv_write_timeout = from_secs 10, sv_idle_timeout = from_secs 300, sv_keep_alive = Some (from_secs 60)\<rparr>"

definition ServerConfig_new :: "string \<Rightarrow> ServerConfig" where
  "ServerConfig_new addr = ServerConfig_default\<lparr>bind_address := addr\<rparr>"

definition ServerConfig_with_max_connections :: "nat \<Rightarrow> ServerConfig \<Rightarrow> ServerConfig" where
  "ServerConfig_with_max_connections n c = c\<lparr>max_connections := n\<rparr>"

definition ServerConfig_with_read_timeout :: "duration \<Rightarrow> ServerConfig \<Rightarrow> ServerConfig" where
  "ServerConfig_with_read_timeout d c = c\<lparr>sv_read_timeout := d\<rparr>"

definition ServerConfig_with_write_timeout :: "duration \<Rightarrow> ServerConfig \<Rightarrow> ServerConfig" where
  "ServerConfig_with_write_timeout d c = c\<lparr>sv_write_timeout := d\<rparr>"

definition ServerConfig_with_idle_timeout :: "duration \<Rightarrow> ServerConfig \<Rightarrow> ServerConfig" where
  "ServerConfig_with_idle_timeout d c = c\<lparr>sv_idle_timeout := d\<rparr>"

definition ServerConfig_with_keep_alive :: "duration option \<Rightarrow> ServerConfig \<Rightarrow> ServerConfig" where
  "ServerConfig_with_keep_alive d c = c\<lparr>sv_keep_alive := d\<rparr>"

lemmas ServerConfig_defs [config_defs] =
  ServerConfig_default_def ServerConfig_new_def ServerConfig_with_max_connections_def
  ServerConfig_with_read_timeout_def ServerConfig_with_write_timeout_def ServerConfig_with_idle_timeout_def
  ServerConfig_with_keep_alive_def

text \<open>
  A session task has not begun, is in its session, has taken its session off the list, has
  counted itself out as well, is finished, or was aborted.
\<close>

datatype task_state = NotBegun | InSession nat | Unlisted | CountedOut | Finished | Aborted

definition task_is_finished :: "task_state \<Rightarrow> bool" where
  "task_is_finished t \<longleftrightarrow> t = Finished \<or> t = Aborted"

record ('s, 'r, 'w, 'b) TcpServer =
  sv_config :: ServerConfig
  running :: bool
  connection_count :: u64
  connection_semaphore :: 's
  sv_store :: "('r, 'w, 'b) Session list"
  sv_calls :: "session_call list list"
  sessions :: "nat list"
  sv_tasks :: "(('r \<times> 'w) \<times> string \<times> task_state) list"
  session_tasks :: "nat list"
  sv_aborts :: "nat list"
  accepting :: bool
  cleaning :: bool
  server_task :: bool
  cleanup_task :: bool
  sv_shutdown_tx :: bool

definition TcpServer_with_config :: "'s semaphore_ops \<Rightarrow> ServerConfig \<Rightarrow> ('s, 'r, 'w, 'b) TcpServer" where
  "TcpServer_with_config S config =
     \<lparr>sv_config = config, running = False, connection_count = 0,
      connection_semaphore = sem_new S (max_connections config), sv_store = [], sv_calls = [], sessions = [],
      sv_tasks = [], session_tasks = [], sv_aborts = [], accepting = False, cleaning = False, server_task = False, cleanup_task = False, sv_shutdown_tx = False\<rparr>"

definition TcpServer_new :: "'s semaphore_ops \<Rightarrow> string \<Rightarrow> ('s, 'r, 'w, 'b) TcpServer" where
  "TcpServer_new S addr = TcpServer_with_config S (ServerConfig_new addr)"

text \<open>\<open>parse_addr\<close> and \<open>bind\<close> are the address parser and \<open>TcpListener::bind\<close>.\<close>

definition TcpServer_start ::
  "(string \<Rightarrow> string + 'a) \<Rightarrow> ('a \<Rightarrow> string + 'l) \<Rightarrow> ('s, 'r, 'w, 'b) TcpServer \<Rightarrow>
     unit net_result \<times> ('s, 'r, 'w, 'b) TcpServer" where
  "TcpServer_start parse_addr bind sv =
     (if running sv then (Inl (NetworkError_invalid_state ''Server is already running''), sv)
      else
        case parse_addr (bind_address (sv_config sv)) of
          Inl e \<Rightarrow> (Inl (NetworkError_invalid_address (''Invalid address: '' @ e)), sv)
        | Inr addr \<Rightarrow>
            (case bind addr of
               Inl e \<Rightarrow> (Inl (NetworkError_connection (''Failed to bind: '' @ e)), sv)
             | Inr _ \<Rightarrow>
                 (Inr (), sv\<lparr>sv_shutdown_tx := True, running := True, accepting := True, server_task := True,
                    cleaning := True, cleanup_task := True\<rparr>)))"

definition release_permit :: "'s semaphore_ops \<Rightarrow> ('s, 'r, 'w, 'b) TcpServer \<Rightarrow> ('s, 'r, 'w, 'b) TcpServer" where
  "release_permit S sv = sv\<lparr>connection_semaphore := sem_add_permits S 1 (connection_semaphore sv)\<rparr>"

definition set_task :: "nat \<Rightarrow> task_state \<Rightarrow> ('s, 'r, 'w, 'b) TcpServer \<Rightarrow> ('s, 'r, 'w, 'b) TcpServer" where
  "set_task i t sv =
     (case sv_tasks sv ! i of (conn, addr, _) \<Rightarrow> sv\<lparr>sv_tasks := (sv_tasks sv)[i := (conn, addr, t)]\<rparr>)"

definition task_at :: "('s, 'r, 'w, 'b) TcpServer \<Rightarrow> nat \<Rightarrow> task_state" where
  "task_at sv i = snd (snd (sv_tasks sv ! i))"

text \<open>\<open>handle_connection\<close> spawns the task and drops its permit.\<close>

definition TcpServer_handle_connection ::
  "'s semaphore_ops \<Rightarrow> 'r \<times> 'w \<Rightarrow> string \<Rightarrow> ('s, 'r, 'w, 'b) TcpServer \<Rightarrow> ('s, 'r, 'w, 'b) TcpServer" where
  "TcpServer_handle_connection S conn addr sv = release_permit S (sv\<lparr>sv_tasks := sv_tasks sv @ [(conn, addr, NotBegun)]\<rparr>)"

text \<open>The accept loop keeps the handle of the new task and drops those of finished tasks.\<close>

definition TcpServer_track :: "nat \<Rightarrow> ('s, 'r, 'w, 'b) TcpServer \<Rightarrow> ('s, 'r, 'w, 'b) TcpServer" where
  "TcpServer_track i sv =
     (let sv = sv\<lparr>session_tasks := session_tasks sv @ [i]\<rparr>
      in sv\<lparr>session_tasks := filter (\<lambda>i. \<not> task_is_finished (task_at sv i)) (session_tasks sv)\<rparr>)"

text \<open>
  One turn of the accept loop. With keep-alive configured, the socket is converted and
  converted back: \<open>into_std\<close> and \<open>from_std\<close> tell whether that works (the failures of setting
  the two options are only logged). The permit of an abandoned connection is dropped. The turn has no
  wait in it, and nobody else uses the semaphore.
\<close>

definition TcpServer_accept ::
  "'s semaphore_ops \<Rightarrow> bool \<Rightarrow> bool \<Rightarrow> string + (('r \<times> 'w) \<times> string) \<Rightarrow>
     ('s, 'r, 'w, 'b) TcpServer \<Rightarrow> ('s, 'r, 'w, 'b) TcpServer" where
  "TcpServer_accept S into_std from_std accepted sv =
     (case accepted of
        Inl e \<Rightarrow> sv
      | Inr (conn, addr) \<Rightarrow>
          (case sem_try_acquire S (connection_semaphore sv) of
             Acquired sem \<Rightarrow>
               let sv = sv\<lparr>connection_semaphore := sem, connection_count := connection_count sv + 1\<rparr> in
               if sv_keep_alive (sv_config sv) \<noteq> None \<and> \<not> (into_std \<and> from_std)
               then release_permit S (sv\<lparr>connection_count := connection_count sv - 1\<rparr>)
               else TcpServer_track (length (sv_tasks sv)) (TcpServer_handle_connection S conn addr sv)
           | _ \<Rightarrow> sv))"

text \<open>The accept loop ends on the shutdown signal, the cleanup task when the server does not run.\<close>

definition TcpServer_accept_loop_end :: "('s, 'r, 'w, 'b) TcpServer \<Rightarrow> ('s, 'r, 'w, 'b) TcpServer" where
  "TcpServer_accept_loop_end sv = sv\<lparr>running := False, accepting := False\<rparr>"

definition TcpServer_cleanup_end :: "('s, 'r, 'w, 'b) TcpServer \<Rightarrow> ('s, 'r, 'w, 'b) TcpServer" where
  "TcpServer_cleanup_end sv = (if running sv then sv else sv\<lparr>cleaning := False\<rparr>)"

definition on_session ::
  "nat \<Rightarrow> (('r, 'w, 'b) Session \<Rightarrow> ('r, 'w, 'b) Session) \<Rightarrow> ('s, 'r, 'w, 'b) TcpServer \<Rightarrow> ('s, 'r, 'w, 'b) TcpServer" where
  "on_session ref f sv = sv\<lparr>sv_store := (sv_store sv)[ref := f (sv_store sv ! ref)]\<rparr>"

text \<open>
  The session task: it creates the session, lists it and calls the handler; runs the session
  loop; calls the handler again, takes the session off the list, and counts itself out.
  A task that panics or is aborted is dropped where it waits: it does neither.
\<close>

definition task_begin ::
  "'b bytes_mut \<Rightarrow> u128 \<Rightarrow> instant \<Rightarrow> nat \<Rightarrow> ('s, 'r, 'w, 'b) TcpServer \<Rightarrow> ('s, 'r, 'w, 'b) TcpServer" where
  "task_begin B sid now i sv =
     (case sv_tasks sv ! i of
        (conn, addr, _) \<Rightarrow>
          let session = Session_new B sid now conn addr (sv_read_timeout (sv_config sv))
                          (sv_write_timeout (sv_config sv)) (sv_idle_timeout (sv_config sv));
              ref = length (sv_store sv)
          in set_task i (InSession ref)
               (sv\<lparr>sv_store := sv_store sv @ [session], sv_calls := sv_calls sv @ [[]], sessions := sessions sv @ [ref]\<rparr>))"

definition task_unlist :: "nat \<Rightarrow> nat \<Rightarrow> ('s, 'r, 'w, 'b) TcpServer \<Rightarrow> ('s, 'r, 'w, 'b) TcpServer" where
  "task_unlist i ref sv = set_task i Unlisted (sv\<lparr>sessions := filter (\<lambda>r. r \<noteq> ref) (sessions sv)\<rparr>)"

definition task_count_out :: "nat \<Rightarrow> ('s, 'r, 'w, 'b) TcpServer \<Rightarrow> ('s, 'r, 'w, 'b) TcpServer" where
  "task_count_out i sv = set_task i CountedOut (sv\<lparr>connection_count := connection_count sv - 1\<rparr>)"

text \<open>
  The session loop, over the clock readings of its successive calls of \<open>receive\<close>: what it
  delivers to \<open>on_message\<close>, and how it ends. A handler has a state of its own, \<open>'h\<close>, and acts
  on the session by the calls it makes. \<open>Pending\<close> means that it awaits a read or a clock
  reading that is not given.
\<close>

datatype loop_end = Broke NetworkError | Pending | LoopPanicked string

type_synonym call_times = "(nat \<Rightarrow> duration) \<times> instant \<times> instant"

type_synonym ('r, 'w, 'b, 'h) message_callback =
  "instant \<Rightarrow> ('r, 'w, 'b) Session \<Rightarrow> Message \<Rightarrow> 'h \<Rightarrow> 'w session_event list \<times> 'h"

fun session_loop ::
  "'b bytes_mut \<Rightarrow> ('r, 'w, 'b, 'h) message_callback \<Rightarrow> call_times list \<Rightarrow> socket_read list \<Rightarrow>
     ('r, 'w, 'b) Session \<Rightarrow> 'h \<Rightarrow> Message list \<times> loop_end \<times> ('r, 'w, 'b) Session \<times> 'h" where
  "session_loop B on_message [] reads s h = ([], Pending, s, h)"
| "session_loop B on_message ((clock, now, now') # calls) reads s h =
     (case Session_receive B clock now now' reads s of
        Panicked e \<Rightarrow> ([], LoopPanicked e, s, h)
      | Returned (None, s, reads) \<Rightarrow> ([], Pending, s, h)
      | Returned (Some (Inl e), s, reads) \<Rightarrow> ([], Broke e, s, h)
      | Returned (Some (Inr message), s, reads) \<Rightarrow>
          let (events, h) = on_message now' s message h;
              s = fold (session_apply B) events s;
              (messages, e, s, h) = session_loop B on_message calls reads s h
          in (message # messages, e, s, h))"

text \<open>
  One pass of the cleanup task, and \<open>broadcast\<close>, when nothing else uses the sessions meanwhile.
  Both read the clock anew for every session.
\<close>

definition TcpServer_cleanup_pass :: "(nat \<Rightarrow> instant) \<Rightarrow> ('s, 'r, 'w, 'b) TcpServer \<Rightarrow> ('s, 'r, 'w, 'b) TcpServer" where
  "TcpServer_cleanup_pass now sv =
     fold (\<lambda>ref. on_session ref (\<lambda>s. snd (Session_close s)))
       (filter (\<lambda>ref. Session_is_idle (now ref) (sv_store sv ! ref)) (sessions sv)) sv"

definition cleanup_interval :: "ServerConfig \<Rightarrow> duration" where
  "cleanup_interval config = sv_idle_timeout config div 2"

definition TcpServer_broadcast ::
  "'b bytes_mut \<Rightarrow> 'w writer \<Rightarrow> (nat \<Rightarrow> instant \<times> instant) \<Rightarrow> Message \<Rightarrow> ('s, 'r, 'w, 'b) TcpServer \<Rightarrow>
     unit net_result \<times> ('s, 'r, 'w, 'b) TcpServer" where
  "TcpServer_broadcast B write_all ticks message sv =
     (Inr (), fold (\<lambda>ref. on_session ref (\<lambda>s. snd (Session_send B write_all (fst (ticks ref)) (snd (ticks ref)) message s)))
        (sessions sv) sv)"

text \<open>
  \<open>stop\<close>. While it awaits something the other tasks run: \<open>rt k\<close> is what they do during its wait
  number \<open>k\<close>. What it awaits must have happened then; otherwise it is still waiting, \<open>None\<close>.
  First it gives the shutdown signal and waits for the accept loop and the cleanup task.
\<close>

definition TcpServer_stop_signal :: "('s, 'r, 'w, 'b) TcpServer \<Rightarrow> ('s, 'r, 'w, 'b) TcpServer" where
  "TcpServer_stop_signal sv = sv\<lparr>running := False, sv_shutdown_tx := False\<rparr>"

definition TcpServer_stop_wait ::
  "(nat \<Rightarrow> ('s, 'r, 'w, 'b) TcpServer \<Rightarrow> ('s, 'r, 'w, 'b) TcpServer) \<Rightarrow> ('s, 'r, 'w, 'b) TcpServer \<Rightarrow>
     ('s, 'r, 'w, 'b) TcpServer option" where
  "TcpServer_stop_wait rt sv =
     (let sv = rt 0 ((TcpServer_stop_signal sv)\<lparr>server_task := False\<rparr>) in
      if accepting sv then None
      else
        let sv = rt 1 (sv\<lparr>cleanup_task := False\<rparr>) in
        if cleaning sv then None else Some sv)"

text \<open>
  Then it closes the listed sessions one after the other. A \<open>close\<close> is a call like those of the
  tasks: it waits for the halves that pending calls of \<open>send\<close> and \<open>receive\<close> have locked.
\<close>

definition TcpServer_begin_close :: "nat \<Rightarrow> ('s, 'r, 'w, 'b) TcpServer \<Rightarrow> ('s, 'r, 'w, 'b) TcpServer" where
  "TcpServer_begin_close ref sv =
     sv\<lparr>sv_store := (sv_store sv)[ref := Session_mark_closing (sv_store sv ! ref)],
        sv_calls := (sv_calls sv)[ref := sv_calls sv ! ref @ [CloseBegun]]\<rparr>"

fun TcpServer_stop_close ::
  "(nat \<Rightarrow> ('s, 'r, 'w, 'b) TcpServer \<Rightarrow> ('s, 'r, 'w, 'b) TcpServer) \<Rightarrow> nat \<Rightarrow> nat list \<Rightarrow>
     ('s, 'r, 'w, 'b) TcpServer \<Rightarrow> ('s, 'r, 'w, 'b) TcpServer option" where
  "TcpServer_stop_close rt k [] sv = Some sv"
| "TcpServer_stop_close rt k (ref # refs) sv =
     (let i = length (sv_calls sv ! ref);
          sv = rt k (TcpServer_begin_close ref sv)
      in if sv_calls sv ! ref ! i = CloseDone then TcpServer_stop_close rt (Suc k) refs sv else None)"

text \<open>
  At last it empties the list of sessions and aborts the session tasks that have not finished.
  \<open>abort\<close> only asks: a task is dropped when it next waits.
\<close>

definition TcpServer_clear_sessions :: "('s, 'r, 'w, 'b) TcpServer \<Rightarrow> ('s, 'r, 'w, 'b) TcpServer" where
  "TcpServer_clear_sessions sv = sv\<lparr>sessions := []\<rparr>"

definition TcpServer_abort_tasks :: "('s, 'r, 'w, 'b) TcpServer \<Rightarrow> ('s, 'r, 'w, 'b) TcpServer" where
  "TcpServer_abort_tasks sv =
     (let tasks = session_tasks sv; sv = sv\<lparr>session_tasks := []\<rparr>
      in sv\<lparr>sv_aborts := sv_aborts sv @ filter (\<lambda>i. \<not> task_is_finished (task_at sv i)) tasks\<rparr>)"

definition TcpServer_stop ::
  "(nat \<Rightarrow> ('s, 'r, 'w, 'b) TcpServer \<Rightarrow> ('s, 'r, 'w, 'b) TcpServer) \<Rightarrow> ('s, 'r, 'w, 'b) TcpServer \<Rightarrow>
     (unit net_result \<times> ('s, 'r, 'w, 'b) TcpServer) option" where
  "TcpServer_stop rt sv =
     (if \<not> running sv then Some (Inr (), sv)
      else
        case TcpServer_stop_wait rt sv of
          None \<Rightarrow> None
        | Some sv \<Rightarrow>
            (case TcpServer_stop_close rt 2 (sessions sv) sv of
               None \<Rightarrow> None
             | Some sv \<Rightarrow> Some (Inr (), (TcpServer_abort_tasks (TcpServer_clear_sessions sv))\<lparr>running := False\<rparr>)))"

definition TcpServer_drop :: "('s, 'r, 'w, 'b) TcpServer \<Rightarrow> ('s, 'r, 'w, 'b) TcpServer" where
  "TcpServer_drop sv =
     (if running sv
      then
        let sv = sv\<lparr>sv_shutdown_tx := False, server_task := False, cleanup_task := False\<rparr>;
            sv = TcpServer_abort_tasks sv;
            sv = fold (\<lambda>ref. on_session ref Session_set_inactive) (sessions sv) sv
        in sv\<lparr>sessions := [], running := False\<rparr>
      else sv)"

definition TcpServer_is_running :: "('s, 'r, 'w, 'b) TcpServer \<Rightarrow> bool" where
  "TcpServer_is_running sv = running sv"

definition TcpServer_connection_count :: "('s, 'r, 'w, 'b) TcpServer \<Rightarrow> u64" where
  "TcpServer_connection_count sv = connection_count sv"

definition TcpServer_sessions :: "('s, 'r, 'w, 'b) TcpServer \<Rightarrow> nat list" where
  "TcpServer_sessions sv = sessions sv"

section \<open>Interleavings\<close>

text \<open>A task that panics or is aborted is dropped only where it waits.\<close>

definition is_abortable :: "task_state \<Rightarrow> bool" where
  "is_abortable t \<longleftrightarrow> t = NotBegun \<or> (\<exists>ref. t = InSession ref)"

text \<open>
  The tasks: the accept loop, the cleanup task and the session tasks, step by step, and the
  calls that anybody who has a session makes on it, among them the loop of its task, its
  handler, the cleanup task, \<open>broadcast\<close> and \<open>stop\<close>. A task may take any of its steps at any time,
  so there are at least the interleavings of the code.
\<close>

inductive runtime_step ::
  "'s semaphore_ops \<Rightarrow> 'b bytes_mut \<Rightarrow> ('s, 'r, 'w, 'b) TcpServer \<Rightarrow> ('s, 'r, 'w, 'b) TcpServer \<Rightarrow> bool" for S B where
  accept: "accepting sv \<Longrightarrow> runtime_step S B sv (TcpServer_accept S into_std from_std accepted sv)"
| accept_end: "accepting sv \<Longrightarrow> \<not> sv_shutdown_tx sv \<Longrightarrow> runtime_step S B sv (TcpServer_accept_loop_end sv)"
| cleanup_end: "runtime_step S B sv (TcpServer_cleanup_end sv)"
| begin_task: "i < length (sv_tasks sv) \<Longrightarrow> task_at sv i = NotBegun \<Longrightarrow>
     runtime_step S B sv (task_begin B sid now i sv)"
| call: "ref < length (sv_store sv) \<Longrightarrow> call_step B (sv_store sv ! ref, sv_calls sv ! ref) (s, cs) \<Longrightarrow>
     runtime_step S B sv (sv\<lparr>sv_store := (sv_store sv)[ref := s], sv_calls := (sv_calls sv)[ref := cs]\<rparr>)"
| unlist: "i < length (sv_tasks sv) \<Longrightarrow> task_at sv i = InSession ref \<Longrightarrow> runtime_step S B sv (task_unlist i ref sv)"
| count_out: "i < length (sv_tasks sv) \<Longrightarrow> task_at sv i = Unlisted \<Longrightarrow> runtime_step S B sv (task_count_out i sv)"
| finish: "i < length (sv_tasks sv) \<Longrightarrow> task_at sv i = CountedOut \<Longrightarrow> runtime_step S B sv (set_task i Finished sv)"
| dropped: "i < length (sv_tasks sv) \<Longrightarrow> is_abortable (task_at sv i) \<Longrightarrow> runtime_step S B sv (set_task i Aborted sv)"

text \<open>The tasks, and the server's own calls in their parts.\<close>

inductive server_step ::
  "'s semaphore_ops \<Rightarrow> 'b bytes_mut \<Rightarrow> ('s, 'r, 'w, 'b) TcpServer \<Rightarrow> ('s, 'r, 'w, 'b) TcpServer \<Rightarrow> bool" for S B where
  runtime: "runtime_step S B sv sv' \<Longrightarrow> server_step S B sv sv'"
| start: "server_step S B sv (snd (TcpServer_start parse_addr (bind :: string \<Rightarrow> string + unit) sv))"
| stop_signal: "server_step S B sv ((TcpServer_stop_signal sv)\<lparr>server_task := False\<rparr>)"
| stop_cleanup: "server_step S B sv (sv\<lparr>cleanup_task := False\<rparr>)"
| stop_clear: "server_step S B sv (TcpServer_clear_sessions sv)"
| stop_abort: "server_step S B sv ((TcpServer_abort_tasks sv)\<lparr>running := False\<rparr>)"
| drop_server: "server_step S B sv (TcpServer_drop sv)"

inductive_cases runtime_stepE: "runtime_step S B sv sv'"

definition is_counted :: "task_state \<Rightarrow> bool" where
  "is_counted t \<longleftrightarrow> t \<noteq> CountedOut \<and> t \<noteq> Finished"

definition tasks_where :: "(task_state \<Rightarrow> bool) \<Rightarrow> ('s, 'r, 'w, 'b) TcpServer \<Rightarrow> nat" where
  "tasks_where P sv = length (filter (\<lambda>(_, _, t). P t) (sv_tasks sv))"

text \<open>
  Between two turns of the accept loop every permit is available; the counter counts the
  tasks that have not counted themselves out; a task that can still be dropped has a handle
  in the server or has been asked to abort; and the calls on each session exclude each other.
\<close>

definition server_core :: "ServerConfig \<Rightarrow> 's semaphore_ops \<Rightarrow> ('s, 'r, 'w, 'b) TcpServer \<Rightarrow> bool" where
  "server_core config S sv \<longleftrightarrow>
     sv_config sv = config \<and> max_connections config \<le> MAX_PERMITS \<and>
     sem_available S (connection_semaphore sv) = max_connections config \<and>
     \<not> sem_is_closed S (connection_semaphore sv) \<and>
     connection_count sv = of_nat (tasks_where is_counted sv)"

definition tasks_known :: "('s, 'r, 'w, 'b) TcpServer \<Rightarrow> bool" where
  "tasks_known sv \<longleftrightarrow> (\<forall>i < length (sv_tasks sv). is_abortable (task_at sv i) \<longrightarrow> i \<in> set (session_tasks sv) \<union> set (sv_aborts sv))"

definition calls_ok :: "('s, 'r, 'w, 'b) TcpServer \<Rightarrow> bool" where
  "calls_ok sv \<longleftrightarrow> length (sv_calls sv) = length (sv_store sv) \<and>
     (\<forall>ref < length (sv_store sv). shared_inv (sv_store sv ! ref, sv_calls sv ! ref))"

definition server_inv :: "ServerConfig \<Rightarrow> 's semaphore_ops \<Rightarrow> ('s, 'r, 'w, 'b) TcpServer \<Rightarrow> bool" where
  "server_inv config S sv \<longleftrightarrow> server_core config S sv \<and> tasks_known sv \<and> calls_ok sv"

lemma not_abortable [simp]:
  "\<not> is_abortable Aborted" "\<not> is_abortable Finished" "\<not> is_abortable CountedOut" "\<not> is_abortable Unlisted"
  "is_abortable NotBegun" "is_abortable (InSession ref)"
  by (simp_all add: is_abortable_def)

lemma is_counted_simps [simp]:
  "\<not> is_counted CountedOut" "\<not> is_counted Finished" "is_counted NotBegun" "is_counted (InSession ref)"
  "is_counted Unlisted" "is_counted Aborted"
  by (simp_all add: is_counted_def)

lemma abortable_counted: "is_abortable t \<Longrightarrow> is_counted t \<and> \<not> task_is_finished t"
  by (auto simp: is_abortable_def task_is_finished_def)

lemma tasks_where_set_task:
  "i < length (sv_tasks sv) \<Longrightarrow>
   tasks_where P (set_task i t sv) + (if P (task_at sv i) then 1 else 0) = tasks_where P sv + (if P t then 1 else 0)"
proof -
  obtain conn addr u where at: "sv_tasks sv ! i = (conn, addr, u)" by (rule prod_cases3)
  assume "i < length (sv_tasks sv)"
  from length_filter_update [OF this, of "\<lambda>(_, _, t). P t" "(conn, addr, t)"] at show ?thesis
    by (simp add: tasks_where_def set_task_def task_at_def)
qed

lemma tasks_where_set_same:
  "i < length (sv_tasks sv) \<Longrightarrow> P t = P (task_at sv i) \<Longrightarrow> tasks_where P (set_task i t sv) = tasks_where P sv"
  using tasks_where_set_task [of i sv P t] by (simp split: if_splits)

lemma task_at_set: "task_at (set_task i t sv) j = (if j = i \<and> i < length (sv_tasks sv) then t else task_at sv j)"
  by (auto simp: task_at_def set_task_def nth_list_update list_update_beyond not_less split: prod.splits)

lemma set_task_frame [simp]:
  "sv_config (set_task i t sv) = sv_config sv" "connection_semaphore (set_task i t sv) = connection_semaphore sv"
  "connection_count (set_task i t sv) = connection_count sv" "session_tasks (set_task i t sv) = session_tasks sv"
  "length (sv_tasks (set_task i t sv)) = length (sv_tasks sv)" "sessions (set_task i t sv) = sessions sv"
  "running (set_task i t sv) = running sv" "sv_store (set_task i t sv) = sv_store sv"
  "sv_calls (set_task i t sv) = sv_calls sv" "sv_aborts (set_task i t sv) = sv_aborts sv"
  "accepting (set_task i t sv) = accepting sv" "cleaning (set_task i t sv) = cleaning sv"
  by (auto simp: set_task_def split: prod.splits)

text \<open>Operations that touch only sessions and flags.\<close>

definition same_core :: "('s, 'r, 'w, 'b) TcpServer \<Rightarrow> ('s, 'r, 'w, 'b) TcpServer \<Rightarrow> bool" where
  "same_core sv sv' \<longleftrightarrow>
     sv_config sv' = sv_config sv \<and> connection_semaphore sv' = connection_semaphore sv \<and>
     connection_count sv' = connection_count sv \<and> sv_tasks sv' = sv_tasks sv \<and>
     set (session_tasks sv) \<union> set (sv_aborts sv) = set (session_tasks sv') \<union> set (sv_aborts sv')"

lemma same_core_inv: "same_core sv sv' \<Longrightarrow> calls_ok sv' \<Longrightarrow> server_inv config S sv \<Longrightarrow> server_inv config S sv'"
  by (simp add: same_core_def server_inv_def server_core_def tasks_known_def tasks_where_def task_at_def)

lemma same_calls_ok: "sv_store sv' = sv_store sv \<Longrightarrow> sv_calls sv' = sv_calls sv \<Longrightarrow> calls_ok sv' = calls_ok sv"
  by (simp add: calls_ok_def)

lemma calls_ok_update:
  assumes "calls_ok sv" "ref < length (sv_store sv) \<Longrightarrow> shared_inv (s, cs)"
    and "sv_store sv' = (sv_store sv)[ref := s]" "sv_calls sv' = (sv_calls sv)[ref := cs]"
  shows "calls_ok sv'"
proof -
  have "shared_inv ((sv_store sv)[ref := s] ! r, (sv_calls sv)[ref := cs] ! r)" if "r < length (sv_store sv)" for r
    using assms(1,2) that by (cases "r = ref") (simp_all add: calls_ok_def)
  with assms(1,3,4) show ?thesis by (simp add: calls_ok_def)
qed

lemma abort_tasks_frame [simp]:
  "sv_config (TcpServer_abort_tasks sv) = sv_config sv"
  "connection_semaphore (TcpServer_abort_tasks sv) = connection_semaphore sv"
  "connection_count (TcpServer_abort_tasks sv) = connection_count sv"
  "sv_tasks (TcpServer_abort_tasks sv) = sv_tasks sv" "sessions (TcpServer_abort_tasks sv) = sessions sv"
  "sv_store (TcpServer_abort_tasks sv) = sv_store sv" "sv_calls (TcpServer_abort_tasks sv) = sv_calls sv"
  "session_tasks (TcpServer_abort_tasks sv) = []" "running (TcpServer_abort_tasks sv) = running sv"
  "accepting (TcpServer_abort_tasks sv) = accepting sv" "cleaning (TcpServer_abort_tasks sv) = cleaning sv"
  by (simp_all add: TcpServer_abort_tasks_def Let_def)

lemma task_at_abort_tasks [simp]: "task_at (TcpServer_abort_tasks sv) = task_at sv"
  by (simp add: fun_eq_iff task_at_def)

lemma tasks_known_abort: "tasks_known sv \<Longrightarrow> tasks_known (TcpServer_abort_tasks sv)"
  using abortable_counted by (auto simp: tasks_known_def) (auto simp: TcpServer_abort_tasks_def Let_def task_at_def)

lemma on_session_frame [simp]:
  "sessions (on_session ref f sv) = sessions sv" "length (sv_store (on_session ref f sv)) = length (sv_store sv)"
  "sv_store (on_session ref f sv) = (sv_store sv)[ref := f (sv_store sv ! ref)]"
  by (simp_all add: on_session_def)

lemma fold_session_frame [simp]:
  "sessions (fold (\<lambda>ref. on_session ref (f ref)) refs sv) = sessions sv"
  "length (sv_store (fold (\<lambda>ref. on_session ref (f ref)) refs sv)) = length (sv_store sv)"
  by (induction refs arbitrary: sv) simp_all

lemma set_inactive_calls_ok:
  "calls_ok sv \<Longrightarrow> calls_ok (fold (\<lambda>ref. on_session ref Session_set_inactive) refs sv)"
proof (induction refs arbitrary: sv)
  case (Cons r refs)
  have "calls_ok (on_session r Session_set_inactive sv)"
  proof (rule calls_ok_update [OF Cons.prems])
    show "shared_inv (Session_set_inactive (sv_store sv ! r), sv_calls sv ! r)" if "r < length (sv_store sv)"
      by (rule shared_step_inv [OF call_step.inactive]) (use Cons.prems that in \<open>simp add: calls_ok_def\<close>)
  qed (simp_all add: on_session_def)
  with Cons.IH show ?case by simp
qed simp

lemma same_core_trans: "same_core a b \<Longrightarrow> same_core b c \<Longrightarrow> same_core a c"
  by (simp add: same_core_def)

lemma same_core_fold_session: "same_core sv (fold (\<lambda>ref. on_session ref (f ref)) refs sv)"
proof (induction refs arbitrary: sv)
  case (Cons r refs)
  have "same_core sv (on_session r (f r) sv)" by (simp add: same_core_def on_session_def)
  with Cons show ?case by (auto intro: same_core_trans)
qed (simp add: same_core_def)

lemma server_inv_abort_tasks: "server_inv config S sv \<Longrightarrow> server_inv config S (TcpServer_abort_tasks sv)"
  by (simp add: server_inv_def server_core_def tasks_where_def calls_ok_def tasks_known_abort)

lemma server_inv_flags:
  assumes "server_inv config S sv" "same_core sv sv'" "sv_store sv' = sv_store sv" "sv_calls sv' = sv_calls sv"
  shows "server_inv config S sv'"
  using assms same_calls_ok [OF assms(3,4)] by (intro same_core_inv [OF assms(2)]) (simp_all add: server_inv_def)

lemma server_inv_drop:
  assumes "server_inv config S sv"
  shows "server_inv config S (TcpServer_drop sv)"
proof (cases "running sv")
  case True
  let ?sv = "TcpServer_abort_tasks (sv\<lparr>sv_shutdown_tx := False, server_task := False, cleanup_task := False\<rparr>)"
  let ?sv2 = "fold (\<lambda>ref. on_session ref Session_set_inactive) (sessions ?sv) ?sv"
  have "server_inv config S ?sv"
    using assms by (intro server_inv_abort_tasks server_inv_flags [OF assms]) (simp_all add: same_core_def)
  then have "server_inv config S ?sv2"
    by (intro same_core_inv [OF same_core_fold_session]) (simp_all add: set_inactive_calls_ok server_inv_def)
  then have "server_inv config S (?sv2\<lparr>sessions := [], running := False\<rparr>)"
    by (rule server_inv_flags) (simp_all add: same_core_def)
  with True show ?thesis by (simp add: TcpServer_drop_def Let_def)
qed (use assms in \<open>simp add: TcpServer_drop_def\<close>)

context semaphore
begin

text \<open>A connection is accepted as long as there is one permit, and the permit comes back at once.\<close>

lemma accept_outcome:
  assumes "server_core config S sv"
  shows "server_core config S (TcpServer_accept S into_std from_std (Inr (conn, addr)) sv) \<and>
    (let sv' = TcpServer_accept S into_std from_std (Inr (conn, addr)) sv in
     if max_connections config = 0 then sv' = sv
     else if sv_keep_alive config \<noteq> None \<and> \<not> (into_std \<and> from_std)
     then sv_tasks sv' = sv_tasks sv \<and> connection_count sv' = connection_count sv
     else sv_tasks sv' = sv_tasks sv @ [(conn, addr, NotBegun)] \<and> connection_count sv' = connection_count sv + 1)"
proof (cases "max_connections config = 0")
  case True
  with assms no_permits [of "connection_semaphore sv"] show ?thesis
    by (simp add: TcpServer_accept_def server_core_def)
next
  case False
  then obtain sem where sem: "sem_try_acquire S (connection_semaphore sv) = Acquired sem"
    using assms permits [of "connection_semaphore sv"] by (auto simp: server_core_def)
  have "sem_available S (sem_add_permits S 1 sem) = max_connections config" "\<not> sem_is_closed S (sem_add_permits S 1 sem)"
    using assms acquired_available [OF sem] acquired_open [OF sem] available_add [of sem 1] open_add [of sem 1]
    by (simp_all add: server_core_def)
  with sem assms False show ?thesis
    by (simp add: TcpServer_accept_def TcpServer_track_def TcpServer_handle_connection_def release_permit_def
        server_core_def tasks_where_def Let_def)
qed

lemma server_core_accept:
  assumes "server_core config S sv"
  shows "server_core config S (TcpServer_accept S into_std from_std accepted sv)"
proof (cases accepted)
  case (Inr p)
  with conjunct1 [OF accept_outcome [OF assms]] show ?thesis by (cases p) simp
qed (use assms in \<open>simp add: TcpServer_accept_def\<close>)

lemma tasks_known_accept: "tasks_known sv \<Longrightarrow> tasks_known (TcpServer_accept S into_std from_std accepted sv)"
  by (auto simp: tasks_known_def TcpServer_accept_def TcpServer_track_def TcpServer_handle_connection_def
      release_permit_def task_at_def nth_append less_Suc_eq Let_def task_is_finished_def
      split: sum.splits try_acquire.splits dest: abortable_counted)

lemma accept_frame:
  "sv_store (TcpServer_accept S into_std from_std accepted sv) = sv_store sv"
  "sv_calls (TcpServer_accept S into_std from_std accepted sv) = sv_calls sv"
  "sessions (TcpServer_accept S into_std from_std accepted sv) = sessions sv"
  "running (TcpServer_accept S into_std from_std accepted sv) = running sv"
  "cleaning (TcpServer_accept S into_std from_std accepted sv) = cleaning sv"
  "accepting (TcpServer_accept S into_std from_std accepted sv) = accepting sv"
  by (simp_all add: TcpServer_accept_def TcpServer_track_def TcpServer_handle_connection_def release_permit_def Let_def
      split: sum.split try_acquire.split)

lemma server_inv_task:
  assumes "server_inv config S sv" "i < length (sv_tasks sv)" "is_counted t = is_counted (task_at sv i)"
    and "is_abortable t \<longrightarrow> is_abortable (task_at sv i)"
  shows "server_inv config S (set_task i t sv)"
  using assms tasks_where_set_same [OF assms(2), of is_counted t]
  by (auto simp: server_inv_def server_core_def tasks_known_def calls_ok_def task_at_set)

lemma server_inv_count_out:
  assumes "server_inv config S sv" "i < length (sv_tasks sv)" "task_at sv i = Unlisted"
  shows "server_inv config S (task_count_out i sv)"
proof -
  have at: "task_at (sv\<lparr>connection_count := n\<rparr>) = task_at sv"
    "tasks_where P (set_task j t (sv\<lparr>connection_count := n\<rparr>)) = tasks_where P (set_task j t sv)" for P j t n
    by (auto simp: task_at_def tasks_where_def set_task_def split: prod.split)
  have "tasks_where is_counted sv = Suc (tasks_where is_counted (set_task i CountedOut sv))"
    using tasks_where_set_task [of i sv is_counted CountedOut] assms(2,3) by simp
  with assms show ?thesis
    by (auto simp: task_count_out_def server_inv_def server_core_def tasks_known_def calls_ok_def task_at_set at)
qed

lemma runtime_step_inv:
  assumes "runtime_step S B sv sv'" "server_inv config S sv"
  shows "server_inv config S sv'"
  using assms(1)
proof (cases rule: runtime_step.cases)
  case (accept into_std from_std accepted)
  then show ?thesis
    using assms(2) by (simp add: server_inv_def calls_ok_def accept_frame server_core_accept tasks_known_accept)
next
  case (begin_task i sid now)
  obtain conn addr u where at: "sv_tasks sv ! i = (conn, addr, u)" by (rule prod_cases3)
  let ?new = "Session_new B sid now conn addr (sv_read_timeout (sv_config sv)) (sv_write_timeout (sv_config sv))
                (sv_idle_timeout (sv_config sv))"
  let ?sv = "sv\<lparr>sv_store := sv_store sv @ [?new], sv_calls := sv_calls sv @ [[]], sessions := sessions sv @ [length (sv_store sv)]\<rparr>"
  have "calls_ok ?sv"
    using assms(2) shared_inv_new [of B sid now conn]
    by (auto simp: server_inv_def calls_ok_def nth_append less_Suc_eq simp del: split_paired_All)
  then have "server_inv config S ?sv" by (rule same_core_inv [rotated, OF _ assms(2)]) (auto simp: same_core_def)
  with begin_task at show ?thesis
    by (auto simp: task_begin_def Let_def task_at_def intro!: server_inv_task)
next
  case (call ref s cs)
  then have "shared_inv (s, cs)"
    using assms(2) by (intro shared_step_inv [OF call(3)]) (simp add: server_inv_def calls_ok_def)
  moreover have "calls_ok sv" using assms(2) by (simp add: server_inv_def)
  ultimately have "calls_ok sv'" by (intro calls_ok_update [of sv ref s cs sv']) (simp_all add: call(1))
  then show ?thesis by (rule same_core_inv [rotated, OF _ assms(2)]) (simp add: call(1) same_core_def)
next
  case (unlist i ref)
  let ?sv = "sv\<lparr>sessions := filter (\<lambda>r. r \<noteq> ref) (sessions sv)\<rparr>"
  have "server_inv config S ?sv"
    by (rule server_inv_flags [OF assms(2)]) (simp_all add: same_core_def)
  with unlist show ?thesis by (auto simp: task_unlist_def task_at_def intro!: server_inv_task)
next
  case (count_out i)
  then show ?thesis using server_inv_count_out [OF assms(2)] by simp
next
  case (finish i)
  then show ?thesis using assms(2) by (auto intro!: server_inv_task)
next
  case (dropped i)
  then show ?thesis using assms(2) abortable_counted by (auto intro!: server_inv_task)
qed (use server_inv_flags [OF assms(2)] in
    \<open>auto simp: TcpServer_accept_loop_end_def TcpServer_cleanup_end_def same_core_def\<close>)

lemma server_step_inv:
  assumes "server_step S B sv sv'" "server_inv config S sv"
  shows "server_inv config S sv'"
  using assms(1)
proof (cases rule: server_step.cases)
  case runtime
  then show ?thesis by (rule runtime_step_inv) (rule assms(2))
next
  case stop_abort
  then show ?thesis
    using server_inv_flags [OF server_inv_abort_tasks [OF assms(2)]] by (simp add: same_core_def)
next
  case drop_server
  then show ?thesis using server_inv_drop [OF assms(2)] by simp
next
  case (start parse_addr bind)
  then show ?thesis
    using server_inv_flags [OF assms(2), of sv'] by (auto simp: same_core_def TcpServer_start_def split: sum.splits)
qed (use server_inv_flags [OF assms(2)] in
    \<open>auto simp: TcpServer_stop_signal_def TcpServer_clear_sessions_def same_core_def\<close>)

end

interpretation server: step_system "server_step S B" "\<lambda>sv. semaphore S \<longrightarrow> server_inv config S sv"
  by unfold_locales (blast intro: semaphore.server_step_inv)

lemma server_reachable_inv:
  assumes "semaphore S" "max_connections config \<le> MAX_PERMITS"
    and "(server_step S B)\<^sup>*\<^sup>* (TcpServer_with_config S config) sv"
  shows "server_inv config S sv"
proof -
  have "server_inv config S (TcpServer_with_config S config)"
    using semaphore.available_new [OF assms(1,2)] semaphore.open_new [OF assms(1,2)] assms(2)
    by (simp add: server_inv_def server_core_def tasks_known_def calls_ok_def TcpServer_with_config_def tasks_where_def)
  with server.steps_inv [OF assms(3), of config] assms(1) show ?thesis by blast
qed

text \<open>The listed sessions exist, and none is listed twice.\<close>

definition listed_ok :: "('s, 'r, 'w, 'b) TcpServer \<Rightarrow> bool" where
  "listed_ok sv \<longleftrightarrow> distinct (sessions sv) \<and> (\<forall>ref \<in> set (sessions sv). ref < length (sv_store sv))"

lemma accept_listed: "listed_ok (TcpServer_accept S into_std from_std accepted sv) = listed_ok sv"
  by (simp add: listed_ok_def TcpServer_accept_def TcpServer_track_def TcpServer_handle_connection_def release_permit_def
      Let_def split: sum.split try_acquire.split)

lemma runtime_step_listed: "runtime_step S B sv sv' \<Longrightarrow> listed_ok sv \<Longrightarrow> listed_ok sv'"
  by (cases rule: runtime_step.cases)
     (auto simp: accept_listed, auto simp: listed_ok_def TcpServer_accept_loop_end_def TcpServer_cleanup_end_def
        task_begin_def task_unlist_def task_count_out_def Let_def less_Suc_eq split: prod.splits)

lemma server_step_listed:
  assumes "server_step S B sv sv'" "listed_ok sv"
  shows "listed_ok sv'"
  using assms(1)
proof (cases rule: server_step.cases)
  case runtime
  then show ?thesis using runtime_step_listed assms(2) by blast
qed (use assms(2) in \<open>auto simp: listed_ok_def TcpServer_start_def TcpServer_stop_signal_def TcpServer_clear_sessions_def
      TcpServer_drop_def Let_def split: sum.splits\<close>)

interpretation listing: step_system "server_step S B" listed_ok
  by unfold_locales (rule server_step_listed)

lemma server_reachable_listed:
  "(server_step S B)\<^sup>*\<^sup>* (TcpServer_with_config S config) sv \<Longrightarrow> listed_ok sv"
  by (erule listing.steps_inv) (simp add: listed_ok_def TcpServer_with_config_def)

section \<open>The progress of a session task\<close>

text \<open>The stages of a task; the two ways to end come last.\<close>

primrec task_rank :: "task_state \<Rightarrow> nat" where
  "task_rank NotBegun = 0"
| "task_rank (InSession ref) = 1"
| "task_rank Unlisted = 2"
| "task_rank CountedOut = 3"
| "task_rank Finished = 4"
| "task_rank Aborted = 4"

instantiation task_state :: preorder
begin

definition less_eq_task_state :: "task_state \<Rightarrow> task_state \<Rightarrow> bool" where
  "s \<le> t \<longleftrightarrow> s = t \<or> task_rank s < task_rank t"

definition less_task_state :: "task_state \<Rightarrow> task_state \<Rightarrow> bool" where
  "s < t \<longleftrightarrow> task_rank s < task_rank t"

instance
  by standard (auto simp: less_eq_task_state_def less_task_state_def)

end

definition tasks_advance :: "('s, 'r, 'w, 'b) TcpServer \<Rightarrow> ('s, 'r, 'w, 'b) TcpServer \<Rightarrow> bool" where
  "tasks_advance sv sv' \<longleftrightarrow> length (sv_tasks sv) \<le> length (sv_tasks sv') \<and>
     (\<forall>i < length (sv_tasks sv). task_at sv i \<le> task_at sv' i)"

lemma tasks_advance_same: "sv_tasks sv' = sv_tasks sv \<Longrightarrow> tasks_advance sv sv'"
  by (simp add: tasks_advance_def task_at_def)

lemma tasks_advance_trans: "tasks_advance a b \<Longrightarrow> tasks_advance b c \<Longrightarrow> tasks_advance a c"
  by (auto simp: tasks_advance_def intro: order_trans)

lemma tasks_advance_set:
  "task_at sv i \<le> t \<Longrightarrow> sv_tasks sv1 = sv_tasks sv \<Longrightarrow> tasks_advance sv (set_task i t sv1)"
  by (auto simp: tasks_advance_def task_at_set) (simp_all add: task_at_def)

lemma drop_tasks: "sv_tasks (TcpServer_drop sv) = sv_tasks sv"
  using same_core_fold_session [of "TcpServer_abort_tasks (sv\<lparr>sv_shutdown_tx := False, server_task := False, cleanup_task := False\<rparr>)"
      "\<lambda>_. Session_set_inactive" "sessions sv"]
  by (simp add: TcpServer_drop_def Let_def same_core_def)

lemma runtime_step_advances: "runtime_step S B sv sv' \<Longrightarrow> tasks_advance sv sv'"
proof (induction rule: runtime_step.induct)
  case (accept sv into_std from_std accepted)
  show ?case
    by (auto simp: TcpServer_accept_def TcpServer_track_def TcpServer_handle_connection_def release_permit_def Let_def
        tasks_advance_def task_at_def nth_append split: sum.splits try_acquire.splits)
next
  case (begin_task i sv sid now)
  then show ?case
    by (auto simp: task_begin_def Let_def less_eq_task_state_def split: prod.splits intro!: tasks_advance_set)
next
  case (unlist i sv ref)
  then show ?case by (auto simp: task_unlist_def less_eq_task_state_def intro!: tasks_advance_set)
next
  case (count_out i sv)
  then show ?case by (auto simp: task_count_out_def less_eq_task_state_def intro!: tasks_advance_set)
next
  case (finish i sv)
  then show ?case by (auto simp: less_eq_task_state_def intro!: tasks_advance_set)
next
  case (dropped i sv)
  then show ?case by (auto simp: less_eq_task_state_def is_abortable_def intro!: tasks_advance_set)
qed (simp_all add: tasks_advance_same TcpServer_accept_loop_end_def TcpServer_cleanup_end_def)

lemma server_step_advances: "server_step S B sv sv' \<Longrightarrow> tasks_advance sv sv'"
  by (cases rule: server_step.cases, assumption, erule runtime_step_advances)
     (auto simp: drop_tasks TcpServer_start_def TcpServer_stop_signal_def TcpServer_clear_sessions_def
        intro!: tasks_advance_same split: sum.splits)

text \<open>
  A task only moves forward, and one that has ended stays ended, in every interleaving: no
  session is ever served again.
\<close>

lemma server_tasks_advance:
  assumes "(server_step S B)\<^sup>*\<^sup>* sv sv'"
  shows "tasks_advance sv sv' \<and>
    (\<forall>i < length (sv_tasks sv). task_is_finished (task_at sv i) \<longrightarrow> task_at sv' i = task_at sv i)"
proof -
  have adv: "tasks_advance sv sv'"
    using assms by (induction rule: rtranclp_induct)
      (auto intro: tasks_advance_same tasks_advance_trans server_step_advances)
  have "task_rank t \<le> 4" for t by (cases t) simp_all
  with adv show ?thesis
    by (auto simp: tasks_advance_def less_eq_task_state_def task_is_finished_def dest!: spec) (metis not_le task_rank.simps(5,6))+
qed

section \<open>The session loop\<close>

text \<open>
  The calls of \<open>receive\<close> come soon enough after one another: each begins within the idle
  timeout of the end of the one before, and none reaches the assembly timeout.
\<close>

fun prompt_calls :: "duration \<Rightarrow> duration \<Rightarrow> instant \<Rightarrow> call_times list \<Rightarrow> bool" where
  "prompt_calls idle assembly t0 [] \<longleftrightarrow> True"
| "prompt_calls idle assembly t0 ((clock, now, now') # calls) \<longleftrightarrow>
     elapsed now t0 \<le> idle \<and> (\<forall>j. clock j < assembly) \<and> prompt_calls idle assembly now' calls"

text \<open>A handler that only sends, with a clock that does not go back.\<close>

definition sending_handler :: "('r, 'w, 'b, 'h) message_callback \<Rightarrow> bool" where
  "sending_handler on_message \<longleftrightarrow>
     (\<forall>t s m h. \<forall>e \<in> set (fst (on_message t s m h)). \<exists>write_all now now' reply. e = Send write_all now now' reply \<and> t \<le> now')"

text \<open>What such a handler leaves of a session.\<close>

definition same_reader :: "instant \<Rightarrow> ('r, 'w, 'b) Session \<Rightarrow> ('r, 'w, 'b) Session \<Rightarrow> bool" where
  "same_reader t s s' \<longleftrightarrow>
     sess_active s' = sess_active s \<and> read_half s' = read_half s \<and> read_buffer s' = read_buffer s \<and>
     sess_read_timeout s' = sess_read_timeout s \<and> sess_idle_timeout s' = sess_idle_timeout s \<and>
     t \<le> last_activity s'"

lemma send_same_reader:
  "t \<le> last_activity s \<Longrightarrow> t \<le> now' \<Longrightarrow> same_reader t s (snd (Session_send B write_all now now' m s))"
  by (auto simp: same_reader_def Session_send_def Session_update_activity_def Let_def
        split: sum.splits option.splits prod.splits)

lemma sends_same_reader:
  assumes "\<forall>e \<in> set es. \<exists>write_all now now' reply. e = Send write_all now now' reply \<and> t \<le> now'" "t \<le> last_activity s"
  shows "same_reader t s (fold (session_apply B) es s)"
  using assms
proof (induction es arbitrary: s)
  case (Cons e es)
  then obtain write_all now now' reply where e: "e = Send write_all now now' reply" "t \<le> now'" by auto
  let ?s = "session_apply B e s"
  have "same_reader t s ?s" using send_same_reader [OF Cons.prems(2) e(2)] by (simp add: e(1))
  with Cons.IH [of ?s] Cons.prems(1) show ?case by (simp add: same_reader_def)
qed (simp add: same_reader_def)

lemma idle_mono: "elapsed now t \<le> d \<Longrightarrow> t \<le> t' \<Longrightarrow> elapsed now t' \<le> d"
  by (simp add: elapsed_def)

context bytes_buffer
begin

lemma session_receive_closed_by_peer:
  assumes "Session_is_active s" "\<not> Session_is_idle now s" "read_half s \<noteq> None"
    and "sess_read_timeout s * 3 \<le> duration_max" "\<And>j. clock j < sess_read_timeout s * 3"
    and "bm_slice B (read_buffer s) = []"
  shows "\<exists>s'. Session_receive B clock now now' [Completed (Inr [])] s = Returned (Some (Inl closed_by_peer_error), s', [])"
proof -
  have "fst (Message_decode B (read_buffer s)) = Inr None"
    by (simp add: fst_decode assms(6) frame_decode_def HEADER_SIZE_def)
  then have "Message_decode B (read_buffer s) = (Inr None, read_buffer s)"
    using Message_decode_None [of B "read_buffer s"] by (metis prod.collapse)
  then have "\<exists>buf. receive_loop B (sess_read_timeout s * 3) clock 0 [Completed (Inr [])] (read_buffer s) =
      (Some (Inl closed_by_peer_error), buf, [])"
    using assms(5) [of 0] assms(6) by (subst receive_loop.simps) (simp add: MAX_BUFFER_SIZE_def Let_def)
  with assms(1-4) show ?thesis by (auto simp: Session_receive_def Let_def)
qed

lemma session_loop_delivers:
  assumes "\<forall>m \<in> set ms. Message_fits m" "sending_handler on_message" "length ms < length calls"
    and "sess_active s" "read_half s \<noteq> None" "sess_read_timeout s * 3 \<le> duration_max"
    and "t \<le> last_activity s" "prompt_calls (sess_idle_timeout s) (sess_read_timeout s * 3) t calls"
    and "chunk_reads reads" "bm_slice B (read_buffer s) @ read_bytes reads = concat (map Message_frame ms)"
  shows "\<exists>s' h'. session_loop B on_message calls (reads @ [Completed (Inr [])]) s h = (ms, Broke closed_by_peer_error, s', h')"
  using assms
proof (induction ms arbitrary: calls reads s t h)
  case Nil
  then have "reads = []" by (cases reads) auto
  moreover obtain clock now now' rest where calls: "calls = (clock, now, now') # rest"
    using Nil.prems(3) by (cases calls) auto
  moreover have "\<not> Session_is_idle now s"
    using Nil.prems(7,8) idle_mono [of now t] calls by (auto simp: Session_is_idle_def not_less)
  ultimately show ?case
    using session_receive_closed_by_peer [of s now clock now'] Nil.prems
    by (auto simp: Session_is_active_def)
next
  case (Cons m ms)
  obtain clock now now' rest where calls: "calls = (clock, now, now') # rest"
    using Cons.prems(3) by (cases calls) auto
  have idle: "\<not> Session_is_idle now s"
    using Cons.prems(7,8) idle_mono [of now t] calls by (auto simp: Session_is_idle_def not_less)
  have clock: "\<And>j. clock j < sess_read_timeout s * 3" using Cons.prems(8) calls by simp
  obtain buf reads' where
    recv: "Session_receive B clock now now' (reads @ [Completed (Inr [])]) s =
       Returned (Some (Inr m), s\<lparr>read_buffer := buf, last_activity := now'\<rparr>, reads' @ [Completed (Inr [])])"
    and reads': "chunk_reads reads'" "bm_slice B buf @ read_bytes reads' = concat (map Message_frame ms)"
    using session_receive_ok [where clock = clock and now = now and now' = now' and tail = "[Completed (Inr [])]"
        and m = m and rest = "concat (map Message_frame ms)" and s = s, OF _ idle Cons.prems(5,6) clock _ Cons.prems(9)]
      Cons.prems(1,4,10) by (auto simp: Session_is_active_def)
  let ?s1 = "s\<lparr>read_buffer := buf, last_activity := now'\<rparr>"
  obtain events h2 where h2: "on_message now' ?s1 m h = (events, h2)" by fastforce
  let ?s2 = "fold (session_apply B) events ?s1"
  have "\<forall>e \<in> set (fst (on_message now' ?s1 m h)).
      \<exists>write_all u u' reply. e = Send write_all u u' reply \<and> now' \<le> u'"
    using Cons.prems(2) unfolding sending_handler_def by blast
  then have "same_reader now' ?s1 ?s2" by (intro sends_same_reader) (simp_all add: h2)
  then have "\<exists>s' h'. session_loop B on_message rest (reads' @ [Completed (Inr [])]) ?s2 h2 =
      (ms, Broke closed_by_peer_error, s', h')"
    using Cons.IH [of rest ?s2 now' reads' h2] Cons.prems reads' calls by (simp add: same_reader_def)
  with recv show ?case by (auto simp: calls Let_def h2)
qed

end

section \<open>Stopping\<close>

text \<open>What the tasks never undo, nor \<open>stop\<close> itself.\<close>

definition keeps :: "('s, 'r, 'w, 'b) TcpServer \<Rightarrow> ('s, 'r, 'w, 'b) TcpServer \<Rightarrow> bool" where
  "keeps sv sv' \<longleftrightarrow>
     (\<not> running sv \<longrightarrow> \<not> running sv') \<and> (\<not> accepting sv \<longrightarrow> \<not> accepting sv') \<and> (\<not> cleaning sv \<longrightarrow> \<not> cleaning sv') \<and>
     length (sv_store sv) \<le> length (sv_store sv') \<and>
     (\<forall>ref < length (sv_store sv).
        length (sv_calls sv ! ref) \<le> length (sv_calls sv' ! ref) \<and>
        (session_shut (sv_store sv ! ref) \<longrightarrow> session_shut (sv_store sv' ! ref)))"

lemma keeps_refl: "keeps sv sv"
  by (simp add: keeps_def)

lemma keeps_trans: "keeps a b \<Longrightarrow> keeps b c \<Longrightarrow> keeps a c"
  unfolding keeps_def by (meson order_trans less_le_trans)

lemma runtime_step_keeps:
  assumes "runtime_step S B sv sv'" "calls_ok sv"
  shows "keeps sv sv'"
  using assms(1)
proof (cases rule: runtime_step.cases)
  case (accept into_std from_std accepted)
  then show ?thesis
    by (auto simp: keeps_def TcpServer_accept_def TcpServer_track_def TcpServer_handle_connection_def release_permit_def
        Let_def split: sum.split try_acquire.split)
next
  case (call ref s cs)
  have "shared_inv (sv_store sv ! ref, sv_calls sv ! ref)" "length (sv_calls sv) = length (sv_store sv)"
    using assms(2) call by (simp_all add: calls_ok_def)
  with call_step_closer [OF call(3)] session_shut_closer call show ?thesis
    by (auto simp: keeps_def nth_list_update)
next
  case (begin_task i sid now)
  then show ?thesis
    using assms(2) by (auto simp: keeps_def task_begin_def Let_def nth_append calls_ok_def split: prod.split)
qed (auto simp: keeps_def task_unlist_def task_count_out_def TcpServer_accept_loop_end_def TcpServer_cleanup_end_def)

lemma runtime_keeps:
  assumes "(runtime_step S B)\<^sup>*\<^sup>* sv sv'" "semaphore S" "server_inv config S sv"
  shows "keeps sv sv' \<and> server_inv config S sv'"
  using assms(1)
proof (induction rule: rtranclp_induct)
  case (step sv1 sv2)
  then have "keeps sv1 sv2" using runtime_step_keeps by (auto simp: server_inv_def)
  with step semaphore.runtime_step_inv [OF assms(2) step(2)] show ?case by (auto intro: keeps_trans)
qed (use assms(3) keeps_refl in simp)

lemma runtime_server: "(runtime_step S B)\<^sup>*\<^sup>* sv sv' \<Longrightarrow> (server_step S B)\<^sup>*\<^sup>* sv sv'"
  by (rule rtranclp_mono [THEN predicate2D]) (auto intro: server_step.runtime)

lemma begin_close_step:
  "ref < length (sv_store sv) \<Longrightarrow> runtime_step S B sv (TcpServer_begin_close ref sv)"
  unfolding TcpServer_begin_close_def by (rule runtime_step.call) (auto intro: call_step.start call_start.close)

text \<open>What the runtime does while \<open>stop\<close> waits is any run of the tasks.\<close>

definition runs_tasks ::
  "'s semaphore_ops \<Rightarrow> 'b bytes_mut \<Rightarrow> (nat \<Rightarrow> ('s, 'r, 'w, 'b) TcpServer \<Rightarrow> ('s, 'r, 'w, 'b) TcpServer) \<Rightarrow> bool" where
  "runs_tasks S B rt \<longleftrightarrow> (\<forall>k sv. (runtime_step S B)\<^sup>*\<^sup>* sv (rt k sv))"

lemma stop_wait_reaches:
  assumes "runs_tasks S B rt" "TcpServer_stop_wait rt sv = Some sv'"
  shows "(server_step S B)\<^sup>*\<^sup>* sv sv'"
proof -
  define sv1 where "sv1 = rt 0 ((TcpServer_stop_signal sv)\<lparr>server_task := False\<rparr>)"
  have "server_step S B sv ((TcpServer_stop_signal sv)\<lparr>server_task := False\<rparr>)" by (rule server_step.stop_signal)
  moreover have "(server_step S B)\<^sup>*\<^sup>* ((TcpServer_stop_signal sv)\<lparr>server_task := False\<rparr>) sv1"
    using assms(1) runtime_server unfolding runs_tasks_def sv1_def by blast
  moreover have "server_step S B sv1 (sv1\<lparr>cleanup_task := False\<rparr>)" by (rule server_step.stop_cleanup)
  moreover have "(server_step S B)\<^sup>*\<^sup>* (sv1\<lparr>cleanup_task := False\<rparr>) (rt 1 (sv1\<lparr>cleanup_task := False\<rparr>))"
    using assms(1) runtime_server unfolding runs_tasks_def by blast
  moreover have "sv' = rt 1 (sv1\<lparr>cleanup_task := False\<rparr>)"
    using assms(2) by (auto simp: TcpServer_stop_wait_def sv1_def Let_def split: if_splits)
  ultimately show ?thesis by (meson rtranclp.rtrancl_into_rtrancl rtranclp_trans converse_rtranclp_into_rtranclp)
qed

lemma stop_wait_ended:
  assumes "semaphore S" "runs_tasks S B rt" "TcpServer_stop_wait rt sv = Some sv'" "server_inv config S sv"
  shows "\<not> running sv' \<and> \<not> accepting sv' \<and> \<not> cleaning sv'"
proof -
  define sv0 where "sv0 = (TcpServer_stop_signal sv)\<lparr>server_task := False\<rparr>"
  define sv1 where "sv1 = rt 0 sv0"
  define sv2 where "sv2 = sv1\<lparr>cleanup_task := False\<rparr>"
  have "server_inv config S sv0"
    by (rule server_inv_flags [OF assms(4)]) (simp_all add: sv0_def TcpServer_stop_signal_def same_core_def)
  then have sv1: "keeps sv0 sv1" "server_inv config S sv1"
    using runtime_keeps [OF _ assms(1)] assms(2) unfolding runs_tasks_def sv1_def by blast+
  have "server_inv config S sv2" by (rule server_inv_flags [OF sv1(2)]) (simp_all add: sv2_def same_core_def)
  then have "keeps sv2 (rt 1 sv2)"
    using runtime_keeps [OF _ assms(1)] assms(2) unfolding runs_tasks_def by blast
  moreover have "\<not> running sv0" by (simp add: sv0_def TcpServer_stop_signal_def)
  moreover have "sv' = rt 1 sv2" "\<not> accepting sv1" "\<not> cleaning sv'"
    using assms(3) by (auto simp: TcpServer_stop_wait_def sv0_def sv1_def sv2_def Let_def split: if_splits)
  ultimately show ?thesis using sv1(1) by (simp add: keeps_def sv2_def)
qed

lemma stop_close_closes:
  assumes "semaphore S" "runs_tasks S B rt" "TcpServer_stop_close rt k refs sv = Some sv'"
    and "server_inv config S sv" "\<forall>ref \<in> set refs. ref < length (sv_store sv)"
  shows "(runtime_step S B)\<^sup>*\<^sup>* sv sv' \<and> (\<forall>ref \<in> set refs. session_shut (sv_store sv' ! ref))"
  using assms(2-5)
proof (induction rt k refs sv rule: TcpServer_stop_close.induct)
  case (2 rt k ref refs sv)
  let ?sv1 = "TcpServer_begin_close ref sv"
  let ?sv2 = "rt k ?sv1"
  have ref: "ref < length (sv_store sv)" and calls: "length (sv_calls sv) = length (sv_store sv)"
    using 2(4,5) by (simp_all add: server_inv_def calls_ok_def)
  have steps: "(runtime_step S B)\<^sup>*\<^sup>* sv ?sv1" "(runtime_step S B)\<^sup>*\<^sup>* ?sv1 ?sv2"
    using begin_close_step [OF ref] 2(2) by (auto simp: runs_tasks_def)
  then have inv: "keeps ?sv1 ?sv2" "server_inv config S ?sv2" "keeps sv ?sv2"
    using runtime_keeps [OF _ assms(1)] 2(4) by (blast intro: rtranclp_trans)+
  have fin: "sv_calls ?sv2 ! ref ! length (sv_calls sv ! ref) = CloseDone" "TcpServer_stop_close rt (Suc k) refs ?sv2 = Some sv'"
    using 2(3) by (auto simp: Let_def split: if_splits)
  have "length (sv_calls sv ! ref) < length (sv_calls ?sv2 ! ref)" "ref < length (sv_store ?sv2)"
    using inv(1) ref calls by (auto simp: keeps_def TcpServer_begin_close_def dest!: spec [of _ ref])
  then have "CloseDone \<in> set (sv_calls ?sv2 ! ref)" "shared_inv (sv_store ?sv2 ! ref, sv_calls ?sv2 ! ref)"
    using fin(1) inv(2) by (force simp: in_set_conv_nth, simp add: server_inv_def calls_ok_def)
  then have shut: "session_shut (sv_store ?sv2 ! ref)" by (auto simp: shared_inv_def session_shut_def dest!: bspec)
  have "\<forall>r \<in> set refs. r < length (sv_store ?sv2)" using 2(5) inv(3) by (auto simp: keeps_def)
  then have IH: "(runtime_step S B)\<^sup>*\<^sup>* ?sv2 sv'" "\<forall>r \<in> set refs. session_shut (sv_store sv' ! r)"
    using 2(1) [OF refl refl fin(1) 2(2) fin(2) inv(2)] by blast+
  have "session_shut (sv_store sv' ! ref)"
    using runtime_keeps [OF IH(1) assms(1) inv(2)] shut \<open>ref < length (sv_store ?sv2)\<close> by (auto simp: keeps_def)
  with steps IH show ?case by (auto intro: rtranclp_trans)
qed simp

text \<open>The tasks can always bring about what \<open>stop\<close> waits for.\<close>

lemma calls_runtime:
  assumes "(call_step B)\<^sup>*\<^sup>* (sv_store sv ! ref, sv_calls sv ! ref) (s, cs)"
    and "ref < length (sv_store sv)" "length (sv_calls sv) = length (sv_store sv)"
  shows "(runtime_step S B)\<^sup>*\<^sup>* sv (sv\<lparr>sv_store := (sv_store sv)[ref := s], sv_calls := (sv_calls sv)[ref := cs]\<rparr>)"
  using assms(1)
proof (induction "(s, cs)" arbitrary: s cs rule: rtranclp_induct)
  case (step sc)
  obtain s1 cs1 where sc: "sc = (s1, cs1)" by fastforce
  let ?sv1 = "sv\<lparr>sv_store := (sv_store sv)[ref := s1], sv_calls := (sv_calls sv)[ref := cs1]\<rparr>"
  have "runtime_step S B ?sv1 (?sv1\<lparr>sv_store := (sv_store ?sv1)[ref := s], sv_calls := (sv_calls ?sv1)[ref := cs]\<rparr>)"
    by (rule runtime_step.call) (use step(2) sc assms(2,3) in simp_all)
  with step(3) [OF sc] show ?case by (auto intro: rtranclp.rtrancl_into_rtrancl)
qed (use assms in simp)

definition settled :: "nat \<Rightarrow> ('s, 'r, 'w, 'b) TcpServer \<Rightarrow> ('s, 'r, 'w, 'b) TcpServer \<Rightarrow> bool" where
  "settled n sv sv' \<longleftrightarrow>
     length (sv_store sv') = length (sv_store sv) \<and> length (sv_calls sv') = length (sv_calls sv) \<and>
     (\<forall>ref < length (sv_store sv). map is_close (sv_calls sv' ! ref) = map is_close (sv_calls sv ! ref) \<and>
        (ref < n \<longrightarrow> (\<forall>c \<in> set (sv_calls sv' ! ref). call_returned c)))"

lemma calls_settle:
  assumes "length (sv_calls sv) = length (sv_store sv)" "n \<le> length (sv_store sv)"
  shows "\<exists>sv'. (runtime_step S B)\<^sup>*\<^sup>* sv sv' \<and> settled n sv sv'"
  using assms(2)
proof (induction n)
  case (Suc n)
  then obtain sv1 where sv1: "(runtime_step S B)\<^sup>*\<^sup>* sv sv1" "settled n sv sv1" by auto
  then have len: "length (sv_calls sv1) = length (sv_store sv1)" "n < length (sv_store sv1)"
    using assms(1) Suc.prems by (simp_all add: settled_def)
  obtain s cs where cs: "(call_progress B)\<^sup>*\<^sup>* (sv_store sv1 ! n, sv_calls sv1 ! n) (s, cs)"
    "map is_close cs = map is_close (sv_calls sv1 ! n)" "\<forall>c \<in> set cs. call_returned c"
    using calls_return by blast
  let ?sv2 = "sv1\<lparr>sv_store := (sv_store sv1)[n := s], sv_calls := (sv_calls sv1)[n := cs]\<rparr>"
  have "(runtime_step S B)\<^sup>*\<^sup>* sv ?sv2" using sv1(1) calls_runtime [OF progress_steps [OF cs(1)] len(2,1)] by (rule rtranclp_trans)
  moreover have "settled (Suc n) sv ?sv2"
    using sv1(2) cs(2,3) len assms(1) by (auto simp: settled_def nth_list_update less_Suc_eq)
  ultimately show ?case by blast
qed (auto simp: settled_def)

definition obliging ::
  "'s semaphore_ops \<Rightarrow> 'b bytes_mut \<Rightarrow> nat \<Rightarrow> ('s, 'r, 'w, 'b) TcpServer \<Rightarrow> ('s, 'r, 'w, 'b) TcpServer \<Rightarrow> bool" where
  "obliging S B k sv sv' \<longleftrightarrow> (runtime_step S B)\<^sup>*\<^sup>* sv sv' \<and>
     (if k = 0 then \<not> sv_shutdown_tx sv \<longrightarrow> \<not> accepting sv'
      else if k = 1 then \<not> running sv \<longrightarrow> \<not> cleaning sv'
      else length (sv_calls sv) = length (sv_store sv) \<longrightarrow> settled (length (sv_store sv)) sv sv')"

lemma obliging_exists: "\<exists>sv'. obliging S B k sv sv'"
proof -
  have "\<exists>sv'. (runtime_step S B)\<^sup>*\<^sup>* sv sv' \<and> (\<not> sv_shutdown_tx sv \<longrightarrow> \<not> accepting sv')"
  proof (cases "accepting sv \<and> \<not> sv_shutdown_tx sv")
    case True
    then have "runtime_step S B sv (TcpServer_accept_loop_end sv)" by (intro runtime_step.accept_end) simp_all
    then show ?thesis by (intro exI [of _ "TcpServer_accept_loop_end sv"]) (simp add: TcpServer_accept_loop_end_def r_into_rtranclp)
  qed auto
  moreover have "\<exists>sv'. (runtime_step S B)\<^sup>*\<^sup>* sv sv' \<and> (\<not> running sv \<longrightarrow> \<not> cleaning sv')"
    by (intro exI [of _ "TcpServer_cleanup_end sv"] conjI r_into_rtranclp runtime_step.cleanup_end)
       (simp add: TcpServer_cleanup_end_def)
  moreover have "\<exists>sv'. (runtime_step S B)\<^sup>*\<^sup>* sv sv' \<and>
      (length (sv_calls sv) = length (sv_store sv) \<longrightarrow> settled (length (sv_store sv)) sv sv')"
    using calls_settle [of sv "length (sv_store sv)"] by blast
  ultimately show ?thesis unfolding obliging_def by (cases "k = 0"; cases "k = 1") auto
qed

lemma stop_close_returns:
  assumes "semaphore S" "\<forall>k sv. obliging S B k sv (rt k sv)" "2 \<le> k"
    and "server_inv config S sv" "\<forall>ref \<in> set refs. ref < length (sv_store sv)"
  shows "\<exists>sv'. TcpServer_stop_close rt k refs sv = Some sv'"
  using assms(3-5)
proof (induction refs arbitrary: k sv)
  case (Cons ref refs)
  let ?sv1 = "TcpServer_begin_close ref sv"
  let ?sv2 = "rt k ?sv1"
  have ref: "ref < length (sv_store sv)" and calls: "length (sv_calls sv) = length (sv_store sv)"
    using Cons.prems(2,3) by (simp_all add: server_inv_def calls_ok_def)
  have len: "length (sv_store ?sv1) = length (sv_store sv)" "length (sv_calls ?sv1) = length (sv_store sv)"
    "sv_calls ?sv1 ! ref = sv_calls sv ! ref @ [CloseBegun]"
    using ref calls by (simp_all add: TcpServer_begin_close_def)
  have "obliging S B k ?sv1 ?sv2" using assms(2) by blast
  then have steps: "(runtime_step S B)\<^sup>*\<^sup>* ?sv1 ?sv2" and settled: "settled (length (sv_store sv)) ?sv1 ?sv2"
    using Cons.prems(1) len by (simp_all add: obliging_def)
  have "(runtime_step S B)\<^sup>*\<^sup>* sv ?sv2" using begin_close_step [OF ref] steps by (rule converse_rtranclp_into_rtranclp)
  then have inv: "server_inv config S ?sv2" using runtime_keeps [OF _ assms(1)] Cons.prems(2) by blast
  let ?i = "length (sv_calls sv ! ref)"
  have close: "map is_close (sv_calls ?sv2 ! ref) = map is_close (sv_calls sv ! ref) @ [True]"
    and returned: "\<forall>c \<in> set (sv_calls ?sv2 ! ref). call_returned c"
    using settled ref len by (simp_all add: settled_def)
  have "?i < length (sv_calls ?sv2 ! ref)" using arg_cong [OF close, of length] by simp
  moreover from this have "is_close (sv_calls ?sv2 ! ref ! ?i)"
    using arg_cong [OF close, of "\<lambda>xs. xs ! ?i"] by (simp add: nth_append)
  ultimately have "sv_calls ?sv2 ! ref ! ?i = CloseDone" using returned by (intro is_close_returned) auto
  moreover have "\<forall>r \<in> set refs. r < length (sv_store ?sv2)" using Cons.prems(3) settled len by (simp add: settled_def)
  ultimately show ?case using Cons.IH [of "Suc k" ?sv2] Cons.prems(1) inv by (simp add: Let_def)
qed simp

lemma stop_returns:
  fixes sv :: "('s, 'r, 'w, 'b) TcpServer"
  assumes "semaphore S" "server_inv config S sv" "listed_ok sv"
  shows "\<exists>rt out. runs_tasks S B rt \<and> TcpServer_stop rt sv = Some out"
proof -
  obtain rt where rt: "\<forall>k (sv :: ('s, 'r, 'w, 'b) TcpServer). obliging S B k sv (rt k sv)" using obliging_exists by metis
  then have runs: "runs_tasks S B rt" by (simp add: obliging_def runs_tasks_def)
  define sv0 where "sv0 = (TcpServer_stop_signal sv)\<lparr>server_task := False\<rparr>"
  define sv1 where "sv1 = (rt 0 sv0)\<lparr>cleanup_task := False\<rparr>"
  have "server_inv config S sv0"
    by (rule server_inv_flags [OF assms(2)]) (simp_all add: sv0_def TcpServer_stop_signal_def same_core_def)
  then have "keeps sv0 (rt 0 sv0)" using runtime_keeps [OF _ assms(1)] runs unfolding runs_tasks_def by blast
  moreover have "\<not> running sv0" "\<not> sv_shutdown_tx sv0" by (simp_all add: sv0_def TcpServer_stop_signal_def)
  ultimately have ended: "\<not> accepting (rt 0 sv0)" "\<not> running sv1"
    using rt [rule_format, of 0 sv0] by (simp_all add: obliging_def keeps_def sv1_def)
  then have "\<not> cleaning (rt 1 sv1)" using rt [rule_format, of 1 sv1] by (simp add: obliging_def)
  then have wait: "TcpServer_stop_wait rt sv = Some (rt 1 sv1)"
    using ended(1) by (simp add: TcpServer_stop_wait_def Let_def sv0_def sv1_def)
  have steps: "(server_step S B)\<^sup>*\<^sup>* sv (rt 1 sv1)" by (rule stop_wait_reaches [OF runs wait])
  then have "server_inv config S (rt 1 sv1)" using server.steps_inv [of S B sv "rt 1 sv1" config] assms(1,2) by blast
  moreover have "listed_ok (rt 1 sv1)" by (rule listing.steps_inv [OF steps assms(3)])
  ultimately obtain sv2 where "TcpServer_stop_close rt 2 (sessions (rt 1 sv1)) (rt 1 sv1) = Some sv2"
    using stop_close_returns [OF assms(1) rt, of 2 config "rt 1 sv1" "sessions (rt 1 sv1)"] by (auto simp: listed_ok_def)
  with wait runs show ?thesis by (auto simp: TcpServer_stop_def)
qed

text \<open>What \<open>stop\<close> has done when it returns.\<close>

lemma stop_outcome:
  assumes "semaphore S" "runs_tasks S B rt" "server_inv config S sv" "listed_ok sv" "running sv"
    and "TcpServer_stop rt sv = Some (r, sv')"
  obtains sv1 where "TcpServer_stop_wait rt sv = Some sv1"
    "r = Inr ()" "\<not> running sv'" "\<not> accepting sv'" "\<not> cleaning sv'" "sessions sv' = []"
    "server_inv config S sv'" "session_tasks sv' = []" "\<forall>ref \<in> set (sessions sv1). session_shut (sv_store sv' ! ref)"
proof -
  obtain sv1 sv2 where wait: "TcpServer_stop_wait rt sv = Some sv1" and close: "TcpServer_stop_close rt 2 (sessions sv1) sv1 = Some sv2"
    and out: "r = Inr ()" "sv' = (TcpServer_abort_tasks (TcpServer_clear_sessions sv2))\<lparr>running := False\<rparr>"
    using assms(5,6) by (auto simp: TcpServer_stop_def split: option.splits)
  have steps: "(server_step S B)\<^sup>*\<^sup>* sv sv1" by (rule stop_wait_reaches [OF assms(2) wait])
  have inv1: "server_inv config S sv1" using server.steps_inv [OF steps, of config] assms(1,3) by blast
  have "listed_ok sv1" by (rule listing.steps_inv [OF steps assms(4)])
  then have closed: "(runtime_step S B)\<^sup>*\<^sup>* sv1 sv2" "\<forall>ref \<in> set (sessions sv1). session_shut (sv_store sv2 ! ref)"
    using stop_close_closes [OF assms(1,2) close inv1] by (auto simp: listed_ok_def)
  have kept: "keeps sv1 sv2" "server_inv config S sv2" using runtime_keeps [OF closed(1) assms(1) inv1] by blast+
  have "server_inv config S (TcpServer_clear_sessions sv2)"
    by (rule server_inv_flags [OF kept(2)]) (simp_all add: TcpServer_clear_sessions_def same_core_def)
  then have "server_inv config S sv'"
    unfolding out(2) by (rule server_inv_flags [OF server_inv_abort_tasks]) (simp_all add: same_core_def)
  with that wait out closed(2) kept(1) stop_wait_ended [OF assms(1,2) wait assms(3)] show thesis
    by (simp add: keeps_def TcpServer_clear_sessions_def)
qed

section \<open>Properties\<close>

lemma tasks_where_cong:
  assumes "\<forall>i < length (sv_tasks sv). P (task_at sv i) = Q (task_at sv i)"
  shows "tasks_where P sv = tasks_where Q sv"
proof -
  have "filter (\<lambda>(_, _, t). P t) (sv_tasks sv) = filter (\<lambda>(_, _, t). Q t) (sv_tasks sv)"
    using assms by (intro filter_cong) (auto simp: in_set_conv_nth task_at_def)
  then show ?thesis by (simp add: tasks_where_def)
qed

lemma accept_many:
  assumes "semaphore S" "server_core config S sv" "accepting sv" "max_connections config \<noteq> 0"
  shows "\<exists>sv'. (server_step S B)\<^sup>*\<^sup>* sv sv' \<and> accepting sv' \<and> server_core config S sv' \<and>
    tasks_where (\<lambda>t. \<not> task_is_finished t) sv' = tasks_where (\<lambda>t. \<not> task_is_finished t) sv + n"
proof (induction n)
  case 0
  then show ?case using assms by (intro exI [of _ sv]) simp
next
  case (Suc n)
  then obtain sv1 where sv1: "(server_step S B)\<^sup>*\<^sup>* sv sv1" "accepting sv1" "server_core config S sv1"
    "tasks_where (\<lambda>t. \<not> task_is_finished t) sv1 = tasks_where (\<lambda>t. \<not> task_is_finished t) sv + n" by blast
  fix conn addr
  let ?sv2 = "TcpServer_accept S True True (Inr (conn, addr)) sv1"
  have "server_step S B sv1 ?sv2" by (intro server_step.runtime runtime_step.accept sv1(2))
  moreover have "server_core config S ?sv2" "sv_tasks ?sv2 = sv_tasks sv1 @ [(conn, addr, NotBegun)]"
    using semaphore.accept_outcome [OF assms(1) sv1(3), of True True conn addr] assms(4) by (simp_all add: Let_def)
  ultimately show ?case
    using sv1 by (intro exI [of _ ?sv2]) (simp add: semaphore.accept_frame [OF assms(1)] tasks_where_def task_is_finished_def rtranclp.rtrancl_into_rtrancl)
qed

text \<open>
  C11. The connection limit is not enforced. However the accept loop, the session tasks, the
  cleanup, \<open>stop\<close> and the drop of the server interleave: between two turns of the accept loop
  all \<open>max_connections\<close> permits are available, whatever number of connections is alive. A
  connection that arrives is refused only when \<open>max_connections\<close> is 0; else it gets a task and is
  counted, or is dropped uncounted when keep-alive cannot be set up. So with any limit but 0, any
  number of further session tasks can be alive at once. \<open>connection_count\<close> is the number of tasks that
  have not counted themselves out, aborted and panicked ones included.
\<close>

theorem server_limit_not_enforced:
  assumes "semaphore S" "max_connections config \<le> MAX_PERMITS"
    and "(server_step S B)\<^sup>*\<^sup>* (TcpServer_with_config S config) sv"
  shows "sem_available S (connection_semaphore sv) = max_connections config \<and>
    TcpServer_connection_count sv = of_nat (tasks_where (\<lambda>t. t \<noteq> CountedOut \<and> t \<noteq> Finished) sv) \<and>
    (let sv' = TcpServer_accept S into_std from_std (Inr (conn, addr)) sv in
     if max_connections config = 0 then sv' = sv
     else if sv_keep_alive config \<noteq> None \<and> \<not> (into_std \<and> from_std)
     then sv_tasks sv' = sv_tasks sv \<and> TcpServer_connection_count sv' = TcpServer_connection_count sv
     else sv_tasks sv' = sv_tasks sv @ [(conn, addr, NotBegun)] \<and>
          TcpServer_connection_count sv' = TcpServer_connection_count sv + 1) \<and>
    (accepting sv \<and> max_connections config \<noteq> 0 \<longrightarrow>
       (\<exists>sv'. (server_step S B)\<^sup>*\<^sup>* sv sv' \<and>
          tasks_where (\<lambda>t. \<not> task_is_finished t) sv' = tasks_where (\<lambda>t. \<not> task_is_finished t) sv + n))"
proof -
  let ?alive = "\<lambda>t. \<not> task_is_finished t"
  have core: "server_core config S sv" using server_reachable_inv [OF assms] by (simp add: server_inv_def)
  have "is_counted = (\<lambda>t. t \<noteq> CountedOut \<and> t \<noteq> Finished)" by (auto simp: is_counted_def)
  then have "sem_available S (connection_semaphore sv) = max_connections config"
    "connection_count sv = of_nat (tasks_where (\<lambda>t. t \<noteq> CountedOut \<and> t \<noteq> Finished) sv)"
    using core by (simp_all add: server_core_def)
  moreover note semaphore.accept_outcome [OF assms(1) core, of into_std from_std conn addr, THEN conjunct2]
  moreover have "\<exists>sv'. (server_step S B)\<^sup>*\<^sup>* sv sv' \<and> tasks_where ?alive sv' = tasks_where ?alive sv + n"
    if "accepting sv \<and> max_connections config \<noteq> 0"
    using accept_many [OF assms(1) core, of B n] that by blast
  ultimately show ?thesis unfolding TcpServer_connection_count_def by blast
qed

definition one_connection :: ServerConfig where
  "one_connection = ServerConfig_with_max_connections 1 (ServerConfig_new ''127.0.0.1:9000'')"

definition full_server :: "(nat, unit, u8 list, u8 list) TcpServer" where
  "full_server = TcpServer_accept counter_semaphore True True (Inr (((), []), ''peer''))
     (snd (TcpServer_start Inr (\<lambda>_. Inr ()) (TcpServer_with_config counter_semaphore one_connection)))"

lemmas full_server_simps =
  full_server_def TcpServer_start_def TcpServer_with_config_def TcpServer_accept_def TcpServer_handle_connection_def
  TcpServer_track_def release_permit_def one_connection_def config_defs counter_semaphore_def Let_def
  task_is_finished_def task_at_def

lemma full_server_reachable:
  "(server_step counter_semaphore vec_bytes)\<^sup>*\<^sup>* (TcpServer_with_config counter_semaphore one_connection) full_server"
proof (rule rtranclp_2)
  show "server_step counter_semaphore vec_bytes (TcpServer_with_config counter_semaphore one_connection)
      (snd (TcpServer_start Inr (\<lambda>_. Inr ()) (TcpServer_with_config counter_semaphore one_connection)))"
    by (rule server_step.start)
  show "server_step counter_semaphore vec_bytes
      (snd (TcpServer_start Inr (\<lambda>_. Inr ()) (TcpServer_with_config counter_semaphore one_connection))) full_server"
    unfolding full_server_def
    by (intro server_step.runtime runtime_step.accept) (simp add: TcpServer_start_def TcpServer_with_config_def)
qed

lemma one_connection_permits: "max_connections one_connection \<le> MAX_PERMITS"
  by (simp add: one_connection_def config_defs MAX_PERMITS_def)

text \<open>A server that may have one connection reaches states with two live ones.\<close>

theorem server_limit_not_enforced_witness:
  "max_connections one_connection = 1 \<and>
   (\<exists>sv :: (nat, unit, u8 list, u8 list) TcpServer.
      (server_step counter_semaphore vec_bytes)\<^sup>*\<^sup>* (TcpServer_with_config counter_semaphore one_connection) sv \<and>
      tasks_where (\<lambda>t. \<not> task_is_finished t) sv = 2)"
proof -
  have "accepting full_server" "max_connections one_connection = 1" "tasks_where (\<lambda>t. \<not> task_is_finished t) full_server = 1"
    by (simp_all add: full_server_simps tasks_where_def)
  moreover from this have "\<exists>sv. (server_step counter_semaphore vec_bytes)\<^sup>*\<^sup>* full_server sv \<and>
      tasks_where (\<lambda>t. \<not> task_is_finished t) sv = 1 + 1"
    using server_limit_not_enforced [OF counter.semaphore_axioms one_connection_permits full_server_reachable, where n = 1] by auto
  ultimately show ?thesis using rtranclp_trans [OF full_server_reachable] by (auto simp: numeral_2_eq_2)
qed

text \<open>
  C29. \<open>stop\<close> ends a running server in every reachable state, whatever its tasks do while it
  waits. The tasks can always bring about what it waits for, so it can return. When it has
  returned, it reports success, the server does not run, the accept loop and the cleanup task have
  ended, no session is listed, and every session that was listed when the first two waits were
  over is inactive and without its stream halves. A session task that still waits has been asked
  to abort. The tasks that end by themselves count themselves out, before \<open>stop\<close> returns or after;
  the others never do: when all have ended, \<open>connection_count\<close> is the number of the dropped ones.
\<close>

theorem server_stop_ends_sessions:
  assumes "semaphore S" "max_connections config \<le> MAX_PERMITS"
    and "(server_step S B)\<^sup>*\<^sup>* (TcpServer_with_config S config) sv" "running sv"
  shows "(\<exists>rt out. runs_tasks S B rt \<and> TcpServer_stop rt sv = Some out) \<and>
    (\<forall>rt r sv'. runs_tasks S B rt \<and> TcpServer_stop rt sv = Some (r, sv') \<longrightarrow>
       r = Inr () \<and> \<not> TcpServer_is_running sv' \<and> \<not> accepting sv' \<and> \<not> cleaning sv' \<and> TcpServer_sessions sv' = [] \<and>
       (\<exists>sv1. TcpServer_stop_wait rt sv = Some sv1 \<and>
          (\<forall>ref \<in> set (TcpServer_sessions sv1). \<not> Session_is_active (sv_store sv' ! ref) \<and>
             read_half (sv_store sv' ! ref) = None \<and> write_half (sv_store sv' ! ref) = None)) \<and>
       (\<forall>i < length (sv_tasks sv'). is_abortable (task_at sv' i) \<longrightarrow> i \<in> set (sv_aborts sv')) \<and>
       (\<forall>sv''. (runtime_step S B)\<^sup>*\<^sup>* sv' sv'' \<and> (\<forall>i < length (sv_tasks sv''). task_is_finished (task_at sv'' i)) \<longrightarrow>
          TcpServer_connection_count sv'' = of_nat (tasks_where (\<lambda>t. t = Aborted) sv'')))"
proof -
  have inv: "server_inv config S sv" "listed_ok sv"
    by (rule server_reachable_inv [OF assms(1-3)], rule server_reachable_listed [OF assms(3)])
  have count: "TcpServer_connection_count sv'' = of_nat (tasks_where (\<lambda>t. t = Aborted) sv'')"
    if "server_inv config S sv''" "\<forall>i < length (sv_tasks sv''). task_is_finished (task_at sv'' i)"
    for sv'' :: "('a, 'b, 'c, 'd) TcpServer"
  proof -
    have "tasks_where is_counted sv'' = tasks_where (\<lambda>t. t = Aborted) sv''"
      using that(2) by (intro tasks_where_cong) (auto simp: task_is_finished_def)
    with that(1) show ?thesis by (simp add: server_inv_def server_core_def TcpServer_connection_count_def)
  qed
  show ?thesis
  proof (intro conjI allI impI)
    show "\<exists>rt out. runs_tasks S B rt \<and> TcpServer_stop rt sv = Some out" by (rule stop_returns [OF assms(1) inv])
  next
    fix rt r sv'
    assume "runs_tasks S B rt \<and> TcpServer_stop rt sv = Some (r, sv')"
    then obtain sv1 where out: "TcpServer_stop_wait rt sv = Some sv1"
      "r = Inr ()" "\<not> running sv'" "\<not> accepting sv'" "\<not> cleaning sv'" "sessions sv' = []"
      "server_inv config S sv'" "session_tasks sv' = []" "\<forall>ref \<in> set (sessions sv1). session_shut (sv_store sv' ! ref)"
      using stop_outcome [OF assms(1) _ inv assms(4)] by blast
    show "r = Inr ()" "\<not> TcpServer_is_running sv'" "\<not> accepting sv'" "\<not> cleaning sv'" "TcpServer_sessions sv' = []"
      using out by (simp_all add: TcpServer_is_running_def TcpServer_sessions_def)
    show "\<exists>sv1. TcpServer_stop_wait rt sv = Some sv1 \<and>
        (\<forall>ref \<in> set (TcpServer_sessions sv1). \<not> Session_is_active (sv_store sv' ! ref) \<and>
           read_half (sv_store sv' ! ref) = None \<and> write_half (sv_store sv' ! ref) = None)"
      using out(1,9) by (simp add: TcpServer_sessions_def session_shut_def Session_is_active_def)
    show "i \<in> set (sv_aborts sv')" if "i < length (sv_tasks sv')" "is_abortable (task_at sv' i)" for i
      using out(7,8) that by (auto simp: server_inv_def tasks_known_def)
    show "TcpServer_connection_count sv'' = of_nat (tasks_where (\<lambda>t. t = Aborted) sv'')"
      if "(runtime_step S B)\<^sup>*\<^sup>* sv' sv'' \<and> (\<forall>i < length (sv_tasks sv''). task_is_finished (task_at sv'' i))" for sv''
      using count runtime_keeps [OF _ assms(1) out(7)] that by blast
  qed
qed

text \<open>
  A server with one session, whose task waits in \<open>receive\<close> when \<open>stop\<close> is called. The session's
  \<open>close\<close> waits for that call, which ends by the assembly timeout; the task then ends and counts
  itself out before \<open>stop\<close> returns.
\<close>

definition serving :: "(nat, unit, u8 list, u8 list) TcpServer" where
  "serving = task_begin vec_bytes 7 0 0 full_server"

lemma serving_reachable:
  "(server_step counter_semaphore vec_bytes)\<^sup>*\<^sup>* (TcpServer_with_config counter_semaphore one_connection) serving"
  by (rule rtranclp.rtrancl_into_rtrancl [OF full_server_reachable], unfold serving_def,
      intro server_step.runtime runtime_step.begin_task)
     (simp_all add: full_server_simps)

definition served_session :: "(unit, u8 list, u8 list) Session" where
  "served_session = Session_new vec_bytes 7 0 ((), []) ''peer'' (from_secs 30) (from_secs 10) (from_secs 300)"

lemma serving_fields [simp]:
  "sv_store serving = [served_session]" "sv_calls serving = [[]]" "sessions serving = [0]" "running serving"
  "accepting serving" "sv_shutdown_tx serving" "connection_count serving = 1" "length (sv_tasks serving) = 1"
  "task_at serving 0 = InSession 0"
  by (simp_all add: serving_def served_session_def task_begin_def set_task_def full_server_simps)

definition serving_reading :: "(nat, unit, u8 list, u8 list) TcpServer" where
  "serving_reading = serving\<lparr>sv_calls := [[Reading]]\<rparr>"

lemma serving_reading_alt: "serving\<lparr>sv_store := [served_session], sv_calls := [[Reading]]\<rparr> = serving_reading"
  using serving_fields(1) by (cases serving) (simp add: serving_reading_def)

lemma receive_runs:
  assumes "Session_is_active s" "\<not> Session_is_idle now s"
  shows "(call_step B)\<^sup>*\<^sup>* (s, []) (s, [Reading])"
proof -
  have "call_step B (s, []) (s, [ReceiveActive])"
    using call_step.start [OF call_start.receive, of B s "[]"] assms(1) by (simp add: Session_check_active_def)
  moreover have "call_progress B (s, [ReceiveActive]) (s, [AwaitBuffer])"
    using progress_last [of B "[]", OF call_move.check_idle [of B _ s now]] assms(2) by (simp add: Session_check_idle_def)
  moreover have "call_progress B (s, [AwaitBuffer]) (s, [AwaitReader])"
    using progress_last [of B "[]", OF call_move.lock_buffer] by (simp add: free_def)
  moreover have "call_progress B (s, [AwaitReader]) (s, [Reading])"
    using progress_last [of B "[]", OF call_move.lock_read] by (simp add: free_def)
  ultimately show ?thesis
    by (meson call_step.progress r_into_rtranclp rtranclp.rtrancl_into_rtrancl)
qed

lemma serving_reading_reachable:
  "(server_step counter_semaphore vec_bytes)\<^sup>*\<^sup>* (TcpServer_with_config counter_semaphore one_connection) serving_reading"
proof -
  have "(call_step vec_bytes)\<^sup>*\<^sup>* (sv_store serving ! 0, sv_calls serving ! 0) (served_session, [Reading])"
    using receive_runs [of served_session 0 vec_bytes]
    by (simp add: served_session_def Session_new_def Session_is_active_def Session_is_idle_def elapsed_def from_secs_def)
  then have "(server_step counter_semaphore vec_bytes)\<^sup>*\<^sup>* serving serving_reading"
    using runtime_server [OF calls_runtime, of vec_bytes serving 0 served_session "[Reading]" counter_semaphore]
    by (simp add: serving_reading_alt)
  with serving_reachable show ?thesis by (rule rtranclp_trans)
qed

text \<open>What the tasks of this server do during the waits of \<open>stop\<close>.\<close>

definition closed_while_reading :: "(nat, unit, u8 list, u8 list) TcpServer \<Rightarrow> (nat, unit, u8 list, u8 list) TcpServer" where
  "closed_while_reading sv =
     sv\<lparr>sv_store := [snd (Session_close (sv_store sv ! 0))], sv_calls := [[ReceiveDone (Inl assembly_timeout_error), CloseDone]]\<rparr>"

definition example_runtime :: "nat \<Rightarrow> (nat, unit, u8 list, u8 list) TcpServer \<Rightarrow> (nat, unit, u8 list, u8 list) TcpServer" where
  "example_runtime k sv =
     (if k = 0 then if accepting sv \<and> \<not> sv_shutdown_tx sv then TcpServer_accept_loop_end sv else sv
      else if k = 1 then TcpServer_cleanup_end sv
      else if sv_calls sv = [[Reading, CloseBegun]] \<and> sv_store sv = [Session_mark_closing served_session] \<and>
          length (sv_tasks sv) = 1 \<and> task_at sv 0 = InSession 0
      then set_task 0 Finished (task_count_out 0 (task_unlist 0 0 (closed_while_reading sv)))
      else sv)"

lemma closed_while_reading_steps:
  assumes "sv_calls sv = [[Reading, CloseBegun]]" "sv_store sv = [Session_mark_closing served_session]"
  shows "(runtime_step counter_semaphore vec_bytes)\<^sup>*\<^sup>* sv (closed_while_reading sv)"
proof -
  let ?s = "Session_mark_closing served_session"
  have "Session_receive_locked vec_bytes (\<lambda>_. from_secs 90) 0 [] ?s = Returned (Some (Inl assembly_timeout_error), ?s, [])"
    by (simp add: Session_receive_locked_def Session_mark_closing_def served_session_def Session_new_def
        receive_loop.simps from_secs_def duration_max_def)
  then have "call_move vec_bytes [Reading, CloseBegun] Reading ?s (ReceiveDone (Inl assembly_timeout_error)) ?s"
    by (rule call_move.received)
  then have "call_progress vec_bytes (?s, [Reading, CloseBegun]) (?s, [ReceiveDone (Inl assembly_timeout_error), CloseBegun])"
    using call_progress.move [of 0 "[Reading, CloseBegun]" vec_bytes ?s] by simp
  moreover have "(call_progress vec_bytes)\<^sup>*\<^sup>* (?s, [ReceiveDone (Inl assembly_timeout_error), CloseBegun])
      (snd (Session_close ?s), [ReceiveDone (Inl assembly_timeout_error), CloseDone])"
    using close_runs [of "[ReceiveDone (Inl assembly_timeout_error)]" vec_bytes ?s] by (simp add: free_def)
  ultimately have "(call_step vec_bytes)\<^sup>*\<^sup>* (?s, [Reading, CloseBegun])
      (snd (Session_close ?s), [ReceiveDone (Inl assembly_timeout_error), CloseDone])"
    by (intro progress_steps) (rule converse_rtranclp_into_rtranclp)
  then show ?thesis
    using calls_runtime [of vec_bytes sv 0] assms by (simp add: closed_while_reading_def)
qed

lemma example_runtime_runs: "runs_tasks counter_semaphore vec_bytes example_runtime"
proof -
  have end_task: "(runtime_step counter_semaphore vec_bytes)\<^sup>*\<^sup>* sv (set_task 0 Finished (task_count_out 0 (task_unlist 0 0 sv)))"
    if "length (sv_tasks sv) = 1" "task_at sv 0 = InSession 0" for sv :: "(nat, unit, u8 list, u8 list) TcpServer"
  proof -
    have "runtime_step counter_semaphore vec_bytes sv (task_unlist 0 0 sv)"
      using that by (intro runtime_step.unlist) simp_all
    moreover have "runtime_step counter_semaphore vec_bytes (task_unlist 0 0 sv) (task_count_out 0 (task_unlist 0 0 sv))"
      using that by (intro runtime_step.count_out) (simp_all add: task_unlist_def task_at_set)
    moreover have "runtime_step counter_semaphore vec_bytes (task_count_out 0 (task_unlist 0 0 sv))
        (set_task 0 Finished (task_count_out 0 (task_unlist 0 0 sv)))"
      using that by (intro runtime_step.finish) (simp_all add: task_count_out_def task_unlist_def task_at_set)
    ultimately show ?thesis by (meson r_into_rtranclp rtranclp.rtrancl_into_rtrancl)
  qed
  have "length (sv_tasks (closed_while_reading sv)) = length (sv_tasks sv)" "task_at (closed_while_reading sv) = task_at sv"
    for sv :: "(nat, unit, u8 list, u8 list) TcpServer"
    by (auto simp: closed_while_reading_def task_at_def)
  then have "(runtime_step counter_semaphore vec_bytes)\<^sup>*\<^sup>* sv
      (set_task 0 Finished (task_count_out 0 (task_unlist 0 0 (closed_while_reading sv))))"
    if "sv_calls sv = [[Reading, CloseBegun]]" "sv_store sv = [Session_mark_closing served_session]"
      "length (sv_tasks sv) = 1" "task_at sv 0 = InSession 0" for sv
    using that by (intro rtranclp_trans [OF closed_while_reading_steps end_task]) simp_all
  moreover have "runtime_step counter_semaphore vec_bytes sv (TcpServer_accept_loop_end sv)"
    if "accepting sv" "\<not> sv_shutdown_tx sv" for sv :: "(nat, unit, u8 list, u8 list) TcpServer"
    using that by (rule runtime_step.accept_end)
  moreover have "runtime_step counter_semaphore vec_bytes sv (TcpServer_cleanup_end sv)"
    for sv :: "(nat, unit, u8 list, u8 list) TcpServer"
    by (rule runtime_step.cleanup_end)
  ultimately show ?thesis by (simp add: runs_tasks_def example_runtime_def r_into_rtranclp)
qed

lemma example_stop:
  obtains sv1 sv' where "TcpServer_stop example_runtime serving_reading = Some (Inr (), sv')"
    "TcpServer_stop_wait example_runtime serving_reading = Some sv1" "TcpServer_sessions sv1 = [0]"
    "connection_count sv' = 0" "task_at sv' 0 = Finished"
proof -
  define sv1 where "sv1 = serving_reading\<lparr>running := False, sv_shutdown_tx := False, accepting := False, server_task := False,
      cleaning := False, cleanup_task := False\<rparr>"
  define begun where "begun = TcpServer_begin_close 0 sv1"
  define sv2 where "sv2 = set_task 0 Finished (task_count_out 0 (task_unlist 0 0 (closed_while_reading begun)))"
  have fields: "sv_calls begun = [[Reading, CloseBegun]]" "sv_store begun = [Session_mark_closing served_session]"
    "sv_tasks begun = sv_tasks serving" "connection_count begun = 1"
    by (simp_all add: begun_def sv1_def TcpServer_begin_close_def serving_reading_def)
  have "task_at begun 0 = InSession 0" using serving_fields(9) unfolding task_at_def fields(3) .
  then have run: "example_runtime 2 begun = sv2" using fields by (simp add: example_runtime_def sv2_def)
  have sv2: "sv_calls sv2 = [[ReceiveDone (Inl assembly_timeout_error), CloseDone]]" "task_at sv2 0 = Finished"
    "connection_count sv2 = 0"
    using fields by (simp_all add: sv2_def task_count_out_def task_unlist_def task_at_set closed_while_reading_def)
  have "TcpServer_stop_wait example_runtime serving_reading = Some sv1"
    by (simp add: TcpServer_stop_wait_def example_runtime_def TcpServer_stop_signal_def TcpServer_accept_loop_end_def
        TcpServer_cleanup_end_def Let_def sv1_def)
  moreover have "sessions sv1 = [0]" "sv_calls sv1 ! 0 = [Reading]" "running serving_reading"
    by (simp_all add: sv1_def serving_reading_def)
  moreover from this have "TcpServer_stop_close example_runtime 2 (sessions sv1) sv1 = Some sv2"
    using run sv2(1) by (simp add: Let_def begun_def)
  ultimately have "TcpServer_stop example_runtime serving_reading =
      Some (Inr (), (TcpServer_abort_tasks (TcpServer_clear_sessions sv2))\<lparr>running := False\<rparr>)"
    "TcpServer_stop_wait example_runtime serving_reading = Some sv1" "TcpServer_sessions sv1 = [0]"
    by (simp_all add: TcpServer_stop_def TcpServer_sessions_def)
  moreover have "connection_count ((TcpServer_abort_tasks (TcpServer_clear_sessions sv2))\<lparr>running := False\<rparr>) = 0"
    "task_at ((TcpServer_abort_tasks (TcpServer_clear_sessions sv2))\<lparr>running := False\<rparr>) 0 = Finished"
    using sv2 by (simp_all add: TcpServer_clear_sessions_def task_at_def)
  ultimately show thesis by (rule that)
qed

theorem server_stop_ends_sessions_witness:
  "\<exists>sv'. TcpServer_stop example_runtime serving_reading = Some (Inr (), sv') \<and>
     TcpServer_sessions serving_reading = [0] \<and> TcpServer_sessions sv' = [] \<and>
     TcpServer_connection_count serving_reading = 1 \<and> TcpServer_connection_count sv' = 0 \<and>
     task_at sv' 0 = Finished \<and> read_half (sv_store serving_reading ! 0) \<noteq> None \<and> read_half (sv_store sv' ! 0) = None"
proof -
  obtain sv1 sv' where stop: "TcpServer_stop example_runtime serving_reading = Some (Inr (), sv')"
    and wait: "TcpServer_stop_wait example_runtime serving_reading = Some sv1" "TcpServer_sessions sv1 = [0]"
    and ended: "connection_count sv' = 0" "task_at sv' 0 = Finished"
    by (rule example_stop)
  have "running serving_reading" by (simp add: serving_reading_def)
  then have "TcpServer_sessions sv' = []" "read_half (sv_store sv' ! 0) = None"
    using server_stop_ends_sessions [OF counter.semaphore_axioms one_connection_permits serving_reading_reachable]
      example_runtime_runs stop wait by (metis list.set_intros(1) option.inject)+
  moreover have "TcpServer_sessions serving_reading = [0]" "TcpServer_connection_count serving_reading = 1"
    "read_half (sv_store serving_reading ! 0) \<noteq> None"
    by (simp_all add: serving_reading_def TcpServer_sessions_def TcpServer_connection_count_def served_session_def Session_new_def)
  ultimately show ?thesis using stop ended by (simp add: TcpServer_connection_count_def)
qed

text \<open>
  A session task delivers the stream. Take an active session, a handler that only sends
  on it, and calls of \<open>receive\<close> that are prompt. When the peer sends the frames of any list
  of messages, in any chunks, and then closes the connection, the session loop passes
  exactly these messages to \<open>on_message\<close>, in order, each once, and then ends because the
  peer closed the connection.
\<close>

theorem server_session_delivers:
  assumes "bytes_buffer B" "\<forall>m \<in> set ms. Message_fits m" "sending_handler on_message" "length ms < length calls"
    and "Session_is_active s" "read_half s \<noteq> None" "sess_read_timeout s * 3 \<le> duration_max"
    and "prompt_calls (sess_idle_timeout s) (sess_read_timeout s * 3) (last_activity s) calls"
    and "chunk_reads reads" "bm_slice B (read_buffer s) @ read_bytes reads = concat (map Message_frame ms)"
  shows "\<exists>s' h'. session_loop B on_message calls (reads @ [Completed (Inr [])]) s h = (ms, Broke closed_by_peer_error, s', h')"
  using bytes_buffer.session_loop_delivers [OF assms(1-4) _ assms(6,7) _ assms(8-10)] assms(5)
  by (simp add: Session_is_active_def)

theorem server_session_delivers_witness:
  "\<exists>s' h'. session_loop vec_bytes (\<lambda>_ _ _ h. ([], h)) [(\<lambda>_. 0, 200, 210), (\<lambda>_. 0, 220, 230), (\<lambda>_. 0, 240, 250)]
     (example_reads @ [Completed (Inr [])]) example_session () =
       ([\<lparr>msg_data = [65]\<rparr>, \<lparr>msg_data = [66, 67]\<rparr>], Broke closed_by_peer_error, s', h')"
proof (rule server_session_delivers [OF vec.bytes_buffer_axioms])
  show "bm_slice vec_bytes (read_buffer example_session) @ read_bytes example_reads =
      concat (map Message_frame [\<lparr>msg_data = [65]\<rparr>, \<lparr>msg_data = [66, 67]\<rparr>])"
    by (simp add: example_session_def example_reads_def Session_new_def vec_bytes_def Message_frame_def
          u32_to_be_bytes_def)
qed (simp_all add: example_session_def example_reads_def Session_new_def Session_is_active_def sending_handler_def
      elapsed_def from_secs_def duration_max_def Message_fits_def MAX_MESSAGE_SIZE_def)

section \<open>Broadcast\<close>

lemma store_fold_session:
  assumes "distinct refs" "\<forall>r \<in> set refs. r < length (sv_store sv)"
  shows "sv_store (fold (\<lambda>ref. on_session ref (f ref)) refs sv) ! ref =
    (if ref \<in> set refs then f ref (sv_store sv ! ref) else sv_store sv ! ref)"
  using assms
proof (induction refs arbitrary: sv)
  case (Cons r refs)
  then show ?case using Cons.IH [of "on_session r (f r) sv"] by (auto simp: nth_list_update)
qed simp

text \<open>
  C30. \<open>broadcast\<close> reaches exactly the sessions that can be reached. In every reachable state of
  the server, run with nothing else using the sessions meanwhile, it appends one whole frame to what each listed, active and not idle session has
  sent and nothing to any other session, and a session that cannot be reached does not keep
  it from the others.
\<close>

theorem server_broadcast_reaches:
  assumes "bytes_buffer B" "accepting_writer sent write_all" "Message_fits m"
    and "(server_step S B)\<^sup>*\<^sup>* (TcpServer_with_config S config) sv"
    and "TcpServer_broadcast B write_all ticks m sv = (r, sv')" "ref < length (sv_store sv)"
  shows "r = Inr () \<and> TcpServer_sessions sv' = TcpServer_sessions sv \<and>
    session_sent sent (sv_store sv' ! ref) = session_sent sent (sv_store sv ! ref) @
      (let s = sv_store sv ! ref in
       if ref \<in> set (TcpServer_sessions sv) \<and> Session_is_active s \<and> \<not> Session_is_idle (fst (ticks ref)) s \<and>
          write_half s \<noteq> None
       then Message_frame m else [])"
proof -
  let ?send = "\<lambda>ref s. snd (Session_send B write_all (fst (ticks ref)) (snd (ticks ref)) m s)"
  have sv': "r = Inr ()" "sv' = fold (\<lambda>ref. on_session ref (?send ref)) (sessions sv) sv"
    using assms(5) by (simp_all add: TcpServer_broadcast_def)
  have sent: "session_sent sent (?send ref s) = session_sent sent s @
      (if Session_is_active s \<and> \<not> Session_is_idle (fst (ticks ref)) s \<and> write_half s \<noteq> None then Message_frame m else [])" for s
  proof (cases "Session_is_active s \<and> \<not> Session_is_idle (fst (ticks ref)) s \<and> write_half s \<noteq> None")
    case True
    then obtain w where w: "write_half s = Some w" by blast
    obtain w' where "write_all (sess_write_timeout s) (Message_frame m) w = (Completed (Inr ()), w')" "sent w' = sent w @ Message_frame m"
      using assms(2) unfolding accepting_writer_def by (metis prod.collapse)
    with bytes_buffer.session_send_ok [OF assms(1) _ _ w assms(3), of "fst (ticks ref)" write_all w' "snd (ticks ref)"] True w
    show ?thesis by (simp add: session_sent_def)
  qed (use bytes_buffer.encode_fits [OF assms(1,3)] in \<open>auto simp: Session_send_def\<close>)
  have "listed_ok sv" by (rule server_reachable_listed [OF assms(4)])
  then have "sv_store sv' ! ref = (if ref \<in> set (sessions sv) then ?send ref (sv_store sv ! ref) else sv_store sv ! ref)"
    unfolding sv' listed_ok_def by (intro store_fold_session) simp_all
  with sv' sent [of "sv_store sv ! ref"] show ?thesis by (simp add: TcpServer_sessions_def Let_def)
qed

text \<open>
  A pass of the cleanup task closes exactly the listed sessions that are idle when it looks
  at them. Passes that come at most half an idle timeout after one another therefore close a
  session before it has been idle for one and a half times the timeout.
\<close>

lemma cleanup_closes_idle:
  assumes "(server_step S B)\<^sup>*\<^sup>* (TcpServer_with_config S config) sv"
  shows "sv_store (TcpServer_cleanup_pass now sv) ! ref =
    (if ref \<in> set (TcpServer_sessions sv) \<and> Session_is_idle (now ref) (sv_store sv ! ref)
     then snd (Session_close (sv_store sv ! ref)) else sv_store sv ! ref)"
  using store_fold_session [of "filter (\<lambda>ref. Session_is_idle (now ref) (sv_store sv ! ref)) (sessions sv)" sv
      "\<lambda>_ s. snd (Session_close s)" ref] server_reachable_listed [OF assms]
  by (simp add: TcpServer_cleanup_pass_def listed_ok_def TcpServer_sessions_def)

lemma idle_session_closed_in_time:
  assumes "(server_step S B)\<^sup>*\<^sup>* (TcpServer_with_config S config) sv" "ref \<in> set (TcpServer_sessions sv)"
    and "sess_idle_timeout (sv_store sv ! ref) = sv_idle_timeout config"
    and "previous \<le> last_activity (sv_store sv ! ref) + sv_idle_timeout config"
    and "last_activity (sv_store sv ! ref) + sv_idle_timeout config < now" "now \<le> previous + cleanup_interval config"
  shows "session_closed (sv_store (TcpServer_cleanup_pass (\<lambda>_. now) sv) ! ref) \<and>
    2 * elapsed now (last_activity (sv_store sv ! ref)) \<le> 3 * sv_idle_timeout config"
  using assms(2-) cleanup_closes_idle [OF assms(1)] session_closed_close
  by (auto simp: Session_is_idle_def elapsed_def cleanup_interval_def)

theorem server_broadcast_reaches_witness:
  "session_sent id (sv_store (snd (TcpServer_broadcast vec_bytes (\<lambda>d data w. (Completed (Inr ()), w @ data)) (\<lambda>_. (1, 2))
     \<lparr>msg_data = [65]\<rparr> serving)) ! 0) = [0, 0, 0, 1, 65]"
proof -
  obtain r sv' where bc: "TcpServer_broadcast vec_bytes (\<lambda>d data w. (Completed (Inr ()), w @ data)) (\<lambda>_. (1, 2))
     \<lparr>msg_data = [65]\<rparr> serving = (r, sv')" by fastforce
  have w: "accepting_writer id (\<lambda>d data w. (Completed (Inr ()), w @ data))" "Message_fits \<lparr>msg_data = [65]\<rparr>"
    by (simp_all add: accepting_writer_def Message_fits_def MAX_MESSAGE_SIZE_def)
  from server_broadcast_reaches [OF vec.bytes_buffer_axioms w serving_reachable bc, of 0] bc show ?thesis
    by (simp add: TcpServer_sessions_def served_session_def Session_new_def Session_is_active_def Session_is_idle_def session_sent_def
        elapsed_def from_secs_def Message_frame_def u32_to_be_bytes_def)
qed

end
