(* ===== verification/Processors.thy ===== *)
theory Processors
  imports Message_Frame
begin

text \<open>
  The message processors of \<open>src/integration/thread_pool.rs\<close>: identity, compression,
  decompression, the XOR encryption and the pipeline that chains processors. A processor
  is a function on messages that may fail. The gzip coder of \<open>flate2\<close> is not part of the
  repository: its operations are an argument, and the locale \<open>gzip\<close> states that decoding
  inverts encoding.
\<close>

section \<open>Model\<close>

type_synonym processor = "Message \<Rightarrow> Message net_result"

definition IdentityProcessor_process :: processor where
  "IdentityProcessor_process message = Inr message"

text \<open>
  \<open>gz_write level data\<close> is \<open>write_all\<close> on a new \<open>GzEncoder\<close> over a \<open>Vec\<close>, \<open>gz_finish\<close> its
  \<open>finish\<close>, \<open>gz_read\<close> is \<open>read_to_end\<close> of a \<open>GzDecoder\<close>.
\<close>

record 'e gzip_ops =
  gz_write :: "u32 \<Rightarrow> u8 list \<Rightarrow> string + 'e"
  gz_finish :: "'e \<Rightarrow> string + u8 list"
  gz_read :: "u8 list \<Rightarrow> string + u8 list"

record CompressionProcessor =
  cp_level :: u32

definition CompressionProcessor_new :: "u32 \<Rightarrow> CompressionProcessor" where
  "CompressionProcessor_new level = \<lparr>cp_level = level\<rparr>"

definition CompressionProcessor_process :: "'e gzip_ops \<Rightarrow> CompressionProcessor \<Rightarrow> processor" where
  "CompressionProcessor_process G p message =
     (case gz_write G (cp_level p) (msg_data message) of
        Inl e \<Rightarrow> Inl (NetworkError_other (''Compression failed: '' @ e))
      | Inr encoder \<Rightarrow>
          (case gz_finish G encoder of
             Inl e \<Rightarrow> Inl (NetworkError_other (''Compression failed: '' @ e))
           | Inr compressed \<Rightarrow> Inr (Message_new compressed)))"

definition DecompressionProcessor_process :: "'e gzip_ops \<Rightarrow> processor" where
  "DecompressionProcessor_process G message =
     (case gz_read G (msg_data message) of
        Inl e \<Rightarrow> Inl (NetworkError_other (''Decompression failed: '' @ e))
      | Inr decompressed \<Rightarrow> Inr (Message_new decompressed))"

record EncryptionProcessor =
  ep_key :: "u8 list"

definition EncryptionProcessor_new :: "u8 list \<Rightarrow> EncryptionProcessor" where
  "EncryptionProcessor_new key = \<lparr>ep_key = key\<rparr>"

text \<open>The loop over \<open>data.iter().enumerate()\<close>.\<close>

fun xor_loop :: "u8 list \<Rightarrow> nat \<Rightarrow> u8 list \<Rightarrow> u8 list" where
  "xor_loop key i [] = []"
| "xor_loop key i (byte # data) =
     (let key_byte = key ! (i mod length key) in (byte XOR key_byte) # xor_loop key (Suc i) data)"

definition EncryptionProcessor_process :: "EncryptionProcessor \<Rightarrow> processor" where
  "EncryptionProcessor_process p message =
     (if ep_key p = [] then Inl (NetworkError_other ''Encryption key is empty'')
      else Inr (Message_new (xor_loop (ep_key p) 0 (msg_data message))))"

record ProcessorPipeline =
  processors :: "processor list"

definition ProcessorPipeline_new :: ProcessorPipeline where
  "ProcessorPipeline_new = \<lparr>processors = []\<rparr>"

definition ProcessorPipeline_default :: ProcessorPipeline where
  "ProcessorPipeline_default = ProcessorPipeline_new"

definition ProcessorPipeline_add :: "processor \<Rightarrow> ProcessorPipeline \<Rightarrow> ProcessorPipeline" where
  "ProcessorPipeline_add processor p = p\<lparr>processors := processors p @ [processor]\<rparr>"

definition ProcessorPipeline_add_arc :: "processor \<Rightarrow> ProcessorPipeline \<Rightarrow> ProcessorPipeline" where
  "ProcessorPipeline_add_arc processor p = p\<lparr>processors := processors p @ [processor]\<rparr>"

fun process_all :: "processor list \<Rightarrow> processor" where
  "process_all [] message = Inr message"
| "process_all (processor # ps) message =
     (case processor message of Inl e \<Rightarrow> Inl e | Inr message \<Rightarrow> process_all ps message)"

definition ProcessorPipeline_process :: "ProcessorPipeline \<Rightarrow> processor" where
  "ProcessorPipeline_process p message = process_all (processors p) message"

section \<open>The XOR encryption\<close>

lemma length_xor_loop [simp]: "length (xor_loop key i data) = length data"
  by (induction key i data rule: xor_loop.induct) (auto simp: Let_def)

lemma xor_loop_nth:
  "j < length data \<Longrightarrow> xor_loop key i data ! j = data ! j XOR key ! ((i + j) mod length key)"
  by (induction key i data arbitrary: j rule: xor_loop.induct) (auto simp: Let_def nth_Cons split: nat.splits)

lemma xor_loop_involution: "xor_loop key i (xor_loop key i data) = data"
  by (induction key i data rule: xor_loop.induct) (auto simp: Let_def xor.assoc)

section \<open>Codecs\<close>

text \<open>
  What a pair of processors promises when one undoes the other. Pipelines of such pairs
  undo each other when the second runs its processors in the reverse order.
\<close>

locale codec =
  fixes encode :: processor
    and decode :: processor
  assumes decode_encode: "encode m = Inr m' \<Longrightarrow> decode m' = Inr m"
begin

lemma decode_encoded: "(case encode m of Inl e \<Rightarrow> Inl e | Inr m' \<Rightarrow> decode m') =
    (case encode m of Inl e \<Rightarrow> Inl e | Inr _ \<Rightarrow> Inr m)"
  by (auto split: sum.splits dest: decode_encode)

end

locale gzip =
  fixes G :: "'e gzip_ops"
  assumes write_ok: "\<exists>e. gz_write G level data = Inr e"
    and finish_ok: "gz_write G level data = Inr e \<Longrightarrow> \<exists>c. gz_finish G e = Inr c"
    and read_finish: "gz_write G level data = Inr e \<Longrightarrow> gz_finish G e = Inr c \<Longrightarrow> gz_read G c = Inr data"
begin

lemma compress_ok: "\<exists>m'. CompressionProcessor_process G p m = Inr m'"
proof -
  obtain e where "gz_write G (cp_level p) (msg_data m) = Inr e" using write_ok by blast
  with finish_ok [OF this] show ?thesis by (auto simp: CompressionProcessor_process_def)
qed

lemma decompress_compress:
  "CompressionProcessor_process G p m = Inr m' \<Longrightarrow> DecompressionProcessor_process G m' = Inr m"
  by (auto simp: CompressionProcessor_process_def DecompressionProcessor_process_def Message_new_def
      read_finish split: sum.splits)

end

sublocale gzip \<subseteq> compression: codec "CompressionProcessor_process G p" "DecompressionProcessor_process G" for p
  by unfold_locales (rule decompress_compress)

lemma encryption_codec:
  "EncryptionProcessor_process p m = Inr m' \<Longrightarrow> EncryptionProcessor_process p m' = Inr m"
  by (auto simp: EncryptionProcessor_process_def Message_new_def xor_loop_involution split: if_splits)

interpretation encryption: codec "EncryptionProcessor_process p" "EncryptionProcessor_process p" for p
  by unfold_locales (rule encryption_codec)

interpretation identity: codec IdentityProcessor_process IdentityProcessor_process
  by unfold_locales (simp add: IdentityProcessor_process_def)

section \<open>Pipelines\<close>

lemma process_all_append:
  "process_all (ps @ qs) m = (case process_all ps m of Inl e \<Rightarrow> Inl e | Inr m' \<Rightarrow> process_all qs m')"
  by (induction ps arbitrary: m) (auto split: sum.splits)

text \<open>The pipeline as a chain of \<open>?\<close>: the specification of \<open>process\<close>.\<close>

definition try_then :: "Message net_result \<Rightarrow> processor \<Rightarrow> Message net_result" where
  "try_then r p = (case r of Inl e \<Rightarrow> Inl e | Inr m \<Rightarrow> p m)"

lemma process_all_fold: "process_all ps m = foldl try_then (Inr m) ps"
proof -
  have "foldl try_then r ps = (case r of Inl e \<Rightarrow> Inl e | Inr m \<Rightarrow> process_all ps m)" for r
    by (induction ps arbitrary: r) (auto simp: try_then_def split: sum.splits)
  then show ?thesis by simp
qed

lemma pipeline_codec:
  assumes "list_all2 codec ps qs" "process_all ps m = Inr m'"
  shows "process_all (rev qs) m' = Inr m"
  using assms
proof (induction arbitrary: m rule: list_all2_induct)
  case (Cons p ps q qs)
  then obtain m1 where m1: "p m = Inr m1" "process_all ps m1 = Inr m'" by (auto split: sum.splits)
  then have "process_all (rev qs) m' = Inr m1" by (intro Cons.IH)
  moreover have "q m1 = Inr m" using codec.decode_encode [OF Cons.hyps(1) m1(1)] .
  ultimately show ?case by (simp add: process_all_append)
qed simp

lemma processors_build:
  "processors (fold ProcessorPipeline_add ps p) = processors p @ ps"
  by (induction ps arbitrary: p) (auto simp: ProcessorPipeline_add_def)

section \<open>Properties\<close>

text \<open>
  The pipeline built by \<open>new\<close> and successive \<open>add\<close> runs its processors in the order they
  were added and stops at the first error: \<open>process\<close> equals the left-to-right chaining of the
  processors, so adding one more processor is chaining it to the result.
\<close>

theorem pipeline_process_chain:
  "ProcessorPipeline_process (fold ProcessorPipeline_add ps ProcessorPipeline_new) m = foldl try_then (Inr m) ps \<and>
   ProcessorPipeline_process (ProcessorPipeline_add q p) m = try_then (ProcessorPipeline_process p m) q"
  by (simp_all add: ProcessorPipeline_process_def processors_build ProcessorPipeline_new_def process_all_fold
      ProcessorPipeline_add_def)

text \<open>The stages of a pipeline and, for each, the processor that undoes it.\<close>

datatype stage = Encrypt "u8 list" | Compress u32 | Pass

fun forward :: "'e gzip_ops \<Rightarrow> stage \<Rightarrow> processor" where
  "forward G (Encrypt key) = EncryptionProcessor_process (EncryptionProcessor_new key)"
| "forward G (Compress level) = CompressionProcessor_process G (CompressionProcessor_new level)"
| "forward G Pass = IdentityProcessor_process"

fun backward :: "'e gzip_ops \<Rightarrow> stage \<Rightarrow> processor" where
  "backward G (Encrypt key) = EncryptionProcessor_process (EncryptionProcessor_new key)"
| "backward G (Compress level) = DecompressionProcessor_process G"
| "backward G Pass = IdentityProcessor_process"

context gzip
begin

lemma stage_codec: "codec (forward G st) (backward G st)"
  by (cases st) (simp_all add: encryption.codec_axioms identity.codec_axioms compression.codec_axioms)

lemma stage_ok: "st \<noteq> Encrypt [] \<Longrightarrow> \<exists>m'. forward G st m = Inr m'"
  using compress_ok
  by (cases st) (auto simp: EncryptionProcessor_process_def EncryptionProcessor_new_def IdentityProcessor_process_def)

lemma stages_ok: "Encrypt [] \<notin> set sts \<Longrightarrow> \<exists>m'. process_all (map (forward G) sts) m = Inr m'"
proof (induction sts arbitrary: m)
  case (Cons st sts)
  obtain m' where "forward G st m = Inr m'" using stage_ok [of st m] Cons.prems by auto
  with Cons show ?case by simp
qed simp

end

text \<open>
  C26. A pipeline of encoders is undone by the pipeline of their decoders added in the reverse
  order. It holds for every pipeline whose stages are codecs: here encryption with any key
  and gzip compression at any level, with the coder of \<open>flate2\<close> as an argument whose decoder
  inverts its encoder. Such a pipeline fails only for an empty encryption key.
\<close>

theorem pipeline_roundtrip:
  assumes "gzip G" "Encrypt [] \<notin> set stages"
  shows "\<exists>m'. ProcessorPipeline_process (fold ProcessorPipeline_add (map (forward G) stages) ProcessorPipeline_new) m = Inr m' \<and>
    ProcessorPipeline_process (fold ProcessorPipeline_add (rev (map (backward G) stages)) ProcessorPipeline_new) m' = Inr m"
proof -
  obtain m' where m': "process_all (map (forward G) stages) m = Inr m'"
    using gzip.stages_ok [OF assms] by blast
  have "list_all2 codec (map (forward G) stages) (map (backward G) stages)"
    using gzip.stage_codec [OF assms(1)] by (simp add: list_all2_conv_all_nth)
  from pipeline_codec [OF this m'] m' show ?thesis
    by (simp add: ProcessorPipeline_process_def processors_build ProcessorPipeline_new_def)
qed

text \<open>A coder that stores the data satisfies the law.\<close>

definition stored_gzip :: "u8 list gzip_ops" where
  "stored_gzip = \<lparr>gz_write = (\<lambda>level data. Inr data), gz_finish = (\<lambda>e. Inr (31 # e)),
     gz_read = (\<lambda>data. case data of b # rest \<Rightarrow> if b = 31 then Inr rest else Inl ''bad'' | [] \<Rightarrow> Inl ''bad'')\<rparr>"

interpretation stored: gzip stored_gzip
  by unfold_locales (auto simp: stored_gzip_def)

theorem pipeline_roundtrip_witness:
  "\<exists>m'. ProcessorPipeline_process (fold ProcessorPipeline_add
        (map (forward stored_gzip) [Compress 6, Encrypt [1, 2, 3]]) ProcessorPipeline_new) \<lparr>msg_data = [72, 105]\<rparr> = Inr m' \<and>
    ProcessorPipeline_process (fold ProcessorPipeline_add
        (rev (map (backward stored_gzip) [Compress 6, Encrypt [1, 2, 3]])) ProcessorPipeline_new) m' = Inr \<lparr>msg_data = [72, 105]\<rparr>"
  by (rule pipeline_roundtrip [OF stored.gzip_axioms]) simp

end
