(* ===== verification/Handlers.thy ===== *)
theory Handlers
  imports Server Processors
begin

text \<open>
  Session handlers (the trait \<open>SessionHandler\<close> of \<open>src/session/mod.rs\<close>) and the three handlers
  of \<open>src/integration/\<close> that wrap another one: logging, monitoring and processing on a thread
  pool. A callback takes the clock reading at which it runs, the session and the state of
  the handler, and gives the calls it makes on the session and its new state. The logger,
  the metrics and the thread pool come from other crates: their operations are arguments.
\<close>

section \<open>Model\<close>

record ('r, 'w, 'b, 'h) session_handler =
  on_connected :: "instant \<Rightarrow> ('r, 'w, 'b) Session \<Rightarrow> 'h \<Rightarrow> 'w session_event list \<times> 'h"
  on_message :: "('r, 'w, 'b, 'h) message_callback"
  on_disconnected :: "instant \<Rightarrow> ('r, 'w, 'b) Session \<Rightarrow> 'h \<Rightarrow> 'w session_event list \<times> 'h"

text \<open>
  What a session task does with its handler: \<open>on_connected\<close>, the session loop, and
  \<open>on_disconnected\<close> once the loop has ended.
\<close>

definition handle_session ::
  "'b bytes_mut \<Rightarrow> ('r, 'w, 'b, 'h) session_handler \<Rightarrow> instant \<Rightarrow> instant \<Rightarrow> call_times list \<Rightarrow> socket_read list \<Rightarrow>
     ('r, 'w, 'b) Session \<Rightarrow> 'h \<Rightarrow> Message list \<times> loop_end \<times> ('r, 'w, 'b) Session \<times> 'h" where
  "handle_session B H t t' calls reads s h =
     (let (events, h) = on_connected H t s h;
          s = fold (session_apply B) events s;
          (messages, e, s, h) = session_loop B (on_message H) calls reads s h
      in
        case e of
          Broke _ \<Rightarrow>
            let (events, h) = on_disconnected H t' s h
            in (messages, e, fold (session_apply B) events s, h)
        | _ \<Rightarrow> (messages, e, s, h))"

subsection \<open>Logging\<close>

record 'l logger_ops =
  log_info :: "string \<Rightarrow> 'l \<Rightarrow> 'l"
  log_debug :: "string \<Rightarrow> 'l \<Rightarrow> 'l"

record ('r, 'w, 'b, 'h) LoggingSessionHandler =
  lh_inner :: "('r, 'w, 'b, 'h) session_handler option"

definition LoggingSessionHandler_new :: "('r, 'w, 'b, 'h) LoggingSessionHandler" where
  "LoggingSessionHandler_new = \<lparr>lh_inner = None\<rparr>"

definition LoggingSessionHandler_wrap ::
  "('r, 'w, 'b, 'h) session_handler \<Rightarrow> ('r, 'w, 'b, 'h) LoggingSessionHandler" where
  "LoggingSessionHandler_wrap inner = \<lparr>lh_inner = Some inner\<rparr>"

definition LoggingSessionHandler_on_connected ::
  "'l logger_ops \<Rightarrow> ('r, 'w, 'b, 'h) LoggingSessionHandler \<Rightarrow> instant \<Rightarrow> ('r, 'w, 'b) Session \<Rightarrow> 'l \<times> 'h \<Rightarrow>
     'w session_event list \<times> 'l \<times> 'h" where
  "LoggingSessionHandler_on_connected L lh now s st =
     (let (l, h) = st;
          l = log_info L (''Session '' @ show_nat (unat (sess_id s)) @ '' connected from '' @ peer_addr s) l
      in case lh_inner lh of
           Some inner \<Rightarrow> let (events, h) = on_connected inner now s h in (events, l, h)
         | None \<Rightarrow> ([], l, h))"

definition LoggingSessionHandler_on_message ::
  "'l logger_ops \<Rightarrow> ('r, 'w, 'b, 'h) LoggingSessionHandler \<Rightarrow> instant \<Rightarrow> ('r, 'w, 'b) Session \<Rightarrow> Message \<Rightarrow> 'l \<times> 'h \<Rightarrow>
     'w session_event list \<times> 'l \<times> 'h" where
  "LoggingSessionHandler_on_message L lh now s message st =
     (let (l, h) = st;
          l = log_debug L (''Session '' @ show_nat (unat (sess_id s)) @ '' received message: '' @ Message_to_string message) l
      in case lh_inner lh of
           Some inner \<Rightarrow> let (events, h) = on_message inner now s message h in (events, l, h)
         | None \<Rightarrow> ([], l, h))"

definition LoggingSessionHandler_on_disconnected ::
  "'l logger_ops \<Rightarrow> ('r, 'w, 'b, 'h) LoggingSessionHandler \<Rightarrow> instant \<Rightarrow> ('r, 'w, 'b) Session \<Rightarrow> 'l \<times> 'h \<Rightarrow>
     'w session_event list \<times> 'l \<times> 'h" where
  "LoggingSessionHandler_on_disconnected L lh now s st =
     (let (l, h) = st;
          l = log_info L (''Session '' @ show_nat (unat (sess_id s)) @ '' disconnected (uptime: '' @
                show_duration (Session_uptime now s) @ '')'') l
      in case lh_inner lh of
           Some inner \<Rightarrow> let (events, h) = on_disconnected inner now s h in (events, l, h)
         | None \<Rightarrow> ([], l, h))"

definition logging_handler ::
  "'l logger_ops \<Rightarrow> ('r, 'w, 'b, 'h) LoggingSessionHandler \<Rightarrow> ('r, 'w, 'b, 'l \<times> 'h) session_handler" where
  "logging_handler L lh =
     \<lparr>on_connected = LoggingSessionHandler_on_connected L lh, on_message = LoggingSessionHandler_on_message L lh,
      on_disconnected = LoggingSessionHandler_on_disconnected L lh\<rparr>"

subsection \<open>Monitoring\<close>

text \<open>The counters and gauges of the monitoring crate, and the registry that creates them by name.\<close>

record ('c, 'g) metric_ops =
  monitor_counter :: "string \<Rightarrow> 'c"
  monitor_gauge :: "string \<Rightarrow> 'g"
  counter_inc :: "'c \<Rightarrow> 'c"
  counter_inc_by :: "u64 \<Rightarrow> 'c \<Rightarrow> 'c"
  counter_value :: "'c \<Rightarrow> u64"
  gauge_inc :: "'g \<Rightarrow> 'g"
  gauge_dec :: "'g \<Rightarrow> 'g"
  gauge_value :: "'g \<Rightarrow> int"

record ('c, 'g) metrics =
  connections_total :: 'c
  m_active_connections :: 'g
  messages_received_total :: 'c
  messages_sent_total :: 'c
  bytes_received_total :: 'c
  bytes_sent_total :: 'c

record ('s, 'r, 'w, 'b, 'c, 'g) MonitoredServer =
  ms_server :: "('s, 'r, 'w, 'b) TcpServer"
  ms_metrics :: "('c, 'g) metrics"

definition MonitoredServer_new ::
  "'s semaphore_ops \<Rightarrow> ('c, 'g) metric_ops \<Rightarrow> ServerConfig \<Rightarrow> ('s, 'r, 'w, 'b, 'c, 'g) MonitoredServer" where
  "MonitoredServer_new S M config =
     \<lparr>ms_server = TcpServer_with_config S config,
      ms_metrics =
        \<lparr>connections_total = monitor_counter M ''network_connections_total'',
         m_active_connections = monitor_gauge M ''network_active_connections'',
         messages_received_total = monitor_counter M ''network_messages_received_total'',
         messages_sent_total = monitor_counter M ''network_messages_sent_total'',
         bytes_received_total = monitor_counter M ''network_bytes_received_total'',
         bytes_sent_total = monitor_counter M ''network_bytes_sent_total''\<rparr>\<rparr>"

definition MonitoredServer_start ::
  "(string \<Rightarrow> string + 'a) \<Rightarrow> ('a \<Rightarrow> string + 'l) \<Rightarrow> ('s, 'r, 'w, 'b, 'c, 'g) MonitoredServer \<Rightarrow>
     unit net_result \<times> ('s, 'r, 'w, 'b, 'c, 'g) MonitoredServer" where
  "MonitoredServer_start parse_addr bind ms =
     (let (r, sv) = TcpServer_start parse_addr bind (ms_server ms) in (r, ms\<lparr>ms_server := sv\<rparr>))"

definition MonitoredServer_stop ::
  "(nat \<Rightarrow> ('s, 'r, 'w, 'b) TcpServer \<Rightarrow> ('s, 'r, 'w, 'b) TcpServer) \<Rightarrow> ('s, 'r, 'w, 'b, 'c, 'g) MonitoredServer \<Rightarrow>
     (unit net_result \<times> ('s, 'r, 'w, 'b, 'c, 'g) MonitoredServer) option" where
  "MonitoredServer_stop rt ms =
     map_option (\<lambda>(r, sv). (r, ms\<lparr>ms_server := sv\<rparr>)) (TcpServer_stop rt (ms_server ms))"

definition MonitoredServer_is_running :: "('s, 'r, 'w, 'b, 'c, 'g) MonitoredServer \<Rightarrow> bool" where
  "MonitoredServer_is_running ms = TcpServer_is_running (ms_server ms)"

definition MonitoredServer_connection_count :: "('s, 'r, 'w, 'b, 'c, 'g) MonitoredServer \<Rightarrow> u64" where
  "MonitoredServer_connection_count ms = TcpServer_connection_count (ms_server ms)"

definition MonitoredServer_record_message_sent ::
  "('c, 'g) metric_ops \<Rightarrow> nat \<Rightarrow> ('s, 'r, 'w, 'b, 'c, 'g) MonitoredServer \<Rightarrow> ('s, 'r, 'w, 'b, 'c, 'g) MonitoredServer" where
  "MonitoredServer_record_message_sent M n ms =
     (let m = ms_metrics ms;
          m = m\<lparr>messages_sent_total := counter_inc M (messages_sent_total m)\<rparr>;
          m = m\<lparr>bytes_sent_total := counter_inc_by M (of_nat n) (bytes_sent_total m)\<rparr>
      in ms\<lparr>ms_metrics := m\<rparr>)"

definition MonitoringSessionHandler_on_connected ::
  "('c, 'g) metric_ops \<Rightarrow> ('r, 'w, 'b, 'h) session_handler \<Rightarrow> instant \<Rightarrow> ('r, 'w, 'b) Session \<Rightarrow>
     ('c, 'g) metrics \<times> 'h \<Rightarrow> 'w session_event list \<times> ('c, 'g) metrics \<times> 'h" where
  "MonitoringSessionHandler_on_connected M inner now s st =
     (let (m, h) = st;
          m = m\<lparr>connections_total := counter_inc M (connections_total m)\<rparr>;
          m = m\<lparr>m_active_connections := gauge_inc M (m_active_connections m)\<rparr>;
          (events, h) = on_connected inner now s h
      in (events, m, h))"

definition MonitoringSessionHandler_on_message ::
  "('c, 'g) metric_ops \<Rightarrow> ('r, 'w, 'b, 'h) session_handler \<Rightarrow> instant \<Rightarrow> ('r, 'w, 'b) Session \<Rightarrow> Message \<Rightarrow>
     ('c, 'g) metrics \<times> 'h \<Rightarrow> 'w session_event list \<times> ('c, 'g) metrics \<times> 'h" where
  "MonitoringSessionHandler_on_message M inner now s message st =
     (let (m, h) = st;
          m = m\<lparr>messages_received_total := counter_inc M (messages_received_total m)\<rparr>;
          m = m\<lparr>bytes_received_total := counter_inc_by M (of_nat (Message_size message)) (bytes_received_total m)\<rparr>;
          (events, h) = on_message inner now s message h
      in (events, m, h))"

definition MonitoringSessionHandler_on_disconnected ::
  "('c, 'g) metric_ops \<Rightarrow> ('r, 'w, 'b, 'h) session_handler \<Rightarrow> instant \<Rightarrow> ('r, 'w, 'b) Session \<Rightarrow>
     ('c, 'g) metrics \<times> 'h \<Rightarrow> 'w session_event list \<times> ('c, 'g) metrics \<times> 'h" where
  "MonitoringSessionHandler_on_disconnected M inner now s st =
     (let (m, h) = st;
          m = m\<lparr>m_active_connections := gauge_dec M (m_active_connections m)\<rparr>;
          (events, h) = on_disconnected inner now s h
      in (events, m, h))"

definition monitoring_handler ::
  "('c, 'g) metric_ops \<Rightarrow> ('r, 'w, 'b, 'h) session_handler \<Rightarrow>
     ('r, 'w, 'b, ('c, 'g) metrics \<times> 'h) session_handler" where
  "monitoring_handler M inner =
     \<lparr>on_connected = MonitoringSessionHandler_on_connected M inner,
      on_message = MonitoringSessionHandler_on_message M inner,
      on_disconnected = MonitoringSessionHandler_on_disconnected M inner\<rparr>"

subsection \<open>Processing on a thread pool\<close>

text \<open>
  \<open>pool_execute\<close> submits a job: an error of the submission, a job that is dropped before it
  sends its result (\<open>Inr False\<close>), or one that runs (\<open>Inr True\<close>). The texts given to
  \<open>tracing::error!\<close> are kept in a list.
\<close>

record 'p pool_ops =
  pool_with_config :: "nat \<Rightarrow> string + 'p"
  pool_start :: "'p \<Rightarrow> string + 'p"
  pool_execute :: "'p \<Rightarrow> (string + bool) \<times> 'p"

record ('r, 'w, 'b, 'h) ThreadPoolSessionHandler =
  tp_inner :: "('r, 'w, 'b, 'h) session_handler"
  tp_processor :: processor

definition ThreadPoolSessionHandler_with_pool ::
  "('r, 'w, 'b, 'h) session_handler \<Rightarrow> processor \<Rightarrow> 'p \<Rightarrow> ('r, 'w, 'b, 'h) ThreadPoolSessionHandler \<times> 'p" where
  "ThreadPoolSessionHandler_with_pool inner processor thread_pool =
     (\<lparr>tp_inner = inner, tp_processor = processor\<rparr>, thread_pool)"

definition ThreadPoolSessionHandler_new ::
  "'p pool_ops \<Rightarrow> ('r, 'w, 'b, 'h) session_handler \<Rightarrow> processor \<Rightarrow> nat \<Rightarrow>
     (('r, 'w, 'b, 'h) ThreadPoolSessionHandler \<times> 'p) net_result" where
  "ThreadPoolSessionHandler_new P inner processor pool_size =
     (case pool_with_config P pool_size of
        Inl e \<Rightarrow> Inl (NetworkError_other (''Failed to create thread pool: '' @ e))
      | Inr thread_pool \<Rightarrow>
          (case pool_start P thread_pool of
             Inl e \<Rightarrow> Inl (NetworkError_other (''Failed to start thread pool: '' @ e))
           | Inr thread_pool \<Rightarrow> Inr (\<lparr>tp_inner = inner, tp_processor = processor\<rparr>, thread_pool)))"

definition ThreadPoolSessionHandler_on_connected ::
  "('r, 'w, 'b, 'h) ThreadPoolSessionHandler \<Rightarrow> instant \<Rightarrow> ('r, 'w, 'b) Session \<Rightarrow> 'p \<times> string list \<times> 'h \<Rightarrow>
     'w session_event list \<times> 'p \<times> string list \<times> 'h" where
  "ThreadPoolSessionHandler_on_connected tp now s st =
     (let (p, errors, h) = st; (events, h) = on_connected (tp_inner tp) now s h in (events, p, errors, h))"

definition ThreadPoolSessionHandler_on_message ::
  "'p pool_ops \<Rightarrow> ('r, 'w, 'b, 'h) ThreadPoolSessionHandler \<Rightarrow> instant \<Rightarrow> ('r, 'w, 'b) Session \<Rightarrow> Message \<Rightarrow>
     'p \<times> string list \<times> 'h \<Rightarrow> 'w session_event list \<times> 'p \<times> string list \<times> 'h" where
  "ThreadPoolSessionHandler_on_message P tp now s message st =
     (let (p, errors, h) = st;
          sid = show_nat (unat (sess_id s));
          (job_result, p) = pool_execute P p
      in
        case job_result of
          Inl e \<Rightarrow> ([], p, errors @ [''Failed to submit job to thread pool for session '' @ sid @ '': '' @ e], h)
        | Inr executed \<Rightarrow>
            if executed
            then
              (case tp_processor tp message of
                 Inr processed_message \<Rightarrow>
                   let (events, h) = on_message (tp_inner tp) now s processed_message h in (events, p, errors, h)
               | Inl e \<Rightarrow>
                   ([], p, errors @ [''Message processing failed for session '' @ sid @ '': '' @ NetworkError_to_string e], h))
            else ([], p, errors @ [''Thread pool job cancelled for session '' @ sid], h))"

definition ThreadPoolSessionHandler_on_disconnected ::
  "('r, 'w, 'b, 'h) ThreadPoolSessionHandler \<Rightarrow> instant \<Rightarrow> ('r, 'w, 'b) Session \<Rightarrow> 'p \<times> string list \<times> 'h \<Rightarrow>
     'w session_event list \<times> 'p \<times> string list \<times> 'h" where
  "ThreadPoolSessionHandler_on_disconnected tp now s st =
     (let (p, errors, h) = st; (events, h) = on_disconnected (tp_inner tp) now s h in (events, p, errors, h))"

definition thread_pool_handler ::
  "'p pool_ops \<Rightarrow> ('r, 'w, 'b, 'h) ThreadPoolSessionHandler \<Rightarrow>
     ('r, 'w, 'b, 'p \<times> string list \<times> 'h) session_handler" where
  "thread_pool_handler P tp =
     \<lparr>on_connected = ThreadPoolSessionHandler_on_connected tp,
      on_message = ThreadPoolSessionHandler_on_message P tp,
      on_disconnected = ThreadPoolSessionHandler_on_disconnected tp\<rparr>"

section \<open>Wrappers that leave the wrapped handler alone\<close>

text \<open>
  A wrapper is transparent when each callback makes the same calls on the session as the
  wrapped handler and changes the wrapped handler's part of the state, \<open>inner_state\<close>, in the
  same way. Then whole sessions are the same.
\<close>

locale transparent_wrapper =
  fixes W :: "('r, 'w, 'b, 'x) session_handler"
    and H :: "('r, 'w, 'b, 'h) session_handler"
    and inner_state :: "'x \<Rightarrow> 'h"
  assumes connected: "apsnd inner_state (on_connected W t s x) = on_connected H t s (inner_state x)"
    and message: "apsnd inner_state (on_message W t s m x) = on_message H t s m (inner_state x)"
    and disconnected: "apsnd inner_state (on_disconnected W t s x) = on_disconnected H t s (inner_state x)"
begin

lemma loop_same:
  "session_loop B (on_message H) calls reads s (inner_state x) =
     (case session_loop B (on_message W) calls reads s x of (ms, e, s', x') \<Rightarrow> (ms, e, s', inner_state x'))"
proof (induction calls arbitrary: reads s x)
  case (Cons c calls)
  obtain clock now now' where c: "c = (clock, now, now')" by (cases c) auto
  show ?case
  proof (cases "Session_receive B clock now now' reads s")
    case (Returned a)
    obtain r s1 reads1 where a: "a = (r, s1, reads1)" by (cases a) auto
    show ?thesis
    proof (cases "\<exists>m. r = Some (Inr m)")
      case False
      then show ?thesis using Returned a c by (auto split: option.splits sum.splits)
    next
      case True
      then obtain m where m: "r = Some (Inr m)" by blast
      obtain events x1 where x1: "on_message W now' s1 m x = (events, x1)" by fastforce
      then have "on_message H now' s1 m (inner_state x) = (events, inner_state x1)"
        using message [of now' s1 m x] by simp
      then show ?thesis using Returned a m c x1 Cons.IH [of reads1 "fold (session_apply B) events s1" x1]
        by (auto simp: Let_def split: prod.splits)
    qed
  qed (use c in simp)
qed simp

lemma handle_same:
  "handle_session B H t t' calls reads s (inner_state x) =
     (case handle_session B W t t' calls reads s x of (ms, e, s', x') \<Rightarrow> (ms, e, s', inner_state x'))"
proof -
  obtain events x1 where x1: "on_connected W t s x = (events, x1)" by fastforce
  then have h1: "on_connected H t s (inner_state x) = (events, inner_state x1)" using connected [of t s x] by simp
  obtain ms e s2 x2 where x2: "session_loop B (on_message W) calls reads (fold (session_apply B) events s) x1 = (ms, e, s2, x2)"
    by (cases "session_loop B (on_message W) calls reads (fold (session_apply B) events s) x1") auto
  then have h2: "session_loop B (on_message H) calls reads (fold (session_apply B) events s) (inner_state x1) =
      (ms, e, s2, inner_state x2)" using loop_same [of B calls reads "fold (session_apply B) events s" x1] by simp
  obtain events' x3 where x3: "on_disconnected W t' s2 x2 = (events', x3)" by fastforce
  then have h3: "on_disconnected H t' s2 (inner_state x2) = (events', inner_state x3)"
    using disconnected [of t' s2 x2] by simp
  show ?thesis by (cases e) (simp_all add: handle_session_def x1 h1 x2 h2 x3 h3)
qed

end

interpretation logging: transparent_wrapper "logging_handler L (LoggingSessionHandler_wrap H)" H snd for L H
  by unfold_locales
    (simp_all add: logging_handler_def LoggingSessionHandler_on_connected_def LoggingSessionHandler_on_message_def
      LoggingSessionHandler_on_disconnected_def LoggingSessionHandler_wrap_def split_beta)

interpretation monitoring: transparent_wrapper "monitoring_handler M H" H snd for M H
  by unfold_locales
    (simp_all add: monitoring_handler_def MonitoringSessionHandler_on_connected_def
      MonitoringSessionHandler_on_message_def MonitoringSessionHandler_on_disconnected_def Let_def split_beta)

text \<open>
  C24. Logging and monitoring do not change a session. For every handler, every session and
  everything the peer sends, a session run with the handler wrapped by
  \<open>LoggingSessionHandler\<close> around \<open>MonitoringSessionHandler\<close> delivers the same messages, ends in
  the same way, makes the same calls on the session and leaves the handler in the same
  state as a session run with the handler itself.
\<close>

theorem handlers_transparent:
  "handle_session B H t t' calls reads s h =
     (case handle_session B (logging_handler L (LoggingSessionHandler_wrap (monitoring_handler M H)))
         t t' calls reads s (l, m, h) of
        (ms, e, s', l', m', h') \<Rightarrow> (ms, e, s', h'))"
  using monitoring.handle_same [of B H t t' calls reads s "(m, h)" M]
    logging.handle_same [of B "monitoring_handler M H" t t' calls reads s "(l, m, h)" L]
  by (auto split: prod.splits)

section \<open>What the metrics count\<close>

locale metric_laws =
  fixes M :: "('c, 'g) metric_ops"
  assumes value_inc: "counter_value M (counter_inc M c) = counter_value M c + 1"
    and value_inc_by: "counter_value M (counter_inc_by M n c) = counter_value M c + n"
    and value_gauge_inc: "gauge_value M (gauge_inc M g) = gauge_value M g + 1"
    and value_gauge_dec: "gauge_value M (gauge_dec M g) = gauge_value M g - 1"
begin

text \<open>The values of the metrics: connections, active connections, received messages and bytes.\<close>

definition reading :: "('c, 'g) metrics \<Rightarrow> u64 \<times> int \<times> u64 \<times> u64" where
  "reading m = (counter_value M (connections_total m), gauge_value M (m_active_connections m),
     counter_value M (messages_received_total m), counter_value M (bytes_received_total m))"

lemma loop_reading:
  "session_loop B (on_message (monitoring_handler M H)) calls reads s (m, h) = (ms, e, s', m', h') \<Longrightarrow>
   reading m' = (case reading m of (c, g, n, b) \<Rightarrow>
     (c, g, n + of_nat (length ms), b + of_nat (sum_list (map Message_size ms))))"
proof (induction calls arbitrary: reads s m h ms)
  case (Cons c calls)
  obtain clock now now' where c: "c = (clock, now, now')" by (cases c) auto
  show ?case
  proof (cases "\<exists>msg s1 reads1. Session_receive B clock now now' reads s = Returned (Some (Inr msg), s1, reads1)")
    case False
    then have "ms = [] \<and> m' = m"
      using Cons.prems c by (auto split: run.splits option.splits sum.splits prod.splits)
    then show ?thesis by (simp add: split_beta)
  next
    case True
    then obtain msg s1 reads1 where recv: "Session_receive B clock now now' reads s = Returned (Some (Inr msg), s1, reads1)"
      by blast
    obtain events m1 h1 where cb: "on_message (monitoring_handler M H) now' s1 msg (m, h) = (events, m1, h1)"
      by (cases "on_message (monitoring_handler M H) now' s1 msg (m, h)") auto
    then have m1: "reading m1 = (case reading m of (c, g, n, b) \<Rightarrow> (c, g, n + 1, b + of_nat (Message_size msg)))"
      by (auto simp: monitoring_handler_def MonitoringSessionHandler_on_message_def reading_def value_inc value_inc_by
          Let_def split: prod.splits)
    obtain ms1 where ms1: "session_loop B (on_message (monitoring_handler M H)) calls reads1
        (fold (session_apply B) events s1) (m1, h1) = (ms1, e, s', m', h')" "ms = msg # ms1"
      using Cons.prems by (auto simp: c recv cb Let_def split: prod.splits)
    from Cons.IH [OF ms1(1)] m1 show ?thesis by (simp add: ms1(2) split_beta)
  qed
qed (simp add: split_beta)

lemma handle_reading:
  assumes "handle_session B (monitoring_handler M H) t t' calls reads s (m, h) = (ms, e, s', m', h')"
  shows "reading m' = (case reading m of (c, g, n, b) \<Rightarrow>
     (c + 1, if \<exists>x. e = Broke x then g else g + 1, n + of_nat (length ms), b + of_nat (sum_list (map Message_size ms))))"
proof -
  obtain events m1 h1 where con: "on_connected (monitoring_handler M H) t s (m, h) = (events, m1, h1)"
    by (cases "on_connected (monitoring_handler M H) t s (m, h)") auto
  then have m1: "reading m1 = (case reading m of (c, g, n, b) \<Rightarrow> (c + 1, g + 1, n, b))"
    by (auto simp: monitoring_handler_def MonitoringSessionHandler_on_connected_def reading_def value_inc
        value_gauge_inc Let_def split: prod.splits)
  obtain ms2 e2 s2 m2 h2 where
    loop: "session_loop B (on_message (monitoring_handler M H)) calls reads (fold (session_apply B) events s) (m1, h1) =
      (ms2, e2, s2, m2, h2)"
    by (cases "session_loop B (on_message (monitoring_handler M H)) calls reads (fold (session_apply B) events s) (m1, h1)") auto
  obtain events3 m3 h3 where dis: "on_disconnected (monitoring_handler M H) t' s2 (m2, h2) = (events3, m3, h3)"
    by (cases "on_disconnected (monitoring_handler M H) t' s2 (m2, h2)") auto
  then have m3: "reading m3 = (case reading m2 of (c, g, n, b) \<Rightarrow> (c, g - 1, n, b))"
    by (auto simp: monitoring_handler_def MonitoringSessionHandler_on_disconnected_def reading_def value_gauge_dec
        Let_def split: prod.splits)
  show ?thesis using assms loop_reading [OF loop] m1 m3
    by (cases e2) (auto simp: handle_session_def con loop dis split_beta)
qed

end

text \<open>Counters as words and gauges as integers.\<close>

definition plain_metrics :: "(u64, int) metric_ops" where
  "plain_metrics = \<lparr>monitor_counter = (\<lambda>_. 0), monitor_gauge = (\<lambda>_. 0), counter_inc = (\<lambda>c. c + 1),
     counter_inc_by = (\<lambda>n c. c + n), counter_value = (\<lambda>c. c), gauge_inc = (\<lambda>g. g + 1), gauge_dec = (\<lambda>g. g - 1),
     gauge_value = (\<lambda>g. g)\<rparr>"

interpretation plain: metric_laws plain_metrics
  by unfold_locales (simp_all add: plain_metrics_def)

text \<open>
  C25. The metrics of a monitored server are exact. A monitored session that ends adds one to
  the connections, the number of delivered messages to the messages received, the sum of
  their sizes to the bytes received, and leaves the number of active connections as it
  was; a session whose task is cut short (it panics, or is still waiting when it is aborted)
  stays counted as active.
\<close>

theorem monitor_counts_session:
  assumes "metric_laws M"
    and "handle_session B (monitoring_handler M H) t t' calls reads s (m, h) = (ms, e, s', m', h')"
  shows "counter_value M (connections_total m') = counter_value M (connections_total m) + 1 \<and>
    counter_value M (messages_received_total m') = counter_value M (messages_received_total m) + of_nat (length ms) \<and>
    counter_value M (bytes_received_total m') =
      counter_value M (bytes_received_total m) + of_nat (sum_list (map Message_size ms)) \<and>
    gauge_value M (m_active_connections m') =
      gauge_value M (m_active_connections m) + (if \<exists>x. e = Broke x then 0 else 1)"
  using metric_laws.handle_reading [OF assms] by (auto simp: metric_laws.reading_def [OF assms(1)])

text \<open>A handler that does nothing.\<close>

definition silent_handler :: "('r, 'w, 'b, unit) session_handler" where
  "silent_handler = \<lparr>on_connected = (\<lambda>_ _ h. ([], h)), on_message = (\<lambda>_ _ _ h. ([], h)), on_disconnected = (\<lambda>_ _ h. ([], h))\<rparr>"

lemma handle_session_delivers:
  assumes "bytes_buffer B" "\<forall>m \<in> set ms. Message_fits m" "sending_handler (on_message H)" "length ms < length calls"
    and "on_connected H t s h = ([], h1)"
    and "sess_active s" "read_half s \<noteq> None" "sess_read_timeout s * 3 \<le> duration_max"
    and "prompt_calls (sess_idle_timeout s) (sess_read_timeout s * 3) (last_activity s) calls"
    and "chunk_reads reads" "bm_slice B (read_buffer s) @ read_bytes reads = concat (map Message_frame ms)"
  shows "\<exists>s' h'. handle_session B H t t' calls (reads @ [Completed (Inr [])]) s h =
    (ms, Broke closed_by_peer_error, s', h')"
proof -
  obtain s2 h2 where "session_loop B (on_message H) calls (reads @ [Completed (Inr [])]) s h1 =
      (ms, Broke closed_by_peer_error, s2, h2)"
    using bytes_buffer.session_loop_delivers [OF assms(1-4,6-8) order_refl assms(9-11)] by blast
  then show ?thesis by (auto simp: handle_session_def assms(5) split: prod.splits)
qed

definition example_metrics :: "(u64, int) metrics" where
  "example_metrics = \<lparr>connections_total = 4, m_active_connections = 2, messages_received_total = 10,
     messages_sent_total = 0, bytes_received_total = 100, bytes_sent_total = 0\<rparr>"

text \<open>Two messages of one and two bytes on one connection.\<close>

theorem monitor_counts_session_witness:
  "\<exists>s' m' h'. handle_session vec_bytes (monitoring_handler plain_metrics silent_handler) 100 300
      [(\<lambda>_. 0, 200, 210), (\<lambda>_. 0, 220, 230), (\<lambda>_. 0, 240, 250)] (example_reads @ [Completed (Inr [])])
      example_session (example_metrics, ()) =
      ([\<lparr>msg_data = [65]\<rparr>, \<lparr>msg_data = [66, 67]\<rparr>], Broke closed_by_peer_error, s', m', h') \<and>
    connections_total m' = 5 \<and> messages_received_total m' = 12 \<and> bytes_received_total m' = 103 \<and>
    m_active_connections m' = 2"
proof -
  let ?H = "monitoring_handler plain_metrics silent_handler"
  let ?ms = "[\<lparr>msg_data = [65]\<rparr>, \<lparr>msg_data = [66, 67]\<rparr>]"
  obtain h1 where con: "on_connected ?H 100 example_session (example_metrics, ()) = ([], h1)"
    by (simp add: monitoring_handler_def MonitoringSessionHandler_on_connected_def silent_handler_def Let_def)
  have sending: "sending_handler (on_message ?H)"
    by (simp add: sending_handler_def monitoring_handler_def MonitoringSessionHandler_on_message_def silent_handler_def
        Let_def split_beta)
  have "\<exists>s' x'. handle_session vec_bytes ?H 100 300 [(\<lambda>_. 0, 200, 210), (\<lambda>_. 0, 220, 230), (\<lambda>_. 0, 240, 250)]
      (example_reads @ [Completed (Inr [])]) example_session (example_metrics, ()) =
      (?ms, Broke closed_by_peer_error, s', x')"
  proof (rule handle_session_delivers [OF vec.bytes_buffer_axioms _ sending _ con])
    show "bm_slice vec_bytes (read_buffer example_session) @ read_bytes example_reads = concat (map Message_frame ?ms)"
      by (simp add: example_session_def example_reads_def Session_new_def vec_bytes_def Message_frame_def
            u32_to_be_bytes_def)
  qed (simp_all add: example_session_def example_reads_def Session_new_def elapsed_def from_secs_def duration_max_def
      Message_fits_def MAX_MESSAGE_SIZE_def)
  then obtain s' m' h' where run: "handle_session vec_bytes ?H 100 300
      [(\<lambda>_. 0, 200, 210), (\<lambda>_. 0, 220, 230), (\<lambda>_. 0, 240, 250)]
      (example_reads @ [Completed (Inr [])]) example_session (example_metrics, ()) =
      (?ms, Broke closed_by_peer_error, s', m', h')" by auto
  with monitor_counts_session [OF plain.metric_laws_axioms run] show ?thesis
    by (simp add: plain_metrics_def example_metrics_def Message_size_def)
qed

section \<open>What reaches the handler behind a thread pool\<close>

text \<open>A handler that also keeps the messages it is given.\<close>

definition recording_handler ::
  "('r, 'w, 'b, 'h) session_handler \<Rightarrow> ('r, 'w, 'b, Message list \<times> 'h) session_handler" where
  "recording_handler H =
     \<lparr>on_connected = (\<lambda>t s (ms, h). let (events, h) = on_connected H t s h in (events, ms, h)),
      on_message = (\<lambda>t s m (ms, h). let (events, h) = on_message H t s m h in (events, ms @ [m], h)),
      on_disconnected = (\<lambda>t s (ms, h). let (events, h) = on_disconnected H t s h in (events, ms, h))\<rparr>"

interpretation recording: transparent_wrapper "recording_handler H" H snd for H
  by unfold_locales (simp_all add: recording_handler_def split_beta)

text \<open>The messages that survive processing.\<close>

definition processed :: "processor \<Rightarrow> Message list \<Rightarrow> Message list" where
  "processed p ms = concat (map (\<lambda>m. case p m of Inr m' \<Rightarrow> [m'] | Inl _ \<Rightarrow> []) ms)"

definition pool_runs_jobs :: "'p pool_ops \<Rightarrow> bool" where
  "pool_runs_jobs P \<longleftrightarrow> (\<forall>p. fst (pool_execute P p) = Inr True)"

lemma thread_pool_loop:
  assumes "pool_runs_jobs P"
    and "session_loop B (on_message (thread_pool_handler P \<lparr>tp_inner = recording_handler H, tp_processor = proc\<rparr>)) calls reads s
      (p, errors, log, h) = (ms, e, s', p', errors', log', h')"
  shows "log' = log @ processed proc ms \<and>
    length errors' = length errors + (length ms - length (processed proc ms)) \<and>
    length (processed proc ms) \<le> length ms"
  using assms(2)
proof (induction calls arbitrary: reads s p errors log h ms)
  case (Cons c calls)
  let ?T = "thread_pool_handler P \<lparr>tp_inner = recording_handler H, tp_processor = proc\<rparr>"
  obtain clock now now' where c: "c = (clock, now, now')" by (cases c) auto
  show ?case
  proof (cases "\<exists>m s1 reads1. Session_receive B clock now now' reads s = Returned (Some (Inr m), s1, reads1)")
    case False
    then have "ms = [] \<and> errors' = errors \<and> log' = log"
      using Cons.prems c by (auto split: run.splits option.splits sum.splits prod.splits)
    then show ?thesis by (simp add: processed_def)
  next
    case True
    then obtain m s1 reads1 where recv: "Session_receive B clock now now' reads s = Returned (Some (Inr m), s1, reads1)"
      by blast
    obtain events p1 errors1 log1 h1 where
      cb: "on_message ?T now' s1 m (p, errors, log, h) = (events, p1, errors1, log1, h1)"
      by (cases "on_message ?T now' s1 m (p, errors, log, h)") auto
    have "fst (pool_execute P p) = Inr True" using assms(1) by (simp add: pool_runs_jobs_def)
    then have one: "log1 = log @ processed proc [m]" "length errors1 = length errors + (1 - length (processed proc [m]))"
        "length (processed proc [m]) \<le> 1"
      using cb by (auto simp: thread_pool_handler_def ThreadPoolSessionHandler_on_message_def recording_handler_def
          processed_def Let_def split: sum.splits prod.splits)
    obtain ms1 where ms1: "session_loop B (on_message ?T) calls reads1 (fold (session_apply B) events s1)
        (p1, errors1, log1, h1) = (ms1, e, s', p', errors', log', h')" "ms = m # ms1"
      using Cons.prems by (auto simp: c recv cb Let_def split: prod.splits)
    have "processed proc ms = processed proc [m] @ processed proc ms1" by (simp add: ms1(2) processed_def)
    then show ?thesis using Cons.IH [OF ms1(1)] one by (simp add: ms1(2))
  qed
qed (simp add: processed_def)

text \<open>
  Behind a thread pool that runs its jobs, the inner handler receives exactly the results
  of the processor on the delivered messages, in the order of arrival; a message whose
  processing fails is dropped with one line of error output and does not end the session.
\<close>

theorem thread_pool_delivers_processed:
  assumes "pool_runs_jobs P"
    and "session_loop B (on_message (thread_pool_handler P
          (fst (ThreadPoolSessionHandler_with_pool (recording_handler H) proc p)))) calls reads s
        (p, [], [], h) = (ms, e, s', p', errors, log, h')"
  shows "log = processed proc ms \<and> length errors + length (processed proc ms) = length ms"
  using thread_pool_loop [OF assms(1), of B H proc calls reads s p "[]" "[]" h ms e s' p' errors log h'] assms(2)
  by (simp add: ThreadPoolSessionHandler_with_pool_def)

definition eager_pool :: "unit pool_ops" where
  "eager_pool = \<lparr>pool_with_config = (\<lambda>_. Inr ()), pool_start = (\<lambda>p. Inr p), pool_execute = (\<lambda>p. (Inr True, p))\<rparr>"

lemma eager_pool_runs: "pool_runs_jobs eager_pool"
  by (simp add: pool_runs_jobs_def eager_pool_def)

lemma thread_pool_sending:
  assumes "sending_handler (on_message (tp_inner tp))"
  shows "sending_handler (on_message (thread_pool_handler P tp))"
  using assms unfolding sending_handler_def
  by (auto simp: thread_pool_handler_def ThreadPoolSessionHandler_on_message_def Let_def split_beta split: sum.splits)

lemma recording_sending: "sending_handler (on_message H) \<Longrightarrow> sending_handler (on_message (recording_handler H))"
  by (simp add: sending_handler_def recording_handler_def split_beta)

lemma silent_sending: "sending_handler (on_message silent_handler)"
  by (simp add: sending_handler_def silent_handler_def)

text \<open>Two messages, decrypted with the key \<open>[1]\<close>.\<close>

theorem thread_pool_delivers_processed_witness:
  "\<exists>s' p' errors h'. session_loop vec_bytes (on_message (thread_pool_handler eager_pool
        (fst (ThreadPoolSessionHandler_with_pool (recording_handler silent_handler)
          (EncryptionProcessor_process (EncryptionProcessor_new [1])) ()))))
      [(\<lambda>_. 0, 200, 210), (\<lambda>_. 0, 220, 230), (\<lambda>_. 0, 240, 250)] (example_reads @ [Completed (Inr [])])
      example_session ((), [], [], ()) =
      ([\<lparr>msg_data = [65]\<rparr>, \<lparr>msg_data = [66, 67]\<rparr>], Broke closed_by_peer_error, s', p', errors,
       [\<lparr>msg_data = [64]\<rparr>, \<lparr>msg_data = [67, 66]\<rparr>], h') \<and> errors = []"
proof -
  let ?tp = "fst (ThreadPoolSessionHandler_with_pool (recording_handler silent_handler)
    (EncryptionProcessor_process (EncryptionProcessor_new [1])) ())"
  let ?ms = "[\<lparr>msg_data = [65]\<rparr>, \<lparr>msg_data = [66, 67]\<rparr>]"
  have sending: "sending_handler (on_message (thread_pool_handler eager_pool ?tp))"
    by (intro thread_pool_sending) (simp add: ThreadPoolSessionHandler_with_pool_def recording_sending silent_sending)
  have "\<exists>s' x'. session_loop vec_bytes (on_message (thread_pool_handler eager_pool ?tp))
      [(\<lambda>_. 0, 200, 210), (\<lambda>_. 0, 220, 230), (\<lambda>_. 0, 240, 250)] (example_reads @ [Completed (Inr [])])
      example_session ((), [], [], ()) = (?ms, Broke closed_by_peer_error, s', x')"
  proof (rule vec.session_loop_delivers [OF _ sending _ _ _ _ order_refl])
    show "bm_slice vec_bytes (read_buffer example_session) @ read_bytes example_reads = concat (map Message_frame ?ms)"
      by (simp add: example_session_def example_reads_def Session_new_def vec_bytes_def Message_frame_def
            u32_to_be_bytes_def)
  qed (simp_all add: example_session_def example_reads_def Session_new_def elapsed_def from_secs_def duration_max_def
      Message_fits_def MAX_MESSAGE_SIZE_def)
  then obtain s' p' errors log h' where run: "session_loop vec_bytes (on_message (thread_pool_handler eager_pool ?tp))
      [(\<lambda>_. 0, 200, 210), (\<lambda>_. 0, 220, 230), (\<lambda>_. 0, 240, 250)] (example_reads @ [Completed (Inr [])])
      example_session ((), [], [], ()) = (?ms, Broke closed_by_peer_error, s', p', errors, log, h')" by auto
  have "processed (EncryptionProcessor_process (EncryptionProcessor_new [1])) ?ms =
      [\<lparr>msg_data = [64]\<rparr>, \<lparr>msg_data = [67, 66]\<rparr>]"
    by (simp add: processed_def EncryptionProcessor_process_def EncryptionProcessor_new_def Message_new_def Let_def)
  with thread_pool_delivers_processed [OF eager_pool_runs run] run show ?thesis by auto
qed

end
