(* ===== verification/Echo_Programs.thy ===== *)
theory Echo_Programs
  imports Client Handlers
begin

text \<open>
  The programs of \<open>examples/\<close>: a client and a server that echoes, and a pair that exchanges
  compressed messages with the echo behind a thread pool. They put every layer of the crate
  together. What the programs print is not modelled; it has no influence on what they do.
  The environment answers a client between \<open>send\<close> and \<open>receive\<close>: it sees the stream and gives
  the reads that arrive. Below, the environment is the other program.
\<close>

section \<open>The clients\<close>

text \<open>
  \<open>client.send(&msg).await?; client.receive().await?\<close>. Reads that a call of \<open>receive\<close> leaves
  on the socket are there for the next one.
\<close>

definition request ::
  "'b bytes_mut \<Rightarrow> (duration \<Rightarrow> 's \<Rightarrow> (string + unit) timed) \<Rightarrow> 's writer \<Rightarrow> (nat \<Rightarrow> duration) \<Rightarrow>
     ('s option \<Rightarrow> 'v \<Rightarrow> socket_read list \<times> 'v) \<Rightarrow> Message \<Rightarrow> 's TcpClient \<Rightarrow> socket_read list \<Rightarrow> 'v \<Rightarrow>
     Message net_result option run \<times> 's TcpClient \<times> socket_read list \<times> 'v" where
  "request B writable write_all clock env msg client pending v =
     (case TcpClient_send B writable write_all msg client of
        (Inl e, client) \<Rightarrow> (Returned (Some (Inl e)), client, pending, v)
      | (Inr _, client) \<Rightarrow>
          let (arrived, v) = env (cl_stream client) v in
          case TcpClient_receive B clock (pending @ arrived) client of
            Panicked e \<Rightarrow> (Panicked e, client, pending @ arrived, v)
          | Returned (response, pending) \<Rightarrow> (Returned response, client, pending, v))"

definition example_address :: string where
  "example_address = ''127.0.0.1:8080''"

definition example_client_config :: ClientConfig where
  "example_client_config =
     ClientConfig_with_read_timeout (from_secs 10) (ClientConfig_with_connect_timeout (from_secs 5) ClientConfig_new)"

subsection \<open>The simple client\<close>

definition simple_message :: "nat \<Rightarrow> Message" where
  "simple_message i = Message_new (map of_char (''Hello from client! Message #'' @ show_nat i))"

fun simple_client_loop ::
  "'b bytes_mut \<Rightarrow> (duration \<Rightarrow> 's \<Rightarrow> (string + unit) timed) \<Rightarrow> 's writer \<Rightarrow> (nat \<Rightarrow> nat \<Rightarrow> duration) \<Rightarrow>
     ('s option \<Rightarrow> 'v \<Rightarrow> socket_read list \<times> 'v) \<Rightarrow> nat list \<Rightarrow> 's TcpClient \<Rightarrow> socket_read list \<Rightarrow> 'v \<Rightarrow>
     Message list \<times> unit net_result option run \<times> 's TcpClient \<times> 'v" where
  "simple_client_loop B writable write_all clock env [] client pending v = ([], Returned (Some (Inr ())), client, v)"
| "simple_client_loop B writable write_all clock env (i # is) client pending v =
     (case request B writable write_all (clock i) env (simple_message i) client pending v of
        (Panicked e, client, pending, v) \<Rightarrow> ([], Panicked e, client, v)
      | (Returned None, client, pending, v) \<Rightarrow> ([], Returned None, client, v)
      | (Returned (Some (Inl e)), client, pending, v) \<Rightarrow> ([], Returned (Some (Inl e)), client, v)
      | (Returned (Some (Inr response)), client, pending, v) \<Rightarrow>
          let (responses, result, client, v) = simple_client_loop B writable write_all clock env is client pending v
          in (response # responses, result, client, v))"

text \<open>\<open>main\<close> of the simple client, with the responses it receives.\<close>

definition simple_client_main ::
  "('a, 's, 'k) tcp_ops \<Rightarrow> 'b bytes_mut \<Rightarrow> (duration \<Rightarrow> 's \<Rightarrow> (string + unit) timed) \<Rightarrow> 's writer \<Rightarrow>
     (nat \<Rightarrow> nat \<Rightarrow> duration) \<Rightarrow> ('s option \<Rightarrow> 'v \<Rightarrow> socket_read list \<times> 'v) \<Rightarrow> 'v \<Rightarrow>
     Message list \<times> unit net_result option run \<times> 's TcpClient \<times> 'v" where
  "simple_client_main T B writable write_all clock env v =
     (case TcpClient_connect T (TcpClient_with_config example_address example_client_config) of
        (Inl e, client) \<Rightarrow> ([], Returned (Some (Inl e)), client, v)
      | (Inr _, client) \<Rightarrow>
          let (responses, result, client, v) = simple_client_loop B writable write_all clock env [1..<6] client [] v in
          case result of
            Returned (Some (Inr _)) \<Rightarrow>
              let (result, client) = TcpClient_disconnect client in (responses, Returned (Some result), client, v)
          | _ \<Rightarrow> (responses, result, client, v))"

subsection \<open>The compressing client\<close>

definition compression_message :: "nat \<Rightarrow> Message" where
  "compression_message i =
     Message_new (map of_char (''Hello from client! Message #'' @ show_nat i @ '' - '' @ replicate 100 CHR ''x''))"

text \<open>
  Each round compresses, exchanges and decompresses. The program reports whether the text of
  the response starts with the greeting, which is ASCII, so that it can be told from the
  bytes: the lossy conversion to text keeps ASCII bytes and turns no others into them.
\<close>

definition starts_with_greeting :: "Message \<Rightarrow> bool" where
  "starts_with_greeting m \<longleftrightarrow> take 18 (msg_data m) = map of_char ''Hello from client!''"

fun compression_client_loop ::
  "'e gzip_ops \<Rightarrow> 'b bytes_mut \<Rightarrow> (duration \<Rightarrow> 's \<Rightarrow> (string + unit) timed) \<Rightarrow> 's writer \<Rightarrow> (nat \<Rightarrow> nat \<Rightarrow> duration) \<Rightarrow>
     ('s option \<Rightarrow> 'v \<Rightarrow> socket_read list \<times> 'v) \<Rightarrow> nat list \<Rightarrow> 's TcpClient \<Rightarrow> socket_read list \<Rightarrow> 'v \<Rightarrow>
     (Message \<times> bool) list \<times> unit net_result option run \<times> 's TcpClient \<times> 'v" where
  "compression_client_loop G B writable write_all clock env [] client pending v =
     ([], Returned (Some (Inr ())), client, v)"
| "compression_client_loop G B writable write_all clock env (i # is) client pending v =
     (case CompressionProcessor_process G (CompressionProcessor_new 6) (compression_message i) of
        Inl e \<Rightarrow> ([], Returned (Some (Inl e)), client, v)
      | Inr compressed_msg \<Rightarrow>
     (case request B writable write_all (clock i) env compressed_msg client pending v of
        (Panicked e, client, pending, v) \<Rightarrow> ([], Panicked e, client, v)
      | (Returned None, client, pending, v) \<Rightarrow> ([], Returned None, client, v)
      | (Returned (Some (Inl e)), client, pending, v) \<Rightarrow> ([], Returned (Some (Inl e)), client, v)
      | (Returned (Some (Inr response)), client, pending, v) \<Rightarrow>
     (case DecompressionProcessor_process G response of
        Inl e \<Rightarrow> ([], Returned (Some (Inl e)), client, v)
      | Inr decompressed \<Rightarrow>
          let (reports, result, client, v) =
                compression_client_loop G B writable write_all clock env is client pending v
          in ((decompressed, starts_with_greeting decompressed) # reports, result, client, v))))"

definition compression_client_main ::
  "'e gzip_ops \<Rightarrow> ('a, 's, 'k) tcp_ops \<Rightarrow> 'b bytes_mut \<Rightarrow> (duration \<Rightarrow> 's \<Rightarrow> (string + unit) timed) \<Rightarrow> 's writer \<Rightarrow>
     (nat \<Rightarrow> nat \<Rightarrow> duration) \<Rightarrow> ('s option \<Rightarrow> 'v \<Rightarrow> socket_read list \<times> 'v) \<Rightarrow> 'v \<Rightarrow>
     (Message \<times> bool) list \<times> unit net_result option run \<times> 's TcpClient \<times> 'v" where
  "compression_client_main G T B writable write_all clock env v =
     (case TcpClient_connect T (TcpClient_with_config example_address example_client_config) of
        (Inl e, client) \<Rightarrow> ([], Returned (Some (Inl e)), client, v)
      | (Inr _, client) \<Rightarrow>
          let (reports, result, client, v) =
                compression_client_loop G B writable write_all clock env [1..<6] client [] v in
          case result of
            Returned (Some (Inr _)) \<Rightarrow>
              let (result, client) = TcpClient_disconnect client in (reports, Returned (Some result), client, v)
          | _ \<Rightarrow> (reports, result, client, v))"

section \<open>The servers\<close>

text \<open>
  \<open>EchoHandler\<close> sends every message back; \<open>ticks\<close> gives the two clock readings of \<open>send\<close> from
  the time of the callback. Both servers have the same handler.
\<close>

definition EchoHandler_on_message ::
  "'w writer \<Rightarrow> (instant \<Rightarrow> instant \<times> instant) \<Rightarrow> ('r, 'w, 'b, 'h) message_callback" where
  "EchoHandler_on_message write_all ticks now session message h =
     ([Send write_all (fst (ticks now)) (snd (ticks now)) message], h)"

definition echo_handler :: "'w writer \<Rightarrow> (instant \<Rightarrow> instant \<times> instant) \<Rightarrow> ('r, 'w, 'b, 'h) session_handler" where
  "echo_handler write_all ticks =
     \<lparr>on_connected = (\<lambda>now session h. ([], h)), on_message = EchoHandler_on_message write_all ticks,
      on_disconnected = (\<lambda>now session h. ([], h))\<rparr>"

definition example_server_config :: ServerConfig where
  "example_server_config = ServerConfig_with_max_connections 100 (ServerConfig_new example_address)"

text \<open>
  \<open>main\<close> of the echo server; \<open>runs\<close> is what happens to the server until Ctrl+C, and \<open>rt\<close> what its tasks
  do while \<open>stop\<close> waits (\<open>None\<close> when it waits for ever).
\<close>

definition echo_server_main ::
  "'s semaphore_ops \<Rightarrow> (string \<Rightarrow> string + 'a) \<Rightarrow> ('a \<Rightarrow> string + 'l) \<Rightarrow>
     (('s, 'r, 'w, 'b) TcpServer \<Rightarrow> ('s, 'r, 'w, 'b) TcpServer) \<Rightarrow>
     (nat \<Rightarrow> ('s, 'r, 'w, 'b) TcpServer \<Rightarrow> ('s, 'r, 'w, 'b) TcpServer) \<Rightarrow>
     (unit net_result \<times> ('s, 'r, 'w, 'b) TcpServer) option" where
  "echo_server_main S parse_addr bind runs rt =
     (case TcpServer_start parse_addr bind (TcpServer_with_config S example_server_config) of
        (Inl e, server) \<Rightarrow> Some (Inl e, server)
      | (Inr _, server) \<Rightarrow> TcpServer_stop rt (runs server))"

definition echo_pipeline :: "'e gzip_ops \<Rightarrow> ProcessorPipeline" where
  "echo_pipeline G =
     ProcessorPipeline_add (CompressionProcessor_process G (CompressionProcessor_new 6))
       (ProcessorPipeline_add (DecompressionProcessor_process G) ProcessorPipeline_new)"

text \<open>The handler of the thread-pool server, with the pool it starts.\<close>

definition pooled_echo ::
  "'e gzip_ops \<Rightarrow> 'p pool_ops \<Rightarrow> 'w writer \<Rightarrow> (instant \<Rightarrow> instant \<times> instant) \<Rightarrow>
     (('r, 'w, 'b, 'h) ThreadPoolSessionHandler \<times> 'p) net_result" where
  "pooled_echo G P write_all ticks =
     ThreadPoolSessionHandler_new P (echo_handler write_all ticks) (ProcessorPipeline_process (echo_pipeline G)) 8"

definition thread_pool_server_main ::
  "'e gzip_ops \<Rightarrow> 'p pool_ops \<Rightarrow> 'w writer \<Rightarrow> (instant \<Rightarrow> instant \<times> instant) \<Rightarrow>
     's semaphore_ops \<Rightarrow> (string \<Rightarrow> string + 'a) \<Rightarrow> ('a \<Rightarrow> string + 'l) \<Rightarrow>
     (('r, 'w, 'b, 'h) ThreadPoolSessionHandler \<times> 'p \<Rightarrow> ('s, 'r, 'w, 'b) TcpServer \<Rightarrow> ('s, 'r, 'w, 'b) TcpServer) \<Rightarrow>
     (nat \<Rightarrow> ('s, 'r, 'w, 'b) TcpServer \<Rightarrow> ('s, 'r, 'w, 'b) TcpServer) \<Rightarrow>
     (unit net_result \<times> ('s, 'r, 'w, 'b) TcpServer) option" where
  "thread_pool_server_main G P write_all ticks S parse_addr bind runs rt =
     (case pooled_echo G P write_all ticks of
        Inl e \<Rightarrow> Some (Inl e, TcpServer_with_config S example_server_config)
      | Inr handler \<Rightarrow>
          (case TcpServer_start parse_addr bind (TcpServer_with_config S example_server_config) of
             (Inl e, server) \<Rightarrow> Some (Inl e, server)
           | (Inr _, server) \<Rightarrow> TcpServer_stop rt (runs handler server)))"

section \<open>Client and server together\<close>

text \<open>
  The server's side of a connection: the session, the state of its handler, how many bytes
  of the client's stream it has taken, and how many rounds have passed. In a round the
  session task finishes the call of \<open>receive\<close> it was waiting in: the bytes the client has written since
  arrive, cut into reads by \<open>cut_in\<close>, the handler answers, and what the session has
  written arrives at the client, cut by \<open>cut_out\<close>.
\<close>

record ('r, 'w, 'b, 'h) server_side =
  side_session :: "('r, 'w, 'b) Session"
  side_state :: 'h
  side_seen :: nat
  side_round :: nat

definition server_turn ::
  "'b bytes_mut \<Rightarrow> ('r, 'w, 'b, 'h) session_handler \<Rightarrow> ('s \<Rightarrow> u8 list) \<Rightarrow> ('w \<Rightarrow> u8 list) \<Rightarrow>
     (nat \<Rightarrow> u8 list \<Rightarrow> socket_read list) \<Rightarrow> (nat \<Rightarrow> u8 list \<Rightarrow> socket_read list) \<Rightarrow> (nat \<Rightarrow> call_times) \<Rightarrow>
     's option \<Rightarrow> ('r, 'w, 'b, 'h) server_side \<Rightarrow> socket_read list \<times> ('r, 'w, 'b, 'h) server_side" where
  "server_turn B H written sent cut_in cut_out call stream v =
     (case stream of
        None \<Rightarrow> ([], v)
      | Some st \<Rightarrow>
          let n = side_round v;
              (messages, e, s, h) =
                session_loop B (on_message H) [call n] (cut_in n (drop (side_seen v) (written st))) (side_session v) (side_state v)
          in (cut_out n (drop (length (session_sent sent (side_session v))) (session_sent sent s)),
              \<lparr>side_session = s, side_state = h, side_seen = length (written st), side_round = Suc n\<rparr>))"

definition chunking :: "(nat \<Rightarrow> u8 list \<Rightarrow> socket_read list) \<Rightarrow> bool" where
  "chunking f \<longleftrightarrow> (\<forall>n bs. chunk_reads (f n bs) \<and> read_bytes (f n bs) = bs)"

text \<open>
  Neither side falls idle: the calls of \<open>receive\<close> assemble their message in time, and they and
  the handler's \<open>send\<close> start before the idle timeout has passed since the last activity.
\<close>

definition round_start :: "instant \<Rightarrow> (nat \<Rightarrow> call_times) \<Rightarrow> nat \<Rightarrow> instant" where
  "round_start t0 call n = (case n of 0 \<Rightarrow> t0 | Suc j \<Rightarrow> snd (snd (call j)))"

definition timely_rounds ::
  "duration \<Rightarrow> duration \<Rightarrow> instant \<Rightarrow> (nat \<Rightarrow> call_times) \<Rightarrow> (instant \<Rightarrow> instant \<times> instant) \<Rightarrow> bool" where
  "timely_rounds idle assembly t0 call ticks \<longleftrightarrow>
     (\<forall>n j. fst (call n) j < assembly) \<and>
     (\<forall>n. elapsed (fst (snd (call n))) (round_start t0 call n) \<le> idle) \<and>
     (\<forall>t. t \<le> snd (ticks t) \<and> elapsed (fst (ticks t)) t \<le> idle)"

text \<open>A handler that answers a message with one other, and sends nothing else.\<close>

locale replying_handler =
  fixes H :: "('r, 'w, 'b, 'h) session_handler" and write_all :: "'w writer"
    and ticks :: "instant \<Rightarrow> instant \<times> instant" and reply :: "Message \<Rightarrow> Message option"
  assumes on_message_reply: "reply m = Some r \<Longrightarrow>
    \<exists>h'. on_message H t s m h = ([Send write_all (fst (ticks t)) (snd (ticks t)) r], h')"

interpretation echo: replying_handler "echo_handler write_all ticks" write_all ticks Some for write_all ticks
  by unfold_locales (simp add: echo_handler_def EchoHandler_on_message_def)

text \<open>Behind a thread pool the answer is the one to the processed message.\<close>

lemma pooled_replying:
  assumes "replying_handler H write_all ticks reply" "pool_runs_jobs P"
  shows "replying_handler (thread_pool_handler P \<lparr>tp_inner = H, tp_processor = proc\<rparr>) write_all ticks
    (\<lambda>m. case proc m of Inl _ \<Rightarrow> None | Inr m' \<Rightarrow> reply m')"
proof
  fix m r t s and h :: "'e \<times> string list \<times> 'd"
  assume "(case proc m of Inl _ \<Rightarrow> None | Inr m' \<Rightarrow> reply m') = Some r"
  then obtain m' where m': "proc m = Inr m'" "reply m' = Some r" by (auto split: sum.splits)
  obtain p errors h1 where h: "h = (p, errors, h1)" by (cases h) auto
  obtain h' where "on_message H t s m' h1 = ([Send write_all (fst (ticks t)) (snd (ticks t)) r], h')"
    using replying_handler.on_message_reply [OF assms(1) m'(2)] by blast
  moreover obtain p' where "pool_execute P p = (Inr True, p')"
    using assms(2) by (cases "pool_execute P p") (auto simp: pool_runs_jobs_def dest: spec [of _ p])
  ultimately show "\<exists>h'. on_message (thread_pool_handler P \<lparr>tp_inner = H, tp_processor = proc\<rparr>) t s m h =
      ([Send write_all (fst (ticks t)) (snd (ticks t)) r], h')"
    by (simp add: thread_pool_handler_def ThreadPoolSessionHandler_on_message_def h m'(1))
qed

text \<open>The state in which the server waits for the message of round \<open>n\<close>.\<close>

definition awaiting ::
  "'b bytes_mut \<Rightarrow> duration \<Rightarrow> duration \<Rightarrow> instant \<Rightarrow> (nat \<Rightarrow> call_times) \<Rightarrow> ('r, 'w, 'b, 'h) server_side \<Rightarrow> bool" where
  "awaiting B read_timeout idle t0 call v \<longleftrightarrow>
     (let s = side_session v in
      sess_active s \<and> read_half s \<noteq> None \<and> write_half s \<noteq> None \<and> bm_slice B (read_buffer s) = [] \<and>
      sess_read_timeout s = read_timeout \<and> sess_idle_timeout s = idle \<and>
      round_start t0 call (side_round v) \<le> last_activity s)"

text \<open>Client and server are in step when no byte is on its way between them.\<close>

definition in_step ::
  "'b bytes_mut \<Rightarrow> ('s \<Rightarrow> u8 list) \<Rightarrow> duration \<Rightarrow> duration \<Rightarrow> instant \<Rightarrow> (nat \<Rightarrow> call_times) \<Rightarrow> ClientConfig \<Rightarrow>
     's TcpClient \<Rightarrow> ('r, 'w, 'b, 'h) server_side \<Rightarrow> bool" where
  "in_step B written read_timeout idle t0 call config c v \<longleftrightarrow>
     cl_state c = Connected \<and> cl_config c = config \<and> (\<exists>st. cl_stream c = Some st \<and> length (written st) = side_seen v) \<and>
     awaiting B read_timeout idle t0 call v"

lemma no_chunks: "chunk_reads rs \<Longrightarrow> read_bytes rs = [] \<Longrightarrow> rs = []"
  by (cases rs) auto

context bytes_buffer
begin

text \<open>One round of the server: it takes the message in whatever pieces it comes and answers it.\<close>

lemma server_turn_replies:
  assumes "replying_handler H write_all ticks reply" "accepting_writer sent write_all"
    and "reply m = Some r" "Message_fits m" "Message_fits r" "chunking cut_in"
    and "timely_rounds idle (read_timeout * 3) t0 call ticks" "read_timeout * 3 \<le> duration_max"
    and "awaiting B read_timeout idle t0 call v" "drop (side_seen v) (written st) = Message_frame m"
  shows "\<exists>v'. server_turn B H written sent cut_in cut_out call (Some st) v = (cut_out (side_round v) (Message_frame r), v') \<and>
    awaiting B read_timeout idle t0 call v' \<and> side_seen v' = length (written st)"
proof -
  let ?s = "side_session v" and ?n = "side_round v"
  obtain clock now now' where call: "call ?n = (clock, now, now')" by (cases "call ?n") auto
  have s: "sess_active ?s" "read_half ?s \<noteq> None" "bm_slice B (read_buffer ?s) = []"
      "sess_read_timeout ?s = read_timeout" "sess_idle_timeout ?s = idle" "round_start t0 call ?n \<le> last_activity ?s"
    using assms(9) by (auto simp: awaiting_def Let_def)
  obtain w where w: "write_half ?s = Some w" using assms(9) by (auto simp: awaiting_def Let_def)
  have t: "fst (call ?n) j < read_timeout * 3" "elapsed (fst (snd (call ?n))) (round_start t0 call ?n) \<le> idle"
      "u \<le> snd (ticks u)" "elapsed (fst (ticks u)) u \<le> idle" for j u
    using assms(7) by (simp_all add: timely_rounds_def)
  have "elapsed now (last_activity ?s) \<le> idle" using idle_mono [OF t(2) s(6)] by (simp add: call)
  then have active: "Session_is_active ?s" "\<not> Session_is_idle now ?s"
    using s(1,5) by (simp_all add: Session_is_active_def Session_is_idle_def)
  have reads: "chunk_reads (cut_in ?n (Message_frame m))"
      "bm_slice B (read_buffer ?s) @ read_bytes (cut_in ?n (Message_frame m)) = Message_frame m @ []"
    using assms(6) s(3) by (simp_all add: chunking_def)
  have quick: "\<And>j. clock j < sess_read_timeout ?s * 3" "sess_read_timeout ?s * 3 \<le> duration_max"
    using t(1) assms(8) s(4) by (simp_all add: call)
  obtain buf reads' where
    recv: "Session_receive B clock now now' (cut_in ?n (Message_frame m)) ?s =
       Returned (Some (Inr m), ?s\<lparr>read_buffer := buf, last_activity := now'\<rparr>, reads')" "bm_slice B buf = []"
    using session_receive_ok [where clock = clock and now' = now' and tail = "[]", OF active s(2) quick(2,1) assms(4) reads] by auto
  let ?s1 = "?s\<lparr>read_buffer := buf, last_activity := now'\<rparr>"
  obtain h' where h': "on_message H now' ?s1 m (side_state v) = ([Send write_all (fst (ticks now')) (snd (ticks now')) r], h')"
    using replying_handler.on_message_reply [OF assms(1,3)] by blast
  obtain w' where w': "write_all (sess_write_timeout ?s1) (Message_frame r) w = (Completed (Inr ()), w')"
      "sent w' = sent w @ Message_frame r"
    using assms(2) unfolding accepting_writer_def by (metis prod.collapse)
  let ?s2 = "?s1\<lparr>write_half := Some w', last_activity := snd (ticks now')\<rparr>"
  have "Session_send B write_all (fst (ticks now')) (snd (ticks now')) r ?s1 = (Inr (), ?s2)"
    using session_send_ok [where s = ?s1 and write_all = write_all and w = w and w' = w' and m = r, OF _ _ _ assms(5) w'(1)]
      s(1,5) w t(4)
    by (simp add: Session_is_active_def Session_is_idle_def not_less)
  then have loop: "session_loop B (on_message H) [call ?n] (cut_in ?n (Message_frame m)) ?s (side_state v) =
      ([m], Pending, ?s2, h')"
    by (simp add: call recv(1) h')
  then show ?thesis
    using s w t(3) [of now'] w'(2) recv(2)
    by (simp add: server_turn_def assms(10) Let_def session_sent_def awaiting_def round_start_def call)
qed

text \<open>One request of the client: the answer comes back, and both sides are ready for the next.\<close>

lemma request_replied:
  assumes "replying_handler H reply_all ticks reply" "accepting_writer sent reply_all"
    and "accepting_stream written writable write_all" "chunking cut_in" "chunking cut_out"
    and "timely_rounds idle (read_timeout * 3) t0 call ticks" "read_timeout * 3 \<le> duration_max"
    and "cl_read_timeout config * 3 \<le> duration_max" "\<And>j. clock j < cl_read_timeout config * 3"
    and "reply m = Some r" "Message_fits m" "Message_fits r"
    and "in_step B written read_timeout idle t0 call config c v"
  shows "\<exists>c' v'. request B writable write_all clock (server_turn B H written sent cut_in cut_out call) m c [] v =
      (Returned (Some (Inr r)), c', [], v') \<and> in_step B written read_timeout idle t0 call config c' v'"
proof -
  obtain st where c: "cl_state c = Connected" "cl_config c = config" "cl_stream c = Some st"
      "length (written st) = side_seen v" and v: "awaiting B read_timeout idle t0 call v"
    using assms(13) by (auto simp: in_step_def)
  obtain st' where send: "TcpClient_send B writable write_all m c = (Inr (), c\<lparr>cl_stream := Some st'\<rparr>)"
      "written st' = written st @ Message_frame m"
    using client_send_frame [OF assms(3,11) c(1,3)] by blast
  have new: "drop (side_seen v) (written st') = Message_frame m" by (simp add: send(2) c(4) [symmetric])
  obtain v' where turn: "server_turn B H written sent cut_in cut_out call (Some st') v =
      (cut_out (side_round v) (Message_frame r), v')" "awaiting B read_timeout idle t0 call v'"
      "side_seen v' = length (written st')"
    using server_turn_replies [where written = written and cut_out = cut_out, OF assms(1,2,10,11,12,4,6,7) v new] by blast
  have "chunk_reads (cut_out (side_round v) (Message_frame r))"
      "bm_slice B (bm_with_capacity B 4096) @ read_bytes (cut_out (side_round v) (Message_frame r)) = Message_frame r @ []"
    using assms(5) by (simp_all add: chunking_def slice_with_capacity)
  from receive_loop_frame [where clock = clock and i = 0 and tail = "[]", OF assms(12,9) this]
  obtain buf reads' where loop: "receive_loop B (cl_read_timeout config * 3) clock 0 (cut_out (side_round v) (Message_frame r))
      (bm_with_capacity B 4096) = (Some (Inr r), buf, reads')" "chunk_reads reads'" "read_bytes reads' = []"
    by auto
  have "reads' = []" using loop(2,3) by (rule no_chunks)
  with loop(1) have "TcpClient_receive B clock (cut_out (side_round v) (Message_frame r)) (c\<lparr>cl_stream := Some st'\<rparr>) =
      Returned (Some (Inr r), [])"
    using c(1,2) assms(8) by (simp add: TcpClient_receive_def)
  then show ?thesis
    using c(1,2) turn by (simp add: request_def send(1) in_step_def)
qed

end

text \<open>The two loops, when every request is answered.\<close>

lemma simple_loop_replied:
  assumes "ok c v"
    and "\<And>i c v. i \<in> set is \<Longrightarrow> ok c v \<Longrightarrow>
      \<exists>c' v'. request B writable write_all (clock i) env (simple_message i) c [] v =
        (Returned (Some (Inr (simple_message i))), c', [], v') \<and> ok c' v'"
  shows "\<exists>c' v'. simple_client_loop B writable write_all clock env is c [] v =
    (map simple_message is, Returned (Some (Inr ())), c', v') \<and> ok c' v'"
  using assms
proof (induction "is" arbitrary: c v)
  case (Cons i "is")
  obtain c1 v1 where first: "request B writable write_all (clock i) env (simple_message i) c [] v =
      (Returned (Some (Inr (simple_message i))), c1, [], v1)" "ok c1 v1"
    using Cons.prems(2) [of i, OF _ Cons.prems(1)] by auto
  have "\<exists>c' v'. simple_client_loop B writable write_all clock env is c1 [] v1 =
      (map simple_message is, Returned (Some (Inr ())), c', v') \<and> ok c' v'"
    by (rule Cons.IH [OF first(2)]) (auto intro: Cons.prems(2))
  then show ?case by (auto simp: first(1))
qed simp

lemma compression_loop_replied:
  assumes "ok c v"
    and "\<And>i. i \<in> set is \<Longrightarrow> CompressionProcessor_process G (CompressionProcessor_new 6) (compression_message i) = Inr (f i)"
    and "\<And>i. i \<in> set is \<Longrightarrow> DecompressionProcessor_process G (f i) = Inr (compression_message i)"
    and "\<And>i c v. i \<in> set is \<Longrightarrow> ok c v \<Longrightarrow>
      \<exists>c' v'. request B writable write_all (clock i) env (f i) c [] v = (Returned (Some (Inr (f i))), c', [], v') \<and> ok c' v'"
  shows "\<exists>c' v'. compression_client_loop G B writable write_all clock env is c [] v =
    (map (\<lambda>i. (compression_message i, starts_with_greeting (compression_message i))) is,
     Returned (Some (Inr ())), c', v') \<and> ok c' v'"
  using assms
proof (induction "is" arbitrary: c v)
  case (Cons i "is")
  obtain c1 v1 where first: "request B writable write_all (clock i) env (f i) c [] v =
      (Returned (Some (Inr (f i))), c1, [], v1)" "ok c1 v1"
    using Cons.prems(4) [of i, OF _ Cons.prems(1)] by auto
  have "\<exists>c' v'. compression_client_loop G B writable write_all clock env is c1 [] v1 =
      (map (\<lambda>i. (compression_message i, starts_with_greeting (compression_message i))) is,
       Returned (Some (Inr ())), c', v') \<and> ok c' v'"
    by (rule Cons.IH [OF first(2)]) (auto intro: Cons.prems(2-))
  then show ?case by (auto simp: first(1) Cons.prems(2,3))
qed simp

text \<open>The first state of a connection between the programs.\<close>

definition new_side ::
  "'b bytes_mut \<Rightarrow> u128 \<Rightarrow> instant \<Rightarrow> 'r \<times> 'w \<Rightarrow> string \<Rightarrow> 'h \<Rightarrow> ('r, 'w, 'b, 'h) server_side" where
  "new_side B sid t halves addr h =
     \<lparr>side_session = Session_new B sid t halves addr (sv_read_timeout example_server_config) (sv_write_timeout example_server_config)
        (sv_idle_timeout example_server_config), side_state = h, side_seen = 0, side_round = 0\<rparr>"

lemma example_config_values:
  "cl_read_timeout example_client_config = from_secs 10" "sv_read_timeout example_server_config = from_secs 30"
  "sv_idle_timeout example_server_config = from_secs 300"
  by (simp_all add: example_client_config_def example_server_config_def config_defs)

lemma connect_in_step:
  assumes "bytes_buffer B" "open_stream T example_client_config example_address = Inr st" "written st = []"
  shows "\<exists>c. TcpClient_connect T (TcpClient_with_config example_address example_client_config) = (Inr (), c) \<and>
    in_step B written (from_secs 30) (from_secs 300) t call example_client_config c (new_side B sid t halves addr h)"
  using assms(2,3) bytes_buffer.slice_with_capacity [OF assms(1)]
  by (simp add: TcpClient_connect_def TcpClient_connect_internal_def TcpClient_with_config_def Let_def in_step_def
      new_side_def awaiting_def Session_new_def round_start_def example_config_values)

lemma program_request:
  assumes "bytes_buffer B" "replying_handler H reply_all ticks reply" "accepting_writer sent reply_all"
    and "accepting_stream written writable write_all" "chunking cut_in" "chunking cut_out"
    and "timely_rounds (from_secs 300) (from_secs 90) t call ticks" "\<forall>j. clock j < from_secs 30"
    and "reply m = Some m" "Message_fits m" "in_step B written (from_secs 30) (from_secs 300) t call example_client_config c v"
  shows "\<exists>c' v'. request B writable write_all clock (server_turn B H written sent cut_in cut_out call) m c [] v =
      (Returned (Some (Inr m)), c', [], v') \<and> in_step B written (from_secs 30) (from_secs 300) t call example_client_config c' v'"
  by (rule bytes_buffer.request_replied [OF assms(1-6) _ _ _ _ assms(9,10,10,11)])
     (use assms(7,8) in \<open>simp_all add: example_config_values from_secs_def duration_max_def\<close>)

lemma simple_messages_fit: "i < 10 \<Longrightarrow> Message_fits (simple_message i)"
  by (subst simple_message_def) (simp add: Message_fits_def Message_new_def MAX_MESSAGE_SIZE_def show_nat.simps)

section \<open>Properties\<close>

text \<open>
  C6. The example client and the echo server understand each other. The client program
  connects, sends its five messages, waiting for the answer to each, and disconnects; the
  environment it talks to is a session of the server program with the echo handler. However
  the bytes are cut into reads in both directions, the program ends with success, has received
  exactly its own five messages in order, and is disconnected.
\<close>

theorem echo_client_completes:
  assumes "bytes_buffer B" "accepting_stream written writable write_all" "accepting_writer sent reply_all"
    and "chunking cut_in" "chunking cut_out"
    and "open_stream T example_client_config example_address = Inr st" "written st = []"
    and "\<forall>i j. clock i j < from_secs 30" "timely_rounds (from_secs 300) (from_secs 90) t call ticks"
  shows "\<exists>c' v'. simple_client_main T B writable write_all clock
        (server_turn B (echo_handler reply_all ticks) written sent cut_in cut_out call) (new_side B sid t halves addr h) =
      (map simple_message [1..<6], Returned (Some (Inr ())), c', v') \<and>
    cl_state c' = Disconnected \<and> cl_stream c' = None"
proof -
  let ?env = "server_turn B (echo_handler reply_all ticks) written sent cut_in cut_out call"
  let ?ok = "in_step B written (from_secs 30) (from_secs 300) t call example_client_config"
  obtain c where c: "TcpClient_connect T (TcpClient_with_config example_address example_client_config) = (Inr (), c)"
      "?ok c (new_side B sid t halves addr h)"
    using connect_in_step [where written = written and t = t and call = call and sid = sid and halves = halves and addr = addr
        and h = h, OF assms(1,6,7)] by blast
  have fits: "Message_fits (simple_message i)" if "i \<in> set [1..<6]" for i
    using that simple_messages_fit by simp
  have "\<exists>c' v'. simple_client_loop B writable write_all clock ?env [1..<6] c [] (new_side B sid t halves addr h) =
      (map simple_message [1..<6], Returned (Some (Inr ())), c', v') \<and> ?ok c' v'"
    by (rule simple_loop_replied [where ok = ?ok, OF c(2)],
        rule program_request [OF assms(1) echo.replying_handler_axioms assms(3,2,4,5,9)]) (use assms(8) fits in simp_all)
  then show ?thesis
    by (auto simp: simple_client_main_def c(1) TcpClient_disconnect_def Let_def simp del: upt_rec_numeral)
qed

text \<open>Both directions byte by byte.\<close>

definition single_bytes :: "nat \<Rightarrow> u8 list \<Rightarrow> socket_read list" where
  "single_bytes n bs = map (\<lambda>b. Completed (Inr [b])) bs"

lemma single_bytes_chunking: "chunking single_bytes"
proof -
  have "read_bytes (map (\<lambda>b. Completed (Inr [b])) bs) = bs" for bs by (induction bs) simp_all
  then show ?thesis by (simp add: chunking_def single_bytes_def chunk_reads_def)
qed

definition regular_calls :: "nat \<Rightarrow> call_times" where
  "regular_calls n = (\<lambda>_. 0, from_secs n, from_secs n)"

lemma regular_calls_timely: "timely_rounds (from_secs 300) (from_secs 90) 0 regular_calls (\<lambda>t. (t, t))"
  by (auto simp: timely_rounds_def regular_calls_def round_start_def elapsed_def from_secs_def split: nat.splits)

lemma keep_written_writer: "accepting_writer (\<lambda>st. st) keep_written"
  using keep_written_accepts by (simp add: accepting_stream_def)

theorem echo_client_completes_witness:
  "\<exists>c' v'. simple_client_main (accepting_ops []) vec_bytes always_writable keep_written (\<lambda>_ _. 0)
        (server_turn vec_bytes (echo_handler keep_written (\<lambda>t. (t, t))) (\<lambda>st. st) (\<lambda>st. st) single_bytes single_bytes
          regular_calls) (new_side vec_bytes 7 0 ((), []) ''peer'' ()) =
      (map simple_message [1..<6], Returned (Some (Inr ())), c', v') \<and>
    cl_state c' = Disconnected \<and> cl_stream c' = None"
  by (rule echo_client_completes [OF vec.bytes_buffer_axioms keep_written_accepts keep_written_writer
        single_bytes_chunking single_bytes_chunking open_example(2) refl _ regular_calls_timely])
     (simp add: from_secs_def)

text \<open>
  C7. The compressing client and the thread-pool server understand each other. The client
  compresses its five messages and sends each; the server decompresses and compresses it again in
  its thread pool and echoes it; the client decompresses the answer. With a gzip coder whose
  decoder inverts its encoder, a pool that runs its jobs and compressed messages that fit a
  frame, the program ends with success and every answer is the original message, so that
  it reports five matches, however the bytes are cut.
\<close>

theorem compressed_echo_completes:
  assumes "gzip G" "pool_runs_jobs P" "pooled_echo G P reply_all ticks = Inr (tp, p)"
    and "\<forall>i < 6. \<forall>m'. CompressionProcessor_process G (CompressionProcessor_new 6) (compression_message i) = Inr m' \<longrightarrow>
      Message_fits m'"
    and "bytes_buffer B" "accepting_stream written writable write_all" "accepting_writer sent reply_all"
    and "chunking cut_in" "chunking cut_out"
    and "open_stream T example_client_config example_address = Inr st" "written st = []"
    and "\<forall>i j. clock i j < from_secs 30" "timely_rounds (from_secs 300) (from_secs 90) t call ticks"
  shows "\<exists>c' v'. compression_client_main G T B writable write_all clock
        (server_turn B (thread_pool_handler P tp) written sent cut_in cut_out call)
        (new_side B sid t halves addr (p, [], h)) =
      (map (\<lambda>i. (compression_message i, True)) [1..<6], Returned (Some (Inr ())), c', v') \<and>
    cl_state c' = Disconnected \<and> cl_stream c' = None"
proof -
  let ?env = "server_turn B (thread_pool_handler P tp) written sent cut_in cut_out call"
  let ?ok = "in_step B written (from_secs 30) (from_secs 300) t call example_client_config"
  let ?v = "new_side B sid t halves addr (p, [] :: string list, h)"
  let ?compress = "CompressionProcessor_process G (CompressionProcessor_new 6)"
  obtain c where c: "TcpClient_connect T (TcpClient_with_config example_address example_client_config) = (Inr (), c)" "?ok c ?v"
    using connect_in_step [where written = written and t = t and call = call and sid = sid and halves = halves and addr = addr
        and h = "(p, [], h)", OF assms(5,10,11)] by blast
  define f where "f i = projr (?compress (compression_message i))" for i
  have f: "?compress (compression_message i) = Inr (f i)" for i
    using gzip.compress_ok [OF assms(1), of "CompressionProcessor_new 6" "compression_message i"] by (auto simp: f_def)
  have inverse: "DecompressionProcessor_process G (f i) = Inr (compression_message i)" for i
    using codec.decode_encode [OF gzip.stage_codec [OF assms(1), of "Compress 6"]] f by simp
  have tp: "tp = \<lparr>tp_inner = echo_handler reply_all ticks, tp_processor = ProcessorPipeline_process (echo_pipeline G)\<rparr>"
    using assms(3) by (simp add: pooled_echo_def ThreadPoolSessionHandler_new_def split: sum.splits)
  have again: "ProcessorPipeline_process (echo_pipeline G) (f i) = Inr (f i)" for i
    by (simp add: ProcessorPipeline_process_def echo_pipeline_def ProcessorPipeline_add_def ProcessorPipeline_new_def inverse f)
  have replying: "replying_handler (thread_pool_handler P tp) reply_all ticks
      (\<lambda>m. case ProcessorPipeline_process (echo_pipeline G) m of Inl _ \<Rightarrow> None | Inr m' \<Rightarrow> Some m')"
    unfolding tp by (rule pooled_replying [OF echo.replying_handler_axioms assms(2)])
  have req: "\<exists>c' v'. request B writable write_all (clock i) ?env (f i) c [] v = (Returned (Some (Inr (f i))), c', [], v') \<and> ?ok c' v'"
    if "?ok c v" "i < 6" for i c v
    by (rule program_request [OF assms(5) replying assms(7,6,8,9,13) _ _ _ that(1)]) (use that(2) assms(4,12) f again in auto)
  have greeting: "starts_with_greeting (compression_message i)" for i
    by (simp add: starts_with_greeting_def compression_message_def Message_new_def)
  have "\<exists>c' v'. compression_client_loop G B writable write_all clock ?env [1..<6] c [] ?v =
      (map (\<lambda>i. (compression_message i, starts_with_greeting (compression_message i))) [1..<6],
       Returned (Some (Inr ())), c', v') \<and> ?ok c' v'"
    by (rule compression_loop_replied [where ok = ?ok and f = f, OF c(2)]) (simp_all add: f inverse req)
  then show ?thesis
    by (auto simp: compression_client_main_def c(1) TcpClient_disconnect_def Let_def greeting simp del: upt_rec_numeral)
qed

text \<open>With the coder that stores and the pool that runs a job at once.\<close>

theorem compressed_echo_completes_witness:
  "\<exists>c' v'. compression_client_main stored_gzip (accepting_ops []) vec_bytes always_writable keep_written (\<lambda>_ _. 0)
        (server_turn vec_bytes (thread_pool_handler eager_pool
            \<lparr>tp_inner = echo_handler keep_written (\<lambda>t. (t, t)), tp_processor = ProcessorPipeline_process (echo_pipeline stored_gzip)\<rparr>)
          (\<lambda>st. st) (\<lambda>st. st) single_bytes single_bytes regular_calls) (new_side vec_bytes 7 0 ((), []) ''peer'' ((), [], ())) =
      (map (\<lambda>i. (compression_message i, True)) [1..<6], Returned (Some (Inr ())), c', v') \<and>
    cl_state c' = Disconnected \<and> cl_stream c' = None"
proof (rule compressed_echo_completes [OF stored.gzip_axioms eager_pool_runs _ _ vec.bytes_buffer_axioms keep_written_accepts
      keep_written_writer single_bytes_chunking single_bytes_chunking open_example(2) refl _ regular_calls_timely])
  show "pooled_echo stored_gzip eager_pool keep_written (\<lambda>t. (t, t)) =
      Inr (\<lparr>tp_inner = echo_handler keep_written (\<lambda>t. (t, t)), tp_processor = ProcessorPipeline_process (echo_pipeline stored_gzip)\<rparr>, ())"
    by (simp add: pooled_echo_def ThreadPoolSessionHandler_new_def eager_pool_def)
qed (auto simp: from_secs_def CompressionProcessor_process_def stored_gzip_def compression_message_def Message_new_def
    Message_fits_def MAX_MESSAGE_SIZE_def show_nat.simps)

end
