(* ===== verification/Float64.thy ===== *)
theory Float64
  imports Complex_Main Prelude "HOL-Library.Log_Nat"
begin

text \<open>
  IEEE 754 binary64 arithmetic, the type \<open>f64\<close> of the source, as exact rational arithmetic
  followed by rounding to the nearest representable number, ties to even. The definitions
  compute. There is one zero: every operation of the crate on \<open>f64\<close> has non-negative
  operands and no operation on such operands gives a negative zero, since the difference of
  two equal numbers is \<open>+0\<close> in this rounding mode.
\<close>

section \<open>Rounding\<close>

datatype f64 = NaN | PosInf | NegInf | Fin rat

text \<open>The exponent of the leading bit of a positive rational.\<close>

definition ilog2 :: "rat \<Rightarrow> int" where
  "ilog2 q =
     (let (a, b) = quotient_of q; k = bitlen a - bitlen b
      in if 2 powi k \<le> q then k else k - 1)"

text \<open>The weight of the last bit of the significand: 53 bits, or the subnormal spacing.\<close>

definition ulp_exp :: "rat \<Rightarrow> int" where
  "ulp_exp q = max (ilog2 q - 52) (- 1074)"

definition round_even :: "rat \<Rightarrow> int" where
  "round_even x =
     (let f = \<lfloor>x\<rfloor>; d = x - of_int f
      in if d < 1 / 2 then f
         else if d > 1 / 2 then f + 1
         else if even f then f else f + 1)"

definition magnitude :: "rat \<Rightarrow> rat" where
  "magnitude q = of_int (round_even (q / 2 powi ulp_exp q)) * 2 powi ulp_exp q"

definition f64_round :: "rat \<Rightarrow> f64" where
  "f64_round q =
     (let r = (if q < 0 then - magnitude (- q) else magnitude q)
      in if r \<ge> 2 ^ 1024 then PosInf else if r \<le> - (2 ^ 1024) then NegInf else Fin r)"

section \<open>Operations\<close>

fun f64_add :: "f64 \<Rightarrow> f64 \<Rightarrow> f64" where
  "f64_add (Fin x) (Fin y) = f64_round (x + y)"
| "f64_add NaN _ = NaN"
| "f64_add _ NaN = NaN"
| "f64_add PosInf NegInf = NaN"
| "f64_add NegInf PosInf = NaN"
| "f64_add PosInf _ = PosInf"
| "f64_add _ PosInf = PosInf"
| "f64_add NegInf _ = NegInf"
| "f64_add _ NegInf = NegInf"

fun f64_neg :: "f64 \<Rightarrow> f64" where
  "f64_neg (Fin x) = Fin (- x)"
| "f64_neg NaN = NaN"
| "f64_neg PosInf = NegInf"
| "f64_neg NegInf = PosInf"

definition f64_sub :: "f64 \<Rightarrow> f64 \<Rightarrow> f64" where
  "f64_sub x y = f64_add x (f64_neg y)"

definition f64_inf :: "rat \<Rightarrow> f64" where
  "f64_inf s = (if s > 0 then PosInf else if s < 0 then NegInf else NaN)"

fun f64_mul :: "f64 \<Rightarrow> f64 \<Rightarrow> f64" where
  "f64_mul (Fin x) (Fin y) = f64_round (x * y)"
| "f64_mul NaN _ = NaN"
| "f64_mul _ NaN = NaN"
| "f64_mul (Fin x) PosInf = f64_inf x"
| "f64_mul (Fin x) NegInf = f64_inf (- x)"
| "f64_mul PosInf (Fin y) = f64_inf y"
| "f64_mul NegInf (Fin y) = f64_inf (- y)"
| "f64_mul PosInf PosInf = PosInf"
| "f64_mul NegInf NegInf = PosInf"
| "f64_mul PosInf NegInf = NegInf"
| "f64_mul NegInf PosInf = NegInf"

fun f64_div :: "f64 \<Rightarrow> f64 \<Rightarrow> f64" where
  "f64_div (Fin x) (Fin y) = (if y = 0 then f64_inf x else f64_round (x / y))"
| "f64_div NaN _ = NaN"
| "f64_div _ NaN = NaN"
| "f64_div (Fin x) PosInf = Fin 0"
| "f64_div (Fin x) NegInf = Fin 0"
| "f64_div PosInf (Fin y) = (if y < 0 then NegInf else PosInf)"
| "f64_div NegInf (Fin y) = (if y < 0 then PosInf else NegInf)"
| "f64_div _ _ = NaN"

fun f64_le :: "f64 \<Rightarrow> f64 \<Rightarrow> bool" where
  "f64_le (Fin x) (Fin y) = (x \<le> y)"
| "f64_le NaN _ = False"
| "f64_le _ NaN = False"
| "f64_le NegInf _ = True"
| "f64_le _ PosInf = True"
| "f64_le _ _ = False"

text \<open>\<open>f64::min\<close> returns the other operand when one is a NaN.\<close>

fun f64_min :: "f64 \<Rightarrow> f64 \<Rightarrow> f64" where
  "f64_min NaN y = y"
| "f64_min x NaN = x"
| "f64_min x y = (if f64_le x y then x else y)"

text \<open>\<open>n as f64\<close> for an unsigned integer.\<close>

definition f64_of_nat :: "nat \<Rightarrow> f64" where
  "f64_of_nat n = f64_round (of_nat n)"

definition f64_floor :: "f64 \<Rightarrow> f64" where
  "f64_floor x = (case x of Fin q \<Rightarrow> Fin (of_int \<lfloor>q\<rfloor>) | _ \<Rightarrow> x)"

text \<open>\<open>x as u64\<close> truncates towards zero and saturates; a NaN becomes zero.\<close>

fun f64_to_u64 :: "f64 \<Rightarrow> u64" where
  "f64_to_u64 NaN = 0"
| "f64_to_u64 PosInf = - 1"
| "f64_to_u64 NegInf = 0"
| "f64_to_u64 (Fin q) = (if q < 0 then 0 else if q \<ge> 2 ^ 64 then - 1 else of_int \<lfloor>q\<rfloor>)"

text \<open>
  \<open>Duration::as_secs_f64\<close>: the whole seconds, plus the nanoseconds of the last second divided
  by a billion.
\<close>

definition as_secs_f64 :: "duration \<Rightarrow> f64" where
  "as_secs_f64 d =
     f64_add (f64_of_nat (d div 1000000000))
       (f64_div (f64_of_nat (d mod 1000000000)) (f64_of_nat 1000000000))"

section \<open>The exponent\<close>

lemma power_int_mono2: "m \<le> n \<Longrightarrow> (2::rat) powi m \<le> 2 powi n"
  by (rule power_int_increasing) auto

lemma power_int_cancel2: "(2::rat) powi m < 2 powi n \<Longrightarrow> m < n"
  by (rule ccontr) (use power_int_mono2 [of n m] in auto)

lemma ilog2_bounds:
  assumes "0 < q"
  shows "2 powi ilog2 q \<le> q" and "q < 2 powi (ilog2 q + 1)"
proof -
  obtain a b where ab: "quotient_of q = (a, b)" by force
  have b: "0 < b" using quotient_of_denom_pos [OF ab] .
  have q: "q = of_int a / of_int b" using quotient_of_div [OF ab] .
  have a: "0 < a" using assms b by (simp add: q zero_less_divide_iff)
  define m where "m = bitlen a"
  define n where "n = bitlen b"
  have mn: "1 \<le> m" "1 \<le> n"
    using a b bitlen_eq_zero_iff [of a] bitlen_eq_zero_iff [of b] bitlen_nonneg [of a] bitlen_nonneg [of b]
    by (auto simp: m_def n_def)
  have powi: "(2::rat) powi (k - 1) = of_int (2 ^ nat (k - 1))" "(2::rat) powi k = of_int (2 ^ nat k)"
    if "1 \<le> k" for k
    using that by (auto simp: power_int_def)
  have A: "2 powi (m - 1) \<le> (of_int a :: rat)" "(of_int a :: rat) < 2 powi m"
    unfolding powi [OF mn(1)] of_int_le_iff of_int_less_iff
    using bitlen_bounds [OF a] by (auto simp: m_def)
  have B: "2 powi (n - 1) \<le> (of_int b :: rat)" "(of_int b :: rat) < 2 powi n"
    unfolding powi [OF mn(2)] of_int_le_iff of_int_less_iff
    using bitlen_bounds [OF b] by (auto simp: n_def)
  have b': "0 < (of_int b :: rat)" using b by simp
  have "2 powi (m - n - 1) * of_int b < 2 powi (m - n - 1) * (2::rat) powi n"
    using B(2) by simp
  also have "\<dots> = 2 powi (m - 1)" by (simp flip: power_int_add)
  also have "\<dots> \<le> of_int a" by (rule A)
  finally have low: "2 powi (m - n - 1) \<le> q" using b' by (simp add: q pos_le_divide_eq)
  have "of_int a < (2::rat) powi m" by (rule A)
  also have "\<dots> = 2 powi (m - n + 1) * 2 powi (n - 1)" by (simp flip: power_int_add)
  also have "\<dots> \<le> 2 powi (m - n + 1) * of_int b" using B(1) by simp
  finally have high: "q < 2 powi (m - n + 1)" using b' by (simp add: q pos_divide_less_eq)
  show "2 powi ilog2 q \<le> q" "q < 2 powi (ilog2 q + 1)"
    using low high by (auto simp: ilog2_def ab Let_def m_def [symmetric] n_def [symmetric])
qed

lemma ilog2_less: "0 < q \<Longrightarrow> q < 2 powi (k + 1) \<Longrightarrow> ilog2 q \<le> k"
  using power_int_cancel2 [of "ilog2 q" "k + 1"] ilog2_bounds(1) [of q] by fastforce

lemma ilog2_ge: "0 < q \<Longrightarrow> 2 powi k \<le> q \<Longrightarrow> k \<le> ilog2 q"
  using power_int_cancel2 [of k "ilog2 q + 1"] ilog2_bounds(2) [of q] by fastforce

lemma ilog2_eqI: "2 powi k \<le> q \<Longrightarrow> q < 2 powi (k + 1) \<Longrightarrow> ilog2 q = k"
  using ilog2_less [of q k] ilog2_ge [of q k] zero_less_power_int [of "2::rat" k]
  by (metis dual_order.antisym less_le_trans zero_less_numeral)

lemma ilog2_mono: "0 < p \<Longrightarrow> p \<le> q \<Longrightarrow> ilog2 p \<le> ilog2 q"
  by (rule ilog2_less) (use ilog2_bounds(2) [of q] in auto)

section \<open>Rounding to the nearest integer\<close>

lemma round_even_of_int [simp]: "round_even (of_int n) = n"
  by (simp add: round_even_def)

lemma round_even_0 [simp]: "round_even 0 = 0"
  using round_even_of_int [of 0] by simp

lemma round_even_error: "\<bar>of_int (round_even x) - x\<bar> \<le> 1 / 2"
proof -
  have "of_int \<lfloor>x\<rfloor> \<le> x" "x < of_int \<lfloor>x\<rfloor> + 1" by linarith+
  then show ?thesis by (auto simp: round_even_def Let_def abs_le_iff)
qed

lemma round_even_mono:
  assumes "x \<le> y" shows "round_even x \<le> round_even y"
proof (cases "\<lfloor>x\<rfloor> = \<lfloor>y\<rfloor>")
  case True
  then show ?thesis using assms by (auto simp: round_even_def Let_def)
next
  case False
  then have "\<lfloor>x\<rfloor> + 1 \<le> \<lfloor>y\<rfloor>" using floor_mono [OF assms] by linarith
  then show ?thesis by (auto simp: round_even_def Let_def)
qed

lemma round_even_le_int: "x \<le> of_int n \<Longrightarrow> round_even x \<le> n"
  using round_even_mono [of x "of_int n"] by simp

lemma round_even_ge_int: "of_int n \<le> x \<Longrightarrow> n \<le> round_even x"
  using round_even_mono [of "of_int n" x] by simp

section \<open>Rounding to 53 bits\<close>

text \<open>A number of at most 53 significant bits at a weight of the format is not changed.\<close>

lemma magnitude_exact:
  assumes "\<bar>n\<bar> < 2 ^ 53" "- 1074 \<le> k" "0 \<le> n"
  shows "magnitude (of_int n * 2 powi k) = of_int n * 2 powi k"
proof (cases "n = 0")
  case False
  let ?q = "of_int n * 2 powi k :: rat"
  define u where "u = ulp_exp ?q"
  have pos: "0 < ?q" using False assms by simp
  have "(of_int n :: rat) < of_int (2 ^ 53)" using assms by (subst of_int_less_iff) simp
  then have "?q < 2 ^ 53 * 2 powi k" by simp
  also have "\<dots> = 2 powi (52 + k + 1)" by (simp add: power_int_add)
  finally have "ilog2 ?q \<le> 52 + k" by (rule ilog2_less [OF pos])
  then have u: "u \<le> k" using assms by (simp add: ulp_exp_def u_def)
  have "?q / 2 powi u = of_int n * 2 powi (k - u)" by (simp add: power_int_diff)
  also have "\<dots> = of_int (n * 2 ^ nat (k - u))" using u by (simp add: power_int_def)
  finally have "magnitude ?q = ?q / 2 powi u * 2 powi u"
    unfolding magnitude_def by (simp only: round_even_of_int u_def)
  then show ?thesis by simp
qed (simp add: magnitude_def)

lemma magnitude_0 [simp]: "magnitude 0 = 0"
  by (simp add: magnitude_def)

lemma magnitude_power: "- 1074 \<le> k \<Longrightarrow> magnitude (2 powi k) = 2 powi k"
  using magnitude_exact [of 1 k] by simp

lemma magnitude_nonneg: "0 \<le> q \<Longrightarrow> 0 \<le> magnitude q"
  unfolding magnitude_def using round_even_ge_int [of 0 "q / 2 powi ulp_exp q"] by simp

lemma magnitude_same_ulp:
  "0 \<le> p \<Longrightarrow> p \<le> q \<Longrightarrow> ulp_exp p = ulp_exp q \<Longrightarrow> magnitude p \<le> magnitude q"
  unfolding magnitude_def by (auto intro!: mult_right_mono round_even_mono divide_right_mono)

text \<open>Rounding stays within the two powers of two around the number.\<close>

lemma scaled_significand:
  assumes "0 < q"
  shows "q / 2 powi ulp_exp q < 2 ^ 53"
    and "- 1022 \<le> ilog2 q \<Longrightarrow> 2 ^ 52 \<le> q / 2 powi ulp_exp q"
proof -
  have "q < 2 powi (ilog2 q + 1)" using ilog2_bounds [OF assms] by simp
  also have "\<dots> \<le> 2 powi (53 + ulp_exp q)" by (rule power_int_mono2) (simp add: ulp_exp_def)
  also have "\<dots> = 2 ^ 53 * 2 powi ulp_exp q" by (simp add: power_int_add)
  finally show "q / 2 powi ulp_exp q < 2 ^ 53" by (simp add: divide_less_eq)
next
  assume "- 1022 \<le> ilog2 q"
  then have "ilog2 q = 52 + ulp_exp q" by (simp add: ulp_exp_def)
  then have "2 ^ 52 * 2 powi ulp_exp q \<le> q" using ilog2_bounds(1) [OF assms] by (simp add: power_int_add)
  then show "2 ^ 52 \<le> q / 2 powi ulp_exp q" by (simp add: le_divide_eq)
qed

definition representable :: "rat \<Rightarrow> bool" where
  "representable r \<longleftrightarrow> (\<exists>n k. r = of_int n * 2 powi k \<and> 0 \<le> n \<and> n \<le> 2 ^ 53 \<and> - 1074 \<le> k)"

lemma representable_magnitude: "representable r \<Longrightarrow> magnitude r = r"
proof -
  assume "representable r"
  then obtain n k where r: "r = of_int n * 2 powi k" "0 \<le> n" "n \<le> 2 ^ 53" "- 1074 \<le> k"
    by (auto simp: representable_def)
  show ?thesis
  proof (cases "n = 2 ^ 53")
    case True
    then have "r = 2 powi (53 + k)" using r by (simp add: power_int_add)
    then show ?thesis using magnitude_power [of "53 + k"] r by simp
  next
    case False
    then show ?thesis using r magnitude_exact [of n k] by simp
  qed
qed

lemma magnitude_representable:
  assumes "0 \<le> q" shows "representable (magnitude q)"
proof (cases "q = 0")
  case True
  then show ?thesis by (auto simp: representable_def intro!: exI [of _ 0])
next
  case False
  let ?n = "round_even (q / 2 powi ulp_exp q)"
  have "?n \<le> 2 ^ 53" using scaled_significand(1) [of q] False assms by (intro round_even_le_int) simp
  moreover have "0 \<le> ?n" using assms by (intro round_even_ge_int) simp
  ultimately show ?thesis unfolding representable_def
    by (intro exI [of _ ?n] exI [of _ "ulp_exp q"]) (simp add: magnitude_def ulp_exp_def)
qed

lemma magnitude_idem: "0 \<le> q \<Longrightarrow> magnitude (magnitude q) = magnitude q"
  by (simp add: magnitude_representable representable_magnitude)

lemma magnitude_of_nat:
  assumes "n \<le> 2 ^ 53" shows "magnitude (of_nat n) = of_nat n"
proof (rule representable_magnitude)
  have "(of_nat n :: rat) = of_int (int n) * 2 powi 0" "0 \<le> int n" "int n \<le> 2 ^ 53"
    using assms by auto
  then show "representable (of_nat n)" unfolding representable_def by fastforce
qed

text \<open>The bounds of the significand after rounding.\<close>

lemma significand_le: "0 < q \<Longrightarrow> magnitude q \<le> 2 ^ 53 * 2 powi ulp_exp q"
proof -
  assume "0 < q"
  then have "round_even (q / 2 powi ulp_exp q) \<le> 2 ^ 53"
    using scaled_significand(1) [of q] by (intro round_even_le_int) simp
  then have "of_int (round_even (q / 2 powi ulp_exp q)) \<le> (of_int (2 ^ 53) :: rat)"
    by (subst of_int_le_iff)
  then show ?thesis unfolding magnitude_def by (intro mult_right_mono) auto
qed

lemma significand_ge: "0 < q \<Longrightarrow> - 1022 \<le> ilog2 q \<Longrightarrow> 2 ^ 52 * 2 powi ulp_exp q \<le> magnitude q"
proof -
  assume "0 < q" "- 1022 \<le> ilog2 q"
  then have "2 ^ 52 \<le> round_even (q / 2 powi ulp_exp q)"
    using scaled_significand(2) [of q] by (intro round_even_ge_int) simp
  then have "(of_int (2 ^ 52) :: rat) \<le> of_int (round_even (q / 2 powi ulp_exp q))"
    by (subst of_int_le_iff)
  then show ?thesis unfolding magnitude_def by (intro mult_right_mono) auto
qed

lemma magnitude_mono:
  assumes "0 \<le> p" "p \<le> q" shows "magnitude p \<le> magnitude q"
proof (cases "p = 0 \<or> ulp_exp p = ulp_exp q")
  case True
  then show ?thesis using assms magnitude_same_ulp magnitude_nonneg [of q] by fastforce
next
  case False
  then have pos: "0 < p" "0 < q" using assms by auto
  let ?u = "ulp_exp q"
  have less: "ulp_exp p + 1 \<le> ?u" and e: "- 1022 \<le> ilog2 q" "?u = ilog2 q - 52"
    using False ilog2_mono [OF pos(1) assms(2)] by (auto simp: ulp_exp_def max_def split: if_splits)
  have "magnitude p \<le> 2 ^ 53 * 2 powi ulp_exp p" by (rule significand_le [OF pos(1)])
  also have "\<dots> = 2 ^ 52 * 2 powi (ulp_exp p + 1)" by (simp add: power_int_add)
  also have "\<dots> \<le> 2 ^ 52 * 2 powi ?u" using power_int_mono2 [OF less] by simp
  also have "\<dots> \<le> magnitude q" by (rule significand_ge [OF pos(2) e(1)])
  finally show ?thesis .
qed

text \<open>The error of rounding is at most half the weight of the last bit.\<close>

lemma magnitude_ulp_error: "\<bar>magnitude q - q\<bar> \<le> 1 / 2 * 2 powi ulp_exp q"
proof -
  have "magnitude q - q = (of_int (round_even (q / 2 powi ulp_exp q)) - q / 2 powi ulp_exp q) * 2 powi ulp_exp q"
    by (simp add: magnitude_def left_diff_distrib)
  then show ?thesis
    using round_even_error [of "q / 2 powi ulp_exp q"] by (simp add: abs_mult mult_right_mono)
qed

text \<open>The relative error of rounding a number that is not subnormal.\<close>

lemma magnitude_error:
  assumes "2 powi (- 1022) \<le> q"
  shows "\<bar>magnitude q - q\<bar> \<le> q / 2 ^ 53"
proof -
  have pos: "0 < q" using assms less_le_trans [of 0 "2 powi - 1022 :: rat"] by simp
  let ?u = "ulp_exp q"
  have "- 1022 \<le> ilog2 q" using ilog2_ge [OF pos assms] .
  then have u: "?u = ilog2 q - 52" by (simp add: ulp_exp_def)
  have "\<bar>magnitude q - q\<bar> \<le> 1 / 2 * 2 powi ?u" by (rule magnitude_ulp_error)
  also have "\<dots> = 2 powi ilog2 q / 2 ^ 53" by (simp add: u power_int_diff)
  also have "\<dots> \<le> q / 2 ^ 53" using ilog2_bounds(1) [OF pos] by (simp add: divide_right_mono)
  finally show ?thesis .
qed

text \<open>The absolute error of rounding a number below a normal bound.\<close>

lemma magnitude_error_abs:
  assumes "0 \<le> q" "q \<le> c" "2 powi (- 1022) \<le> c"
  shows "\<bar>magnitude q - q\<bar> \<le> c / 2 ^ 53"
proof (cases "2 powi (- 1022) \<le> q")
  case True
  then show ?thesis using magnitude_error [of q] divide_right_mono [OF assms(2), of "2 ^ 53"] by simp
next
  case False
  have pos: "0 < q \<Longrightarrow> ilog2 q \<le> - 1023" using False by (intro ilog2_less) simp_all
  show ?thesis
  proof (cases "q = 0")
    case True
    then show ?thesis using assms by simp
  next
    case False
    then have u: "ulp_exp q = - 1074" using pos assms(1) by (simp add: ulp_exp_def)
    have "\<bar>magnitude q - q\<bar> \<le> 1 / 2 * 2 powi ulp_exp q" by (rule magnitude_ulp_error)
    also have "\<dots> = 2 powi (- 1074 - 1)" unfolding u by (subst power_int_diff) simp_all
    also have "\<dots> = 2 powi (- 1022 - 53)" by simp
    also have "\<dots> = 2 powi (- 1022) / 2 ^ 53" by (subst power_int_diff) simp_all
    also have "\<dots> \<le> c / 2 ^ 53" by (intro divide_right_mono assms) simp
    finally show ?thesis .
  qed
qed

text \<open>Subtracting an integer from a number below \<open>2 ^ 53\<close> is exact.\<close>

lemma magnitude_diff_exact:
  assumes "magnitude r = r" "of_nat m \<le> r" "r < 2 ^ 53"
  shows "magnitude (r - of_nat m) = r - of_nat m"
proof (cases "r = 0")
  case True
  then have "(of_nat m :: rat) = 0" using assms(2) by (simp del: of_nat_eq_0_iff)
  then show ?thesis using assms True by simp
next
  case False
  then have pos: "0 < r" using assms(2) of_nat_0_le_iff [of m, where 'a = rat] by linarith
  define u where "u = ulp_exp r"
  define N where "N = round_even (r / 2 powi u)"
  have r: "r = of_int N * 2 powi u" using assms(1) by (simp add: magnitude_def N_def u_def)
  have "ilog2 r \<le> 52" using assms(3) by (intro ilog2_less pos) (simp add: power_int_def)
  then have u: "u \<le> 0" "- 1074 \<le> u" by (simp_all add: u_def ulp_exp_def)
  have one: "(2 ^ nat (- u) :: rat) * 2 powi u = 1"
    using u by (simp add: power_int_def power_mult_distrib [symmetric])
  define M where "M = N - int m * 2 ^ nat (- u)"
  have M: "r - of_nat m = of_int M * 2 powi u"
    using one by (simp add: r M_def left_diff_distrib mult.assoc)
  have "N \<le> 2 ^ 53" using scaled_significand(1) [OF pos] unfolding N_def u_def by (intro round_even_le_int) simp
  then have le: "M \<le> 2 ^ 53" by (simp add: M_def) (smt (verit) mult_nonneg_nonneg of_nat_0_le_iff zero_le_power)
  have "0 \<le> of_int M * (2 powi u :: rat)" using assms(2) M by simp
  then have "0 \<le> (of_int M :: rat)" using mult_right_le_imp_le [of 0 "2 powi u" "of_int M :: rat"] by simp
  then have "0 \<le> M" by simp
  then have "representable (r - of_nat m)" unfolding representable_def M using le u by blast
  then show ?thesis by (rule representable_magnitude)
qed

section \<open>Relative error\<close>

text \<open>
  \<open>approx k x q\<close>: the computed value \<open>x\<close> and the exact value \<open>q\<close> differ by at most \<open>k\<close> roundings.
\<close>

definition approx :: "nat \<Rightarrow> rat \<Rightarrow> rat \<Rightarrow> bool" where
  "approx k x q \<longleftrightarrow> q \<le> x * (1 + 1 / 2 ^ 52) ^ k \<and> x \<le> q * (1 + 1 / 2 ^ 52) ^ k"

definition normal :: "rat \<Rightarrow> bool" where
  "normal q \<longleftrightarrow> q = 0 \<or> 2 powi (- 1022) \<le> q"

lemma normalI: "2 powi k \<le> q \<Longrightarrow> - 1022 \<le> k \<Longrightarrow> normal q"
  using power_int_mono2 [of "- 1022" k] by (simp add: normal_def)

lemma normal_nonneg: "normal q \<Longrightarrow> 0 \<le> q"
  using zero_less_power_int [of "2::rat" "- 1022"] by (auto simp: normal_def)

lemma approx_refl [simp]: "approx 0 q q"
  by (simp add: approx_def)

lemma approx_trans: "approx j x y \<Longrightarrow> approx k y z \<Longrightarrow> approx (j + k) x z"
proof -
  let ?f = "1 + 1 / 2 ^ 52 :: rat"
  assume "approx j x y" "approx k y z"
  then have 1: "y \<le> x * ?f ^ j" "x \<le> y * ?f ^ j" and 2: "z \<le> y * ?f ^ k" "y \<le> z * ?f ^ k"
    by (simp_all only: approx_def)
  have pos: "0 \<le> ?f ^ j" "0 \<le> ?f ^ k" by simp_all
  have "z \<le> y * ?f ^ k" by (rule 2)
  also have "\<dots> \<le> x * ?f ^ j * ?f ^ k" by (rule mult_right_mono [OF 1(1) pos(2)])
  finally have A: "z \<le> x * ?f ^ (j + k)" by (simp only: power_add mult.assoc)
  have "x \<le> y * ?f ^ j" by (rule 1)
  also have "\<dots> \<le> z * ?f ^ k * ?f ^ j" by (rule mult_right_mono [OF 2(2) pos(1)])
  finally have "x \<le> z * ?f ^ (j + k)" by (simp only: power_add mult.assoc mult.commute [of "?f ^ k"])
  with A show ?thesis by (simp only: approx_def)
qed

lemma approx_magnitude: "normal q \<Longrightarrow> approx 1 (magnitude q) q"
proof (cases "q = 0")
  case False
  assume "normal q"
  with False have "2 powi (- 1022) \<le> q" by (simp add: normal_def)
  note e = magnitude_error [OF this]
  have q: "0 \<le> q" using \<open>normal q\<close> by (rule normal_nonneg)
  have low: "q * (1 - 1 / 2 ^ 53) \<le> magnitude q" and high: "magnitude q \<le> q * (1 + 1 / 2 ^ 53)"
    using e [unfolded abs_le_iff] by (auto simp add: right_diff_distrib distrib_left)
  have "q * 1 \<le> q * ((1 - 1 / 2 ^ 53) * (1 + 1 / 2 ^ 52))"
    using q by (intro mult_left_mono) auto
  also have "\<dots> \<le> magnitude q * (1 + 1 / 2 ^ 52)"
    using mult_right_mono [OF low, of "1 + 1 / 2 ^ 52"] by (simp add: mult.assoc)
  finally have "q \<le> magnitude q * (1 + 1 / 2 ^ 52)" by simp
  moreover have "magnitude q \<le> q * (1 + 1 / 2 ^ 52)"
    using high q mult_left_mono [of "1 + 1 / 2 ^ 53" "1 + 1 / 2 ^ 52" q] by simp
  ultimately show ?thesis by (simp add: approx_def)
qed (simp add: approx_def)

lemma approx_round: "approx k p q \<Longrightarrow> normal p \<Longrightarrow> approx (Suc k) (magnitude p) q"
  using approx_trans [OF approx_magnitude, of p k q] by simp

lemma approx_mult:
  assumes "approx j x p" "approx k y q" "0 \<le> x" "0 \<le> y" "0 \<le> p" "0 \<le> q"
  shows "approx (j + k) (x * y) (p * q)"
proof -
  let ?f = "1 + 1 / 2 ^ 52 :: rat"
  have "p * q \<le> (x * ?f ^ j) * (y * ?f ^ k)" "x * y \<le> (p * ?f ^ j) * (q * ?f ^ k)"
    by (intro mult_mono; use assms in \<open>simp add: approx_def\<close>)+
  then show ?thesis by (simp add: approx_def power_add ac_simps)
qed

lemma approx_inverse:
  assumes "approx k x p" "0 < x" "0 < p"
  shows "approx k (1 / x) (1 / p)"
proof -
  let ?f = "(1 + 1 / 2 ^ 52) ^ k :: rat"
  have f: "0 < ?f" by simp
  have "p \<le> x * ?f" "x \<le> p * ?f" using assms by (simp_all only: approx_def)
  then have "1 / p \<le> 1 / x * ?f" "1 / x \<le> 1 / p * ?f"
    using assms(2,3) f by (simp_all add: field_simps del: one_add_one)
  then show ?thesis by (simp only: approx_def)
qed

lemma approx_divide:
  "approx j x p \<Longrightarrow> approx k y q \<Longrightarrow> 0 \<le> x \<Longrightarrow> 0 < y \<Longrightarrow> 0 \<le> p \<Longrightarrow> 0 < q \<Longrightarrow>
     approx (j + k) (x / y) (p / q)"
  using approx_mult [of j x p k "1 / y" "1 / q"] approx_inverse [of k y q] by simp

lemma approx_add: "approx k x p \<Longrightarrow> approx k y q \<Longrightarrow> approx k (x + y) (p + q)"
  by (simp add: approx_def distrib_right)

lemma approx_mono:
  assumes "approx j x p" "j \<le> k" "0 \<le> x" "0 \<le> p"
  shows "approx k x p"
proof -
  let ?f = "1 + 1 / 2 ^ 52 :: rat"
  have "?f ^ j \<le> ?f ^ k" using assms(2) by (intro power_increasing) auto
  then have "x * ?f ^ j \<le> x * ?f ^ k" "p * ?f ^ j \<le> p * ?f ^ k"
    using assms(3,4) by (intro mult_left_mono; simp)+
  then show ?thesis using assms(1) unfolding approx_def by linarith
qed

text \<open>Up to seven roundings change a value by at most one part in \<open>2 ^ 49\<close>.\<close>

lemma approx_7:
  assumes "approx 7 x q" "0 \<le> x" "0 \<le> q"
  shows "x \<le> q * (1 + 1 / 2 ^ 49)" "q \<le> x * (1 + 1 / 2 ^ 49)"
proof -
  have "(1 + 1 / 2 ^ 52 :: rat) ^ 7 \<le> 1 + 1 / 2 ^ 49" by (simp add: power_divide)
  then have "q * (1 + 1 / 2 ^ 52) ^ 7 \<le> q * (1 + 1 / 2 ^ 49)" "x * (1 + 1 / 2 ^ 52) ^ 7 \<le> x * (1 + 1 / 2 ^ 49)"
    using assms(2,3) by (intro mult_left_mono; simp)+
  then show "x \<le> q * (1 + 1 / 2 ^ 49)" "q \<le> x * (1 + 1 / 2 ^ 49)"
    using assms(1) unfolding approx_def by linarith+
qed

section \<open>Operations on non-negative numbers\<close>

text \<open>Far below \<open>2 ^ 1024\<close> nothing overflows.\<close>

lemma f64_round_Fin:
  assumes "0 \<le> q" "q \<le> 2 ^ k" "k < 1024"
  shows "f64_round q = Fin (magnitude q)"
proof -
  have "magnitude q \<le> magnitude (2 powi int k)"
    using assms by (intro magnitude_mono) simp_all
  also have "\<dots> = 2 ^ k" by (subst magnitude_power) simp_all
  also have "\<dots> < (2::rat) ^ 1024" using assms(3) by (intro power_strict_increasing) auto
  finally have high: "magnitude q < 2 ^ 1024" .
  have "- (2 ^ 1024) < (0::rat)" by (simp only: neg_less_0_iff_less) (rule zero_less_power, simp)
  also have "0 \<le> magnitude q" using assms(1) by (rule magnitude_nonneg)
  finally have low: "- (2 ^ 1024) < magnitude q" .
  have "\<not> q < 0" "\<not> 2 ^ 1024 \<le> magnitude q" "\<not> magnitude q \<le> - (2 ^ 1024)"
    using assms(1) high low by (simp_all only: not_less not_le)
  then show ?thesis unfolding f64_round_def Let_def by (simp only: if_False)
qed

lemma magnitude_le_power: "0 \<le> q \<Longrightarrow> q \<le> 2 ^ k \<Longrightarrow> magnitude q \<le> 2 ^ k"
  using magnitude_mono [of q "2 powi int k"] magnitude_power [of "int k"] by simp

lemma magnitude_ge_power: "2 powi k \<le> q \<Longrightarrow> - 1074 \<le> k \<Longrightarrow> 2 powi k \<le> magnitude q"
  using magnitude_mono [of "2 powi k" q] magnitude_power [of k] by simp

lemma of_nat_le_power: "n < 2 ^ k \<Longrightarrow> (of_nat n :: rat) \<le> 2 ^ k"
  using of_nat_less_iff [of n "2 ^ k", where 'a = rat] by simp

lemma f64_of_nat_Fin: "n < 2 ^ 64 \<Longrightarrow> f64_of_nat n = Fin (magnitude (of_nat n))"
  unfolding f64_of_nat_def by (rule f64_round_Fin [of _ 64]) (use of_nat_le_power [of n 64] in auto)

text \<open>Natural numbers of 53 bits are exact.\<close>

lemma f64_of_nat_exact: "n \<le> 2 ^ 53 \<Longrightarrow> f64_of_nat n = Fin (of_nat n)"
  using f64_of_nat_Fin [of n] magnitude_of_nat [of n] by (simp add: order.strict_trans1 [of n "2 ^ 53" "2 ^ 64"])

lemma f64_round_1: "f64_round 1 = Fin 1"
  using f64_of_nat_exact [of 1] by (simp add: f64_of_nat_def)

lemma normal_of_nat: "normal (of_nat n)"
  by (cases "n = 0") (auto simp: normal_def intro!: order_trans [of "2 powi (- 1022)" "2 powi 0"] power_int_mono2)

text \<open>The parts of a duration in seconds.\<close>

lemma of_nat_ge_1: "0 < n \<Longrightarrow> (1::rat) \<le> of_nat n"
  using of_nat_le_iff [of 1 n, where 'a = rat] by (simp add: Suc_leI)

lemma nanos_low: "0 < n \<Longrightarrow> (2::rat) powi (- 30) \<le> of_nat n / 1000000000"
  using of_nat_ge_1 [of n] by (simp add: pos_le_divide_eq)

lemma nanos_normal: "normal (of_nat n / 1000000000)"
  by (cases "n = 0") (auto simp: normal_def intro!: order_trans [OF _ nanos_low] power_int_mono2)

lemma secs_split: "of_nat (d div 1000000000) + of_nat (d mod 1000000000) / 1000000000 = (of_nat d / 1000000000 :: rat)"
proof -
  have "of_nat (d div 1000000000) * 1000000000 + of_nat (d mod 1000000000) =
      (of_nat (d div 1000000000 * 1000000000 + d mod 1000000000) :: rat)"
    by (simp only: of_nat_add of_nat_mult of_nat_numeral)
  then have "of_nat (d div 1000000000) * 1000000000 + of_nat (d mod 1000000000) = (of_nat d :: rat)"
    by (simp only: div_mult_mod_eq)
  then show ?thesis by simp
qed

lemma subsec_f64:
  assumes "n < 1000000000"
  shows "f64_div (f64_of_nat n) (f64_of_nat 1000000000) = Fin (magnitude (of_nat n / 1000000000))"
proof -
  have "f64_of_nat 1000000000 = Fin 1000000000" "f64_of_nat n = Fin (of_nat n)"
    using magnitude_of_nat [of 1000000000] magnitude_of_nat [of n] assms by (simp_all add: f64_of_nat_Fin)
  moreover have "(of_nat n / 1000000000 :: rat) \<le> 2 ^ 0"
    using of_nat_less_iff [of n 1000000000, where 'a = rat] assms by simp
  ultimately show ?thesis using f64_round_Fin [of "of_nat n / 1000000000" 0] by simp
qed

text \<open>The value of \<open>Duration::as_secs_f64\<close>, at most two roundings off the exact number of seconds.\<close>

lemma as_secs_f64_approx:
  assumes "d \<le> duration_max"
  obtains x where "as_secs_f64 d = Fin x" "approx 2 x (of_nat d / 1000000000)" "0 \<le> x" "x \<le> 2 ^ 65"
    "0 < d \<Longrightarrow> 2 powi (- 30) \<le> x"
proof -
  let ?s = "d div 1000000000" and ?n = "d mod 1000000000"
  define a where "a = magnitude (of_nat ?s)"
  define b where "b = magnitude (of_nat ?n / 1000000000)"
  have s: "?s < 2 ^ 64" using assms by (simp add: duration_max_def)
  have n: "(of_nat ?n / 1000000000 :: rat) \<le> 2 ^ 0"
    using of_nat_less_iff [of ?n 1000000000, where 'a = rat] by simp
  have a: "0 \<le> a" "a \<le> 2 ^ 64" unfolding a_def
    using of_nat_le_power [OF s] by (simp_all only: magnitude_nonneg magnitude_le_power of_nat_0_le_iff)
  have b: "0 \<le> b" "b \<le> 1" unfolding b_def
    using magnitude_nonneg [of "of_nat ?n / 1000000000"] magnitude_le_power [OF _ n] by simp_all
  have ab: "0 \<le> a + b" "a + b \<le> 2 ^ 65" using a b by auto
  have low: "2 powi (- 30) \<le> a + b" if "0 < d"
  proof (cases "?s = 0")
    case False
    then have "1 \<le> a" unfolding a_def using magnitude_ge_power [of 0 "of_nat ?s"] of_nat_ge_1 [of ?s] by simp
    moreover have "(2::rat) powi (- 30) \<le> 1" by simp
    ultimately show ?thesis using b by linarith
  next
    case True
    then have "0 < ?n" using that by (metis div_mult_mod_eq add_0 mult_0 neq0_conv)
    then have "2 powi (- 30) \<le> b" unfolding b_def by (intro magnitude_ge_power nanos_low) simp_all
    then show ?thesis using a by linarith
  qed
  have "approx 1 (a + b) (of_nat ?s + of_nat ?n / 1000000000)"
    unfolding a_def b_def by (intro approx_add approx_magnitude normal_of_nat nanos_normal)
  then have app: "approx 1 (a + b) (of_nat d / 1000000000)" by (simp only: secs_split)
  have nab: "normal (a + b)"
    using low normalI [of "- 30" "a + b"] by (cases "d = 0") (auto simp: a_def b_def normal_def)
  show thesis
  proof (rule that)
    show "as_secs_f64 d = Fin (magnitude (a + b))"
      unfolding as_secs_f64_def f64_of_nat_Fin [OF s] a_def [symmetric]
      using f64_round_Fin [OF ab] by (simp add: subsec_f64 b_def)
    show "approx 2 (magnitude (a + b)) (of_nat d / 1000000000)"
      using approx_round [OF app nab] by (simp add: numeral_2_eq_2)
    show "0 \<le> magnitude (a + b)" "magnitude (a + b) \<le> 2 ^ 65"
      by (rule magnitude_nonneg [OF ab(1)]) (rule magnitude_le_power [OF ab])
    show "0 < d \<Longrightarrow> 2 powi (- 30) \<le> magnitude (a + b)" by (rule magnitude_ge_power [OF low]) simp_all
  qed
qed

lemma as_secs_f64_0 [simp]: "as_secs_f64 0 = Fin 0"
  by (simp add: as_secs_f64_def f64_of_nat_Fin f64_round_Fin [of 0 0] magnitude_of_nat [of 1000000000, simplified])

section \<open>64-bit integers\<close>

text \<open>The value of a 64-bit integer after \<open>as f64\<close>.\<close>

definition u64_value :: "u64 \<Rightarrow> rat" where
  "u64_value n = magnitude (of_nat (unat n))"

lemma f64_of_u64: "f64_of_nat (unat (n::u64)) = Fin (u64_value n)"
  unfolding u64_value_def using unsigned_less [of n] by (intro f64_of_nat_Fin) simp

lemma u64_value_bounds: "0 \<le> u64_value n" "u64_value n \<le> 2 ^ 64"
proof -
  have n: "unat n < 2 ^ 64" using unsigned_less [of n] by simp
  show "0 \<le> u64_value n" unfolding u64_value_def by (rule magnitude_nonneg) (rule of_nat_0_le_iff)
  show "u64_value n \<le> 2 ^ 64" unfolding u64_value_def
    by (rule magnitude_le_power [OF of_nat_0_le_iff of_nat_le_power [OF n]])
qed

lemma u64_value_idem [simp]: "magnitude (u64_value n) = u64_value n"
  unfolding u64_value_def by (rule magnitude_idem) (rule of_nat_0_le_iff)

lemma u64_value_exact: "unat n \<le> 2 ^ 53 \<Longrightarrow> u64_value n = of_nat (unat n)"
  unfolding u64_value_def by (rule magnitude_of_nat)

lemma u64_value_mono: "m \<le> n \<Longrightarrow> u64_value m \<le> u64_value n"
  unfolding u64_value_def by (intro magnitude_mono) (simp_all add: word_le_nat_alt del: of_nat_unat)

lemma u64_value_pos: "0 < n \<Longrightarrow> 1 \<le> u64_value n"
  unfolding u64_value_def using magnitude_ge_power [of 0] of_nat_ge_1 [of "unat n"]
  by (simp add: unat_gt_0 word_greater_zero_iff del: of_nat_unat)

end
