(* ===== verification/Message_Container.thy ===== *)
theory Message_Container
  imports Message_Frame Float64
begin

text \<open>
  Messages that carry a value container (\<open>Message::from_container\<close> and \<open>to_container\<close> in
  \<open>src/core/message.rs\<close>). The container and its serializer come from another crate, the JSON
  parser from \<open>serde_json\<close>: they are arguments. The JSON values are a datatype, and parsing
  integers and booleans is the algorithm of the standard library; parsing \<open>f64\<close> and the
  UTF-8 check are arguments.
\<close>

section \<open>Parsing numbers\<close>

definition invalid_digit :: string where
  "invalid_digit = ''invalid digit found in string''"

definition digit_value :: "char \<Rightarrow> int option" where
  "digit_value c = (let n = of_char c :: nat in if 48 \<le> n \<and> n \<le> 57 then Some (int n - 48) else None)"

text \<open>
  The loop of \<open>i32::from_str\<close> and \<open>i64::from_str\<close>, for the range \<open>lo\<close> to \<open>hi\<close>: the digit is
  examined before the overflow of the multiplication is.
\<close>

fun parse_digits :: "int \<Rightarrow> int \<Rightarrow> bool \<Rightarrow> int \<Rightarrow> string \<Rightarrow> string + int" where
  "parse_digits lo hi neg acc [] = Inr acc"
| "parse_digits lo hi neg acc (c # cs) =
     (case digit_value c of
        None \<Rightarrow> Inl invalid_digit
      | Some d \<Rightarrow>
          let acc' = (if neg then acc * 10 - d else acc * 10 + d) in
          if lo \<le> acc * 10 \<and> acc * 10 \<le> hi \<and> lo \<le> acc' \<and> acc' \<le> hi then parse_digits lo hi neg acc' cs
          else Inl (if neg then ''number too small to fit in target type'' else ''number too large to fit in target type''))"

definition parse_int :: "int \<Rightarrow> int \<Rightarrow> string \<Rightarrow> string + int" where
  "parse_int lo hi s =
     (case s of
        [] \<Rightarrow> Inl ''cannot parse integer from empty string''
      | c # cs \<Rightarrow>
          if cs = [] \<and> (c = CHR ''+'' \<or> c = CHR ''-'') then Inl invalid_digit
          else if c = CHR ''-'' then parse_digits lo hi True 0 cs
          else if c = CHR ''+'' then parse_digits lo hi False 0 cs
          else parse_digits lo hi False 0 s)"

definition parse_i32 :: "string \<Rightarrow> string + int" where
  "parse_i32 = parse_int (- (2 ^ 31)) (2 ^ 31 - 1)"

definition parse_i64 :: "string \<Rightarrow> string + int" where
  "parse_i64 = parse_int (- (2 ^ 63)) (2 ^ 63 - 1)"

definition parse_bool :: "string \<Rightarrow> string + bool" where
  "parse_bool s =
     (if s = ''true'' then Inr True else if s = ''false'' then Inr False
      else Inl ''provided string was not `true` or `false`'')"

section \<open>JSON and containers\<close>

datatype json = JNull | JBool bool | JNumber string | JString string | JArray "json list" | JObject "(string \<times> json) list"

fun json_get :: "string \<Rightarrow> json \<Rightarrow> json option" where
  "json_get key (JObject members) = map_of members key"
| "json_get key _ = None"

fun as_str :: "json \<Rightarrow> string option" where
  "as_str (JString s) = Some s"
| "as_str _ = None"

fun as_array :: "json \<Rightarrow> json list option" where
  "as_array (JArray js) = Some js"
| "as_array _ = None"

definition get_str :: "string \<Rightarrow> json \<Rightarrow> string option" where
  "get_str key j = Option.bind (json_get key j) as_str"

text \<open>The values given to the constructors \<open>BoolValue::new\<close>, \<open>IntValue::new\<close> and so on.\<close>

datatype container_value =
    BoolValue string bool
  | IntValue string int
  | LongValue string int
  | DoubleValue string f64
  | StringValue string string
  | BytesValue string "u8 list"

record 'c container_ops =
  ct_new :: 'c
  ct_set_source :: "string \<Rightarrow> string \<Rightarrow> 'c \<Rightarrow> 'c"
  ct_set_target :: "string \<Rightarrow> string \<Rightarrow> 'c \<Rightarrow> 'c"
  ct_set_message_type :: "string \<Rightarrow> 'c \<Rightarrow> 'c"
  ct_add_value :: "container_value \<Rightarrow> 'c \<Rightarrow> 'c"
  ct_serialize :: "'c \<Rightarrow> string + u8 list"

record parser_ops =
  ps_from_utf8 :: "u8 list \<Rightarrow> string + string"
  ps_from_str :: "string \<Rightarrow> string + json"
  ps_f64 :: "string \<Rightarrow> string + f64"

definition Message_from_container :: "'c container_ops \<Rightarrow> 'c \<Rightarrow> Message net_result" where
  "Message_from_container C container =
     (case ct_serialize C container of
        Inl e \<Rightarrow> Inl (NetworkError_serialization (''Container serialization failed: '' @ e))
      | Inr bytes \<Rightarrow> Inr (Message_new bytes))"

text \<open>The header fields: a source or target is set only when both of its parts are there.\<close>

definition set_pair :: "(string \<Rightarrow> string \<Rightarrow> 'c \<Rightarrow> 'c) \<Rightarrow> string option \<Rightarrow> string option \<Rightarrow> 'c \<Rightarrow> 'c" where
  "set_pair f x y c = (case x of Some a \<Rightarrow> (case y of Some b \<Rightarrow> f a b c | None \<Rightarrow> c) | None \<Rightarrow> c)"

definition container_header :: "'c container_ops \<Rightarrow> json \<Rightarrow> 'c \<Rightarrow> 'c" where
  "container_header C j c =
     (let c = set_pair (ct_set_source C) (get_str ''source_id'' j) (get_str ''source_sub_id'' j) c;
          c = set_pair (ct_set_target C) (get_str ''target_id'' j) (get_str ''target_sub_id'' j) c
      in case get_str ''message_type'' j of Some message_type \<Rightarrow> ct_set_message_type C message_type c | None \<Rightarrow> c)"

text \<open>The value of one entry, by its type tag.\<close>

definition entry_value :: "parser_ops \<Rightarrow> string \<Rightarrow> string \<Rightarrow> string \<Rightarrow> container_value net_result" where
  "entry_value P name type_str value_str =
     (if type_str = ''1'' then
        (case parse_bool value_str of
           Inl e \<Rightarrow> Inl (NetworkError_serialization (''Invalid bool value: '' @ e))
         | Inr b \<Rightarrow> Inr (BoolValue name b))
      else if type_str = ''4'' then
        (case parse_i32 value_str of
           Inl e \<Rightarrow> Inl (NetworkError_serialization (''Invalid int value: '' @ e))
         | Inr i \<Rightarrow> Inr (IntValue name i))
      else if type_str = ''6'' \<or> type_str = ''8'' then
        (case parse_i64 value_str of
           Inl e \<Rightarrow> Inl (NetworkError_serialization (''Invalid long value: '' @ e))
         | Inr i \<Rightarrow> Inr (LongValue name i))
      else if type_str = ''11'' then
        (case ps_f64 P value_str of
           Inl e \<Rightarrow> Inl (NetworkError_serialization (''Invalid double value: '' @ e))
         | Inr d \<Rightarrow> Inr (DoubleValue name d))
      else if type_str = ''13'' then Inr (StringValue name value_str)
      else if type_str = ''12'' then Inr (BytesValue name (map of_char value_str))
      else Inl (NetworkError_serialization (''Unsupported value type: '' @ type_str)))"

text \<open>The loop over the values: an entry without name, type or value is skipped, an error ends it.\<close>

fun container_values :: "'c container_ops \<Rightarrow> parser_ops \<Rightarrow> json list \<Rightarrow> 'c \<Rightarrow> 'c net_result" where
  "container_values C P [] c = Inr c"
| "container_values C P (j # js) c =
     (case (get_str ''name'' j, get_str ''type'' j, get_str ''value'' j) of
        (Some name, Some type_str, Some value_str) \<Rightarrow>
          (case entry_value P name type_str value_str of
             Inl e \<Rightarrow> Inl e
           | Inr v \<Rightarrow> container_values C P js (ct_add_value C v c))
      | _ \<Rightarrow> container_values C P js c)"

definition Message_to_container :: "'c container_ops \<Rightarrow> parser_ops \<Rightarrow> Message \<Rightarrow> 'c net_result" where
  "Message_to_container C P m =
     (case ps_from_utf8 P (msg_data m) of
        Inl e \<Rightarrow> Inl (NetworkError_serialization (''Invalid UTF-8 in container data: '' @ e))
      | Inr json_str \<Rightarrow>
          (case ps_from_str P json_str of
             Inl e \<Rightarrow> Inl (NetworkError_serialization (''Failed to parse container JSON: '' @ e))
           | Inr j \<Rightarrow>
               let c = container_header C j (ct_new C) in
               case Option.bind (json_get ''values'' j) as_array of
                 Some values \<Rightarrow> container_values C P values c
               | None \<Rightarrow> Inr c))"

section \<open>Integers are read back\<close>

definition show_int :: "int \<Rightarrow> string" where
  "show_int i = (if i < 0 then CHR ''-'' # show_nat (nat (- i)) else show_nat (nat i))"

lemma digit_value_char [simp]: "d < 10 \<Longrightarrow> digit_value (digit_char d) = Some (int d)"
  by (simp add: digit_value_def digit_char_def Let_def)

lemma parse_digits_append:
  "parse_digits lo hi neg acc (xs @ ys) =
     (case parse_digits lo hi neg acc xs of Inl e \<Rightarrow> Inl e | Inr a \<Rightarrow> parse_digits lo hi neg a ys)"
  by (induction lo hi neg acc xs rule: parse_digits.induct) (auto simp: Let_def split: option.splits)

lemma parse_digits_show:
  assumes "lo \<le> 0" "0 \<le> hi" "lo \<le> (if neg then - int n else int n)" "(if neg then - int n else int n) \<le> hi"
  shows "parse_digits lo hi neg 0 (show_nat n) = Inr (if neg then - int n else int n)"
  using assms(3,4)
proof (induction n rule: show_nat.induct)
  case (1 n)
  show ?case
  proof (cases "n < 10")
    case True
    then show ?thesis using 1(2,3) assms(1,2) by (auto simp: show_nat.simps [of n] Let_def split: if_splits)
  next
    case False
    let ?q = "n div 10" and ?r = "n mod 10"
    have n: "int n = 10 * int ?q + int ?r" by (metis of_nat_add of_nat_mult of_nat_numeral mult_div_mod_eq)
    have "parse_digits lo hi neg 0 (show_nat ?q) = Inr (if neg then - int ?q else int ?q)"
      using 1(1) [OF False] 1(2,3) n assms(1,2) by (auto split: if_splits)
    then have "parse_digits lo hi neg 0 (show_nat n) =
        parse_digits lo hi neg (if neg then - int ?q else int ?q) [digit_char ?r]"
      using False by (simp add: show_nat.simps [of n] parse_digits_append)
    then show ?thesis using 1(2,3) n assms(1,2) by (auto simp: Let_def split: if_splits)
  qed
qed

lemma show_nat_digits: "c \<in> set (show_nat n) \<Longrightarrow> c \<noteq> CHR ''+'' \<and> c \<noteq> CHR ''-''"
proof (induction n rule: show_nat.induct)
  case (1 n)
  have digit: "digit_char d \<noteq> CHR ''+'' \<and> digit_char d \<noteq> CHR ''-''" if "d < 10" for d
    using digit_value_char [OF that] by (auto simp: digit_value_def)
  show ?case
  proof (cases "n < 10")
    case True
    then show ?thesis using 1(2) digit [of n] by (auto simp: show_nat.simps [of n])
  next
    case False
    then show ?thesis using 1 digit [of "n mod 10"] by (auto simp: show_nat.simps [of n])
  qed
qed

lemma show_nat_Nil [simp]: "show_nat n \<noteq> []"
  by (simp add: show_nat.simps [of n])

lemma parse_int_show:
  assumes "lo \<le> i" "i \<le> hi" "lo \<le> 0" "0 \<le> hi"
  shows "parse_int lo hi (show_int i) = Inr i"
proof (cases "i < 0")
  case True
  then show ?thesis using parse_digits_show [of lo hi True "nat (- i)"] assms
    by (simp add: parse_int_def show_int_def)
next
  case False
  obtain c cs where c: "show_nat (nat i) = c # cs" by (cases "show_nat (nat i)") simp_all
  then have "c \<noteq> CHR ''+'' \<and> c \<noteq> CHR ''-''" using show_nat_digits [of c "nat i"] by simp
  moreover have "parse_digits lo hi False 0 (c # cs) = Inr i"
    using parse_digits_show [of lo hi False "nat i"] assms False by (simp add: c [symmetric])
  ultimately show ?thesis using False by (simp add: parse_int_def show_int_def c del: parse_digits.simps)
qed

text \<open>Nothing outside the range is ever returned.\<close>

lemma parse_digits_range:
  "parse_digits lo hi neg acc s = Inr i \<Longrightarrow> lo \<le> acc \<Longrightarrow> acc \<le> hi \<Longrightarrow> lo \<le> i \<and> i \<le> hi"
  by (induction lo hi neg acc s rule: parse_digits.induct) (auto simp: Let_def split: option.splits if_splits)

lemma parse_int_range: "parse_int lo hi s = Inr i \<Longrightarrow> lo \<le> 0 \<Longrightarrow> 0 \<le> hi \<Longrightarrow> lo \<le> i \<and> i \<le> hi"
  using parse_digits_range [of lo hi _ 0] by (auto simp: parse_int_def simp del: parse_digits.simps split: list.splits if_splits)

section \<open>Which values a message has\<close>

text \<open>
  An integer that is accepted is within the range of its type, and the loop over the values
  succeeds exactly when every complete entry has a value; these are then added, in the order
  of the entries.
\<close>

fun value_in_range :: "container_value \<Rightarrow> bool" where
  "value_in_range (IntValue name i) \<longleftrightarrow> - (2 ^ 31) \<le> i \<and> i < 2 ^ 31"
| "value_in_range (LongValue name i) \<longleftrightarrow> - (2 ^ 63) \<le> i \<and> i < 2 ^ 63"
| "value_in_range _ \<longleftrightarrow> True"

lemma entry_value_range: "entry_value P name tag body = Inr v \<Longrightarrow> value_in_range v"
  using parse_int_range [of "- (2 ^ 31)" "2 ^ 31 - 1" body] parse_int_range [of "- (2 ^ 63)" "2 ^ 63 - 1" body]
  by (auto simp: entry_value_def parse_i32_def parse_i64_def split: if_splits sum.splits)

definition entry_texts :: "json \<Rightarrow> (string \<times> string \<times> string) option" where
  "entry_texts j =
     (case (get_str ''name'' j, get_str ''type'' j, get_str ''value'' j) of
        (Some name, Some tag, Some body) \<Rightarrow> Some (name, tag, body)
      | _ \<Rightarrow> None)"

lemma container_values_iff:
  "container_values C P js c = Inr c' \<longleftrightarrow>
     (\<exists>vs. list_all2 (\<lambda>(name, tag, body) v. entry_value P name tag body = Inr v) (List.map_filter entry_texts js) vs \<and>
        c' = fold (ct_add_value C) vs c)"
proof (induction js arbitrary: c)
  case (Cons j js)
  show ?case
  proof (cases "entry_texts j")
    case None
    with Cons.IH [of c] show ?thesis by (auto simp: entry_texts_def List.map_filter_def split: option.splits)
  next
    case (Some e)
    then obtain name tag body where e: "get_str ''name'' j = Some name" "get_str ''type'' j = Some tag"
      "get_str ''value'' j = Some body" "e = (name, tag, body)"
      by (auto simp: entry_texts_def split: option.splits)
    with Some Cons.IH show ?thesis
      by (auto simp: List.map_filter_def list_all2_Cons1 split: sum.splits)
  qed
qed (auto simp: List.map_filter_def)

lemma container_values_in_range:
  assumes "container_values C P js c = Inr c'"
  shows "\<exists>vs. (\<forall>v \<in> set vs. value_in_range v) \<and> c' = fold (ct_add_value C) vs c"
proof -
  obtain vs where vs: "list_all2 (\<lambda>(name, tag, body) v. entry_value P name tag body = Inr v) (List.map_filter entry_texts js) vs"
    "c' = fold (ct_add_value C) vs c"
    using assms by (auto simp: container_values_iff)
  moreover have "value_in_range v" if "v \<in> set vs" for v
    using vs(1) that entry_value_range by (fastforce simp: list_all2_conv_all_nth in_set_conv_nth)
  ultimately show ?thesis by blast
qed

end
