(* ===== verification/Message_Queue.thy ===== *)
theory Message_Queue
  imports Message_Frame Tokio_Sync
begin

text \<open>
  The outbound message queue (\<open>src/core/message_queue.rs\<close>): a bounded channel guarded by a
  semaphore, with counters. Each operation is the composition of the atomic actions the
  code performs (acquire a permit, send, count; receive, count, release); the step
  relation \<open>mq_step\<close> interleaves these actions for any number of producers and consumers.
\<close>

section \<open>Configuration\<close>

record MessageQueueConfig =
  mqc_max_size :: nat
  mqc_enqueue_timeout :: duration
  mqc_drop_on_full :: bool

definition MessageQueueConfig_default :: MessageQueueConfig where
  "MessageQueueConfig_default =
     \<lparr>mqc_max_size = 1000, mqc_enqueue_timeout = from_secs 5, mqc_drop_on_full = False\<rparr>"

definition MessageQueueConfig_new :: MessageQueueConfig where
  "MessageQueueConfig_new = MessageQueueConfig_default"

definition MessageQueueConfig_with_max_size :: "nat \<Rightarrow> MessageQueueConfig \<Rightarrow> MessageQueueConfig" where
  "MessageQueueConfig_with_max_size sz c = c\<lparr>mqc_max_size := sz\<rparr>"

definition MessageQueueConfig_with_enqueue_timeout ::
  "duration \<Rightarrow> MessageQueueConfig \<Rightarrow> MessageQueueConfig" where
  "MessageQueueConfig_with_enqueue_timeout timeout c = c\<lparr>mqc_enqueue_timeout := timeout\<rparr>"

definition MessageQueueConfig_with_drop_on_full :: "bool \<Rightarrow> MessageQueueConfig \<Rightarrow> MessageQueueConfig" where
  "MessageQueueConfig_with_drop_on_full dropping c = c\<lparr>mqc_drop_on_full := dropping\<rparr>"

lemmas MessageQueueConfig_defs [config_defs] =
  MessageQueueConfig_default_def MessageQueueConfig_new_def MessageQueueConfig_with_max_size_def
  MessageQueueConfig_with_enqueue_timeout_def MessageQueueConfig_with_drop_on_full_def

section \<open>Queue\<close>

record ('s, 'c) MessageQueue =
  mq_config :: MessageQueueConfig
  mq_chan :: 'c
  mq_sem :: 's
  enqueued_count :: u64
  dequeued_count :: u64
  dropped_count :: u64

definition MessageQueue_new ::
  "'s semaphore_ops \<Rightarrow> ('c, Message) channel_ops \<Rightarrow> MessageQueueConfig \<Rightarrow> ('s, 'c) MessageQueue run" where
  "MessageQueue_new S C config =
     (case ch_channel C (mqc_max_size config) of
        None \<Rightarrow> Panicked ''mpsc bounded channel requires buffer > 0''
      | Some chan \<Rightarrow>
          Returned
            \<lparr>mq_config = config, mq_chan = chan, mq_sem = sem_new S (mqc_max_size config),
             enqueued_count = 0, dequeued_count = 0, dropped_count = 0\<rparr>)"

definition MessageQueue_with_default_config ::
  "'s semaphore_ops \<Rightarrow> ('c, Message) channel_ops \<Rightarrow> ('s, 'c) MessageQueue run" where
  "MessageQueue_with_default_config S C = MessageQueue_new S C MessageQueueConfig_default"

subsection \<open>The atomic actions\<close>

text \<open>
  The permit of \<open>enqueue\<close>. A blocking acquire that finds a permit takes it at once;
  without one it fails when the timeout passes. (A permit that becomes available during
  the wait is taken by the same action at that later moment.)
\<close>

definition MessageQueue_acquire ::
  "'s semaphore_ops \<Rightarrow> ('s, 'c) MessageQueue \<Rightarrow> unit net_result \<times> ('s, 'c) MessageQueue" where
  "MessageQueue_acquire S q =
     (if mqc_drop_on_full (mq_config q)
      then
        (case sem_try_acquire S (mq_sem q) of
           Acquired sem \<Rightarrow> (Inr (), q\<lparr>mq_sem := sem\<rparr>)
         | _ \<Rightarrow>
             (Inl (NetworkError_other ''Message queue full, message dropped''),
              q\<lparr>dropped_count := dropped_count q + 1\<rparr>))
      else
        (case sem_try_acquire S (mq_sem q) of
           Acquired sem \<Rightarrow> (Inr (), q\<lparr>mq_sem := sem\<rparr>)
         | NoPermits \<Rightarrow> (Inl (NetworkError_timeout ''Enqueue timeout: queue full''), q)
         | SemClosed \<Rightarrow> (Inl (NetworkError_other ''Queue semaphore closed''), q)))"

definition MessageQueue_try_permit ::
  "'s semaphore_ops \<Rightarrow> ('s, 'c) MessageQueue \<Rightarrow> unit net_result \<times> ('s, 'c) MessageQueue" where
  "MessageQueue_try_permit S q =
     (case sem_try_acquire S (mq_sem q) of
        Acquired sem \<Rightarrow> (Inr (), q\<lparr>mq_sem := sem\<rparr>)
      | _ \<Rightarrow>
          (Inl (NetworkError_other ''Message queue full''),
           q\<lparr>dropped_count := dropped_count q + 1\<rparr>))"

definition MessageQueue_release_permit ::
  "'s semaphore_ops \<Rightarrow> ('s, 'c) MessageQueue \<Rightarrow> ('s, 'c) MessageQueue" where
  "MessageQueue_release_permit S q = q\<lparr>mq_sem := sem_add_permits S 1 (mq_sem q)\<rparr>"

definition MessageQueue_count_enqueued :: "('s, 'c) MessageQueue \<Rightarrow> ('s, 'c) MessageQueue" where
  "MessageQueue_count_enqueued q = q\<lparr>enqueued_count := enqueued_count q + 1\<rparr>"

definition MessageQueue_count_dequeued :: "('s, 'c) MessageQueue \<Rightarrow> ('s, 'c) MessageQueue" where
  "MessageQueue_count_dequeued q = q\<lparr>dequeued_count := dequeued_count q + 1\<rparr>"

text \<open>
  Sending while holding a permit, then counting. \<open>None\<close>: the send waits for room. On a
  closed channel the error return drops the permit, which gives it back.
\<close>

definition MessageQueue_send_and_count ::
  "'s semaphore_ops \<Rightarrow> ('c, Message) channel_ops \<Rightarrow> Message \<Rightarrow> ('s, 'c) MessageQueue \<Rightarrow>
     unit net_result option \<times> ('s, 'c) MessageQueue" where
  "MessageQueue_send_and_count S C message q =
     (case ch_send C message (mq_chan q) of
        Sent chan \<Rightarrow> (Some (Inr ()), MessageQueue_count_enqueued (q\<lparr>mq_chan := chan\<rparr>))
      | SendWaits \<Rightarrow> (None, q)
      | SendClosed \<Rightarrow>
          (Some (Inl (NetworkError_other ''Message queue closed'')), MessageQueue_release_permit S q))"

subsection \<open>The operations\<close>

definition MessageQueue_enqueue ::
  "'s semaphore_ops \<Rightarrow> ('c, Message) channel_ops \<Rightarrow> Message \<Rightarrow> ('s, 'c) MessageQueue \<Rightarrow>
     unit net_result option \<times> ('s, 'c) MessageQueue" where
  "MessageQueue_enqueue S C message q =
     (case MessageQueue_acquire S q of
        (Inl e, q) \<Rightarrow> (Some (Inl e), q)
      | (Inr _, q) \<Rightarrow> MessageQueue_send_and_count S C message q)"

definition MessageQueue_try_enqueue ::
  "'s semaphore_ops \<Rightarrow> ('c, Message) channel_ops \<Rightarrow> Message \<Rightarrow> ('s, 'c) MessageQueue \<Rightarrow>
     unit net_result option \<times> ('s, 'c) MessageQueue" where
  "MessageQueue_try_enqueue S C message q =
     (case MessageQueue_try_permit S q of
        (Inl e, q) \<Rightarrow> (Some (Inl e), q)
      | (Inr _, q) \<Rightarrow> MessageQueue_send_and_count S C message q)"

text \<open>\<open>None\<close>: the receiver awaits a message.\<close>

definition MessageQueue_dequeue ::
  "'s semaphore_ops \<Rightarrow> ('c, Message) channel_ops \<Rightarrow> ('s, 'c) MessageQueue \<Rightarrow>
     Message option \<times> ('s, 'c) MessageQueue" where
  "MessageQueue_dequeue S C q =
     (case ch_recv C (mq_chan q) of
        None \<Rightarrow> (None, q)
      | Some (message, chan) \<Rightarrow>
          let q = q\<lparr>mq_chan := chan\<rparr>;
              q = MessageQueue_count_dequeued q
          in (Some message, MessageQueue_release_permit S q))"

text \<open>\<open>try_lock\<close> on the receiver may fail while another consumer holds it.\<close>

definition MessageQueue_try_dequeue ::
  "'s semaphore_ops \<Rightarrow> ('c, Message) channel_ops \<Rightarrow> bool \<Rightarrow> ('s, 'c) MessageQueue \<Rightarrow>
     Message option \<times> ('s, 'c) MessageQueue" where
  "MessageQueue_try_dequeue S C lock_free q =
     (if \<not> lock_free then (None, q)
      else
        case ch_recv C (mq_chan q) of
          None \<Rightarrow> (None, q)
        | Some (message, chan) \<Rightarrow>
            let q = q\<lparr>mq_chan := chan\<rparr>;
                q = MessageQueue_count_dequeued q
            in (Some message, MessageQueue_release_permit S q))"

record MessageQueueStats =
  stats_depth :: u64
  stats_max_size :: u64
  stats_enqueued :: u64
  stats_dequeued :: u64
  stats_dropped :: u64

definition MessageQueue_stats :: "('s, 'c) MessageQueue \<Rightarrow> MessageQueueStats" where
  "MessageQueue_stats q =
     (let enqueued = enqueued_count q;
          dequeued = dequeued_count q;
          depth = (if enqueued < dequeued then 0 else enqueued - dequeued)
      in \<lparr>stats_depth = depth, stats_max_size = of_nat (mqc_max_size (mq_config q)),
          stats_enqueued = enqueued, stats_dequeued = dequeued, stats_dropped = dropped_count q\<rparr>)"

definition MessageQueue_is_empty :: "('s, 'c) MessageQueue \<Rightarrow> bool" where
  "MessageQueue_is_empty q \<longleftrightarrow> stats_depth (MessageQueue_stats q) = 0"

definition MessageQueue_is_full :: "'s semaphore_ops \<Rightarrow> ('s, 'c) MessageQueue \<Rightarrow> bool" where
  "MessageQueue_is_full S q \<longleftrightarrow> sem_available S (mq_sem q) = 0"

definition MessageQueue_depth :: "('s, 'c) MessageQueue \<Rightarrow> u64" where
  "MessageQueue_depth q = stats_depth (MessageQueue_stats q)"

section \<open>Specification: a bounded first-in first-out queue\<close>

datatype mq_call = Enqueue Message | TryEnqueue Message | Dequeue | TryDequeue bool

datatype mq_answer = Done | Failed NetworkError | Got "Message option" | Waiting

fun mq_do ::
  "'s semaphore_ops \<Rightarrow> ('c, Message) channel_ops \<Rightarrow> mq_call \<Rightarrow> ('s, 'c) MessageQueue \<Rightarrow>
     mq_answer \<times> ('s, 'c) MessageQueue" where
  "mq_do S C (Enqueue m) q =
     map_prod (case_option Waiting (case_sum Failed (\<lambda>_. Done))) id (MessageQueue_enqueue S C m q)"
| "mq_do S C (TryEnqueue m) q =
     map_prod (case_option Waiting (case_sum Failed (\<lambda>_. Done))) id (MessageQueue_try_enqueue S C m q)"
| "mq_do S C Dequeue q =
     map_prod (case_option Waiting (\<lambda>m. Got (Some m))) id (MessageQueue_dequeue S C q)"
| "mq_do S C (TryDequeue free) q = map_prod Got id (MessageQueue_try_dequeue S C free q)"

fun fifo_do :: "MessageQueueConfig \<Rightarrow> mq_call \<Rightarrow> Message list \<Rightarrow> mq_answer \<times> Message list" where
  "fifo_do config (Enqueue m) ms =
     (if length ms < mqc_max_size config then (Done, ms @ [m])
      else if mqc_drop_on_full config then (Failed (Other ''Message queue full, message dropped''), ms)
      else (Failed (Timeout ''Enqueue timeout: queue full''), ms))"
| "fifo_do config (TryEnqueue m) ms =
     (if length ms < mqc_max_size config then (Done, ms @ [m])
      else (Failed (Other ''Message queue full''), ms))"
| "fifo_do config Dequeue ms = (case ms of [] \<Rightarrow> (Waiting, []) | m # ms \<Rightarrow> (Got (Some m), ms))"
| "fifo_do config (TryDequeue free) ms =
     (if \<not> free then (Got None, ms)
      else case ms of [] \<Rightarrow> (Got None, []) | m # ms \<Rightarrow> (Got (Some m), ms))"

text \<open>The queue between calls: every permit is available or stands for a queued message.\<close>

definition mq_wf :: "'s semaphore_ops \<Rightarrow> ('c, Message) channel_ops \<Rightarrow> ('s, 'c) MessageQueue \<Rightarrow> bool" where
  "mq_wf S C q \<longleftrightarrow>
     \<not> sem_is_closed S (mq_sem q) \<and>
     ch_capacity C (mq_chan q) = mqc_max_size (mq_config q) \<and>
     mqc_max_size (mq_config q) \<le> MAX_PERMITS \<and>
     sem_available S (mq_sem q) + length (ch_contents C (mq_chan q)) = mqc_max_size (mq_config q) \<and>
     enqueued_count q = dequeued_count q + of_nat (length (ch_contents C (mq_chan q)))"

lemmas mq_defs =
  MessageQueue_enqueue_def MessageQueue_try_enqueue_def MessageQueue_dequeue_def
  MessageQueue_try_dequeue_def MessageQueue_acquire_def MessageQueue_try_permit_def
  MessageQueue_send_and_count_def MessageQueue_release_permit_def
  MessageQueue_count_enqueued_def MessageQueue_count_dequeued_def

locale queue_parts = semaphore S + channel C
  for S :: "'s semaphore_ops" and C :: "('c, Message) channel_ops"
begin

lemma wf_room:
  assumes "mq_wf S C q"
  shows "0 < sem_available S (mq_sem q) \<longleftrightarrow> length (ch_contents C (mq_chan q)) < mqc_max_size (mq_config q)"
  using assms by (auto simp: mq_wf_def)

text \<open>Taking a permit and sending is an append when there is room.\<close>

lemma send_with_permit:
  assumes "mq_wf S C q" "sem_try_acquire S (mq_sem q) = Acquired sem"
  shows "\<exists>q'. MessageQueue_send_and_count S C m (q\<lparr>mq_sem := sem\<rparr>) = (Some (Inr ()), q') \<and> mq_wf S C q' \<and>
    ch_contents C (mq_chan q') = ch_contents C (mq_chan q) @ [m] \<and> mq_config q' = mq_config q"
proof -
  have avail: "sem_available S (mq_sem q) = Suc (sem_available S sem)"
    using assms(2) by (rule acquired_available)
  then have "length (ch_contents C (mq_chan q)) < ch_capacity C (mq_chan q)"
    using assms(1) by (auto simp: mq_wf_def)
  then obtain c where "ch_send C m (mq_chan q) = Sent c" "ch_contents C c = ch_contents C (mq_chan q) @ [m]"
    "ch_capacity C c = ch_capacity C (mq_chan q)" using send_room by blast
  with assms avail acquired_open [OF assms(2)] show ?thesis
    by (auto simp: MessageQueue_send_and_count_def MessageQueue_count_enqueued_def mq_wf_def)
qed

text \<open>Receiving a message gives its permit back.\<close>

lemma recv_with_release:
  assumes "mq_wf S C q" "ch_recv C (mq_chan q) = Some (m, c)"
  shows "mq_wf S C (q\<lparr>mq_chan := c, dequeued_count := dequeued_count q + 1,
      mq_sem := sem_add_permits S 1 (mq_sem q)\<rparr>)"
  using assms recvD [OF assms(2)] available_add [of "mq_sem q" 1] open_add [of "mq_sem q" 1]
  by (simp add: mq_wf_def)

lemma mq_do_refines:
  assumes "mq_wf S C q"
  shows "map_prod id (\<lambda>q. ch_contents C (mq_chan q)) (mq_do S C call q) =
           fifo_do (mq_config q) call (ch_contents C (mq_chan q)) \<and>
         mq_wf S C (snd (mq_do S C call q)) \<and> mq_config (snd (mq_do S C call q)) = mq_config q"
proof (cases call)
  case (Enqueue m)
  show ?thesis
    using assms wf_room [OF assms] send_with_permit [OF assms, of _ m] acquired_available [of "mq_sem q"]
      not_acquired_iff [of "mq_sem q"] never_SemClosed [of "mq_sem q"]
    by (cases "sem_try_acquire S (mq_sem q)")
       (fastforce simp: Enqueue MessageQueue_enqueue_def MessageQueue_acquire_def mq_wf_def)+
next
  case (TryEnqueue m)
  show ?thesis
    using assms wf_room [OF assms] send_with_permit [OF assms, of _ m] acquired_available [of "mq_sem q"]
      not_acquired_iff [of "mq_sem q"] never_SemClosed [of "mq_sem q"]
    by (cases "sem_try_acquire S (mq_sem q)")
       (fastforce simp: TryEnqueue MessageQueue_try_enqueue_def MessageQueue_try_permit_def mq_wf_def)+
next
  case Dequeue
  show ?thesis
    using assms recv_with_release [OF assms] recvD recv_None_iff [of "mq_chan q"]
    by (auto simp: Dequeue MessageQueue_dequeue_def MessageQueue_release_permit_def
          MessageQueue_count_dequeued_def Let_def split: option.splits list.splits)
next
  case (TryDequeue free)
  show ?thesis
    using assms recv_with_release [OF assms] recvD recv_None_iff [of "mq_chan q"]
    by (auto simp: TryDequeue MessageQueue_try_dequeue_def MessageQueue_release_permit_def
          MessageQueue_count_dequeued_def Let_def split: option.splits list.splits)
qed

lemma new_wf:
  assumes "MessageQueue_new S C config = Returned q" "mqc_max_size config \<le> MAX_PERMITS"
  shows "mq_wf S C q \<and> mq_config q = config \<and> ch_contents C (mq_chan q) = []"
  using assms channel_SomeD [of "mqc_max_size config"] available_new open_new
  by (auto simp: MessageQueue_new_def mq_wf_def split: option.splits)

end

interpretation list_queue: queue_parts counter_semaphore list_channel
  by unfold_locales

text \<open>The queue implements the list of its messages.\<close>

definition mq_implements ::
  "'s semaphore_ops \<Rightarrow> ('c, Message) channel_ops \<Rightarrow> MessageQueueConfig \<Rightarrow> ('s, 'c) MessageQueue \<Rightarrow>
     Message list \<Rightarrow> bool" where
  "mq_implements S C config q ms \<longleftrightarrow>
     queue_parts S C \<and> mq_wf S C q \<and> mq_config q = config \<and> ch_contents C (mq_chan q) = ms"

interpretation mq_fifo: simulation "mq_do S C" "fifo_do config" "\<lambda>_ _. True" "mq_implements S C config"
proof
  fix q ms x
  assume "mq_implements S C config q ms"
  then show "rel_prod (=) (mq_implements S C config) (mq_do S C x q) (fifo_do config x ms)"
    using queue_parts.mq_do_refines [of S C q x]
    by (auto simp: mq_implements_def rel_prod_sel prod_eq_iff)
qed

section \<open>Producers and consumers at the same time\<close>

text \<open>
  The shared queue together with the calls that are under way: producers that hold a
  permit and have not sent yet, producers that have sent but not counted, consumers that
  have received but not counted, and consumers that have counted but not given the permit
  back. The two logs record the messages in the order of their sends and receives.
\<close>

record ('s, 'c) mq_system =
  sys_queue :: "('s, 'c) MessageQueue"
  holding :: "Message list"
  uncounted :: nat
  received :: nat
  releasing :: nat
  sent_log :: "Message list"
  recv_log :: "Message list"

definition mq_start :: "('s, 'c) MessageQueue \<Rightarrow> ('s, 'c) mq_system" where
  "mq_start q = \<lparr>sys_queue = q, holding = [], uncounted = 0, received = 0, releasing = 0,
     sent_log = [], recv_log = []\<rparr>"

inductive mq_step ::
  "'s semaphore_ops \<Rightarrow> ('c, Message) channel_ops \<Rightarrow> ('s, 'c) mq_system \<Rightarrow> ('s, 'c) mq_system \<Rightarrow> bool"
  for S C where
  acquire: "MessageQueue_acquire S (sys_queue s) = (Inr (), q) \<Longrightarrow>
     mq_step S C s (s\<lparr>sys_queue := q, holding := m # holding s\<rparr>)"
| acquire_fails: "MessageQueue_acquire S (sys_queue s) = (Inl e, q) \<Longrightarrow>
     mq_step S C s (s\<lparr>sys_queue := q\<rparr>)"
| try_acquire: "MessageQueue_try_permit S (sys_queue s) = (Inr (), q) \<Longrightarrow>
     mq_step S C s (s\<lparr>sys_queue := q, holding := m # holding s\<rparr>)"
| try_acquire_fails: "MessageQueue_try_permit S (sys_queue s) = (Inl e, q) \<Longrightarrow>
     mq_step S C s (s\<lparr>sys_queue := q\<rparr>)"
| send: "m \<in> set (holding s) \<Longrightarrow> ch_send C m (mq_chan (sys_queue s)) = Sent chan \<Longrightarrow>
     mq_step S C s (s\<lparr>sys_queue := (sys_queue s)\<lparr>mq_chan := chan\<rparr>, holding := remove1 m (holding s),
       uncounted := Suc (uncounted s), sent_log := sent_log s @ [m]\<rparr>)"
| cancel: "m \<in> set (holding s) \<Longrightarrow>
     mq_step S C s (s\<lparr>sys_queue := MessageQueue_release_permit S (sys_queue s),
       holding := remove1 m (holding s)\<rparr>)"
| count: "uncounted s = Suc n \<Longrightarrow>
     mq_step S C s (s\<lparr>sys_queue := MessageQueue_count_enqueued (sys_queue s), uncounted := n\<rparr>)"
| recv: "ch_recv C (mq_chan (sys_queue s)) = Some (m, chan) \<Longrightarrow>
     mq_step S C s (s\<lparr>sys_queue := (sys_queue s)\<lparr>mq_chan := chan\<rparr>, received := Suc (received s),
       recv_log := recv_log s @ [m]\<rparr>)"
| count_recv: "received s = Suc n \<Longrightarrow>
     mq_step S C s (s\<lparr>sys_queue := MessageQueue_count_dequeued (sys_queue s), received := n,
       releasing := Suc (releasing s)\<rparr>)"
| release: "releasing s = Suc n \<Longrightarrow>
     mq_step S C s (s\<lparr>sys_queue := MessageQueue_release_permit S (sys_queue s), releasing := n\<rparr>)"

text \<open>
  Every permit is accounted for: it is available, held by a producer, stands for a queued
  message, or is on its way back.
\<close>

definition mq_inv ::
  "MessageQueueConfig \<Rightarrow> 's semaphore_ops \<Rightarrow> ('c, Message) channel_ops \<Rightarrow> ('s, 'c) mq_system \<Rightarrow> bool" where
  "mq_inv config S C s \<longleftrightarrow>
     (let q = sys_queue s in
      mq_config q = config \<and> \<not> sem_is_closed S (mq_sem q) \<and>
      ch_capacity C (mq_chan q) = mqc_max_size config \<and> mqc_max_size config \<le> MAX_PERMITS \<and>
      sem_available S (mq_sem q) + length (holding s) + length (ch_contents C (mq_chan q)) +
        received s + releasing s = mqc_max_size config \<and>
      sent_log s = recv_log s @ ch_contents C (mq_chan q) \<and>
      enqueued_count q + of_nat (uncounted s) = of_nat (length (sent_log s)) \<and>
      dequeued_count q + of_nat (received s) = of_nat (length (recv_log s)))"

context queue_parts
begin

lemma acquire_inv:
  assumes "mq_inv config S C s"
    and "MessageQueue_acquire S (sys_queue s) = (r, q) \<or> MessageQueue_try_permit S (sys_queue s) = (r, q)"
  shows "r = Inr () \<Longrightarrow> mq_inv config S C (s\<lparr>sys_queue := q, holding := m # holding s\<rparr>)"
    and "r = Inl e \<Longrightarrow> mq_inv config S C (s\<lparr>sys_queue := q\<rparr>)"
  using assms acquired_available [of "mq_sem (sys_queue s)"] acquired_open [of "mq_sem (sys_queue s)"]
  by (auto simp: mq_inv_def Let_def MessageQueue_acquire_def MessageQueue_try_permit_def
        split: if_splits try_acquire.splits)

lemma length_remove1_in: "x \<in> set xs \<Longrightarrow> length xs = Suc (length (remove1 x xs))"
  using length_pos_if_in_set [of x xs] by (simp add: length_remove1)

lemma mq_step_inv:
  assumes "mq_step S C s t" "mq_inv config S C s"
  shows "mq_inv config S C t"
  using assms
proof (cases rule: mq_step.cases)
  case (send m chan)
  with sentD [OF send(3)] length_remove1_in [OF send(2)] assms(2) show ?thesis
    by (auto simp: mq_inv_def Let_def)
next
  case (cancel m)
  with length_remove1_in [OF cancel(2)] assms(2) show ?thesis
    using available_add [of "mq_sem (sys_queue s)" 1] open_add [of "mq_sem (sys_queue s)" 1]
    by (auto simp: mq_inv_def Let_def MessageQueue_release_permit_def)
next
  case (recv m chan)
  with recvD [OF recv(2)] assms(2) show ?thesis by (auto simp: mq_inv_def Let_def)
next
  case (release n)
  with assms(2) show ?thesis
    using available_add [of "mq_sem (sys_queue s)" 1] open_add [of "mq_sem (sys_queue s)" 1]
    by (auto simp: mq_inv_def Let_def MessageQueue_release_permit_def)
next
  case (acquire q m)
  with acquire_inv(1) [OF assms(2), of "Inr ()" q m] show ?thesis by simp
next
  case (acquire_fails e q)
  with acquire_inv(2) [OF assms(2), of "Inl e" q e] show ?thesis by simp
next
  case (try_acquire q m)
  with acquire_inv(1) [OF assms(2), of "Inr ()" q m] show ?thesis by simp
next
  case (try_acquire_fails e q)
  with acquire_inv(2) [OF assms(2), of "Inl e" q e] show ?thesis by simp
next
  case (count n)
  with assms(2) show ?thesis
    by (simp add: mq_inv_def Let_def MessageQueue_count_enqueued_def add.assoc)
next
  case (count_recv n)
  with assms(2) show ?thesis
    by (simp add: mq_inv_def Let_def MessageQueue_count_dequeued_def add.assoc)
qed

lemma mq_start_inv: "mq_wf S C q \<Longrightarrow> ch_contents C (mq_chan q) = [] \<Longrightarrow> enqueued_count q = 0 \<Longrightarrow>
    mq_inv (mq_config q) S C (mq_start q)"
  by (auto simp: mq_inv_def mq_wf_def mq_start_def Let_def)

end

interpretation mq_conc: step_system "mq_step S C" "\<lambda>s. queue_parts S C \<longrightarrow> mq_inv config S C s"
  by unfold_locales (blast intro: queue_parts.mq_step_inv)

lemma word_diff_of_nat:
  assumes "a + of_nat 0 = (of_nat (n + k) :: u64)" "b + of_nat 0 = (of_nat n :: u64)" "n + k < 2 ^ 64"
  shows "\<not> a < b \<and> unat (a - b) = k"
proof -
  have "unat a = n + k" "unat b = n"
    using assms by (simp_all add: unat_of_nat del: of_nat_add)
  then show ?thesis by (simp add: word_less_nat_alt unat_sub word_le_nat_alt)
qed

section \<open>Properties\<close>

text \<open>
  C8. The message queue refines a bounded first-in first-out queue: for every sequence of
  calls on a new queue, the answers are those of a list of capacity \<open>max_size\<close> that
  refuses (with the error of the configured policy) exactly when it is full and delivers
  in order; the queue afterwards holds the same messages, at most \<open>max_size\<close> of them, and
  \<open>is_full\<close> tells whether there is room. The send never waits and the channel is never
  found closed.
\<close>

theorem message_queue_refines_fifo:
  assumes "semaphore S" "channel C"
    and "MessageQueue_new S C config = Returned q" "mqc_max_size config \<le> MAX_PERMITS"
  shows "let (answers, q') = run_calls (mq_do S C) calls q;
             (spec_answers, ms) = run_calls (fifo_do config) calls []
         in answers = spec_answers \<and> ch_contents C (mq_chan q') = ms \<and>
            length ms \<le> mqc_max_size config \<and>
            (MessageQueue_is_full S q' \<longleftrightarrow> length ms = mqc_max_size config)"
proof -
  have parts: "queue_parts S C" using assms(1,2) by (simp add: queue_parts_def)
  have "mq_implements S C config q []"
    using parts queue_parts.new_wf [OF parts assms(3,4)] by (simp add: mq_implements_def)
  from mq_fifo.run_simulates [OF this, of calls] show ?thesis
    by (auto simp: mq_implements_def MessageQueue_is_full_def mq_wf_def rel_prod_sel split: prod.splits)
qed

definition small_queue_config :: MessageQueueConfig where
  "small_queue_config =
     MessageQueueConfig_with_drop_on_full True (MessageQueueConfig_with_max_size 1 MessageQueueConfig_new)"

definition small_queue :: "(nat, Message list \<times> nat) MessageQueue" where
  "small_queue =
     \<lparr>mq_config = small_queue_config, mq_chan = ([], 1), mq_sem = 1,
      enqueued_count = 0, dequeued_count = 0, dropped_count = 0\<rparr>"

lemma small_queue_new: "MessageQueue_new counter_semaphore list_channel small_queue_config = Returned small_queue"
  by (simp add: MessageQueue_new_def list_channel_def counter_semaphore_def small_queue_def
        small_queue_config_def config_defs)

lemma small_queue_permits: "mqc_max_size small_queue_config \<le> MAX_PERMITS"
  by (simp add: small_queue_config_def config_defs MAX_PERMITS_def)

theorem message_queue_refines_fifo_witness:
  "let (answers, q') = run_calls (mq_do counter_semaphore list_channel)
         [Enqueue (Message_from_str ''a''), Enqueue (Message_from_str ''b''), Dequeue] small_queue;
       (spec_answers, ms) = run_calls (fifo_do small_queue_config)
         [Enqueue (Message_from_str ''a''), Enqueue (Message_from_str ''b''), Dequeue] []
   in answers = spec_answers \<and> ch_contents list_channel (mq_chan q') = ms \<and>
      length ms \<le> mqc_max_size small_queue_config \<and>
      (MessageQueue_is_full counter_semaphore q' \<longleftrightarrow> length ms = mqc_max_size small_queue_config)"
  by (rule message_queue_refines_fifo [OF counter.semaphore_axioms listch.channel_axioms
        small_queue_new small_queue_permits])

text \<open>
  C9. The queue under concurrency. However the actions of any number of producers and
  consumers interleave, including producers cancelled while they hold a permit: the
  channel never holds more than \<open>max_size\<close> messages; messages are received in the order in
  which they were sent, none lost and none duplicated; a producer that holds a permit finds
  room, so its send completes at once; and when all counters have caught up with the
  messages (fewer than 2^64 so far), the reported depth is the number of queued messages.
\<close>

theorem message_queue_concurrent:
  assumes "semaphore S" "channel C"
    and "MessageQueue_new S C config = Returned q" "mqc_max_size config \<le> MAX_PERMITS"
    and "(mq_step S C)\<^sup>*\<^sup>* (mq_start q) s"
  shows "length (ch_contents C (mq_chan (sys_queue s))) \<le> mqc_max_size config \<and>
         sent_log s = recv_log s @ ch_contents C (mq_chan (sys_queue s)) \<and>
         (holding s \<noteq> [] \<longrightarrow> (\<exists>chan. ch_send C m (mq_chan (sys_queue s)) = Sent chan)) \<and>
         (uncounted s = 0 \<and> received s = 0 \<and> length (sent_log s) < 2 ^ 64 \<longrightarrow>
            unat (MessageQueue_depth (sys_queue s)) = length (ch_contents C (mq_chan (sys_queue s))))"
proof -
  have parts: "queue_parts S C" using assms(1,2) by (simp add: queue_parts_def)
  note new = queue_parts.new_wf [OF parts assms(3,4)]
  have "enqueued_count q = 0" using assms(3) by (auto simp: MessageQueue_new_def split: option.splits)
  then have "mq_inv config S C (mq_start q)"
    using queue_parts.mq_start_inv [OF parts, of q] new by simp
  then have inv: "mq_inv config S C s" using mq_conc.steps_inv [OF assms(5)] parts by blast
  then have "holding s \<noteq> [] \<longrightarrow> length (ch_contents C (mq_chan (sys_queue s))) < ch_capacity C (mq_chan (sys_queue s))"
    by (cases "holding s") (auto simp: mq_inv_def Let_def)
  with channel.send_room [OF assms(2), of "mq_chan (sys_queue s)" m] inv show ?thesis
    using word_diff_of_nat [of "enqueued_count (sys_queue s)" "length (recv_log s)"
        "length (ch_contents C (mq_chan (sys_queue s)))" "dequeued_count (sys_queue s)"]
    by (auto simp: mq_inv_def Let_def MessageQueue_depth_def MessageQueue_stats_def)
qed

theorem message_queue_concurrent_witness:
  "\<exists>s. (mq_step counter_semaphore list_channel)\<^sup>*\<^sup>* (mq_start small_queue) s \<and> holding s = [Message_from_str ''a''] \<and>
     (\<exists>chan. ch_send list_channel (Message_from_str ''a'') (mq_chan (sys_queue s)) = Sent chan)"
proof -
  let ?s = "(mq_start small_queue)\<lparr>sys_queue := small_queue\<lparr>mq_sem := 0\<rparr>, holding := [Message_from_str ''a'']\<rparr>"
  have "mq_step counter_semaphore list_channel (mq_start small_queue) ?s"
    using mq_step.acquire [where S = counter_semaphore and C = list_channel and s = "mq_start small_queue"
        and q = "small_queue\<lparr>mq_sem := 0\<rparr>" and m = "Message_from_str ''a''"]
    by (simp add: mq_start_def MessageQueue_acquire_def small_queue_def small_queue_config_def
          counter_semaphore_def config_defs)
  then have reach: "(mq_step counter_semaphore list_channel)\<^sup>*\<^sup>* (mq_start small_queue) ?s" by blast
  from message_queue_concurrent [OF counter.semaphore_axioms listch.channel_axioms
      small_queue_new small_queue_permits reach, of "Message_from_str ''a''"] reach
  show ?thesis by (intro exI [of _ ?s]) simp
qed

text \<open>A queue configured with \<open>max_size\<close> 0 cannot be built: the constructor panics.\<close>

lemma message_queue_zero_panics:
  "channel C \<Longrightarrow> MessageQueue_new S C (MessageQueueConfig_with_max_size 0 config) =
     Panicked ''mpsc bounded channel requires buffer > 0''"
  by (simp add: MessageQueue_new_def config_defs channel.channel_zero)

end
