(* ===== verification/Circuit_Breaker.thy ===== *)
theory Circuit_Breaker
  imports Prelude
begin

text \<open>
  The circuit breaker (\<open>src/stability/circuit_breaker.rs\<close>). Every method runs under the write
  lock of its state, so the breaker is a machine whose events are the method calls; each
  event carries the clock reading the method makes. The counters are 32-bit words.
\<close>

section \<open>Model\<close>

datatype CircuitState = Closed | Open | HalfOpen

record CircuitBreakerConfig =
  failure_threshold :: u32
  success_threshold :: u32
  open_timeout :: duration
  window_size :: duration

definition CircuitBreakerConfig_default :: CircuitBreakerConfig where
  "CircuitBreakerConfig_default =
     \<lparr>failure_threshold = 5, success_threshold = 2, open_timeout = from_secs 60,
      window_size = from_secs 10\<rparr>"

definition CircuitBreakerConfig_new :: CircuitBreakerConfig where
  "CircuitBreakerConfig_new = CircuitBreakerConfig_default"

definition CircuitBreakerConfig_with_failure_threshold ::
  "u32 \<Rightarrow> CircuitBreakerConfig \<Rightarrow> CircuitBreakerConfig" where
  "CircuitBreakerConfig_with_failure_threshold threshold c = c\<lparr>failure_threshold := threshold\<rparr>"

definition CircuitBreakerConfig_with_success_threshold ::
  "u32 \<Rightarrow> CircuitBreakerConfig \<Rightarrow> CircuitBreakerConfig" where
  "CircuitBreakerConfig_with_success_threshold threshold c = c\<lparr>success_threshold := threshold\<rparr>"

definition CircuitBreakerConfig_with_timeout ::
  "duration \<Rightarrow> CircuitBreakerConfig \<Rightarrow> CircuitBreakerConfig" where
  "CircuitBreakerConfig_with_timeout timeout c = c\<lparr>open_timeout := timeout\<rparr>"

definition CircuitBreakerConfig_with_window_size ::
  "duration \<Rightarrow> CircuitBreakerConfig \<Rightarrow> CircuitBreakerConfig" where
  "CircuitBreakerConfig_with_window_size window c = c\<lparr>window_size := window\<rparr>"

lemmas CircuitBreakerConfig_defs [config_defs] =
  CircuitBreakerConfig_default_def CircuitBreakerConfig_new_def
  CircuitBreakerConfig_with_failure_threshold_def CircuitBreakerConfig_with_success_threshold_def
  CircuitBreakerConfig_with_timeout_def CircuitBreakerConfig_with_window_size_def

record CircuitBreakerState =
  cb_state :: CircuitState
  failure_count :: u32
  success_count :: u32
  last_failure_time :: "instant option"
  opened_at :: "instant option"

record CircuitBreaker =
  cb_config :: CircuitBreakerConfig
  cb_inner :: CircuitBreakerState

definition CircuitBreaker_with_config :: "CircuitBreakerConfig \<Rightarrow> CircuitBreaker" where
  "CircuitBreaker_with_config config =
     \<lparr>cb_config = config,
      cb_inner = \<lparr>cb_state = Closed, failure_count = 0, success_count = 0,
        last_failure_time = None, opened_at = None\<rparr>\<rparr>"

definition CircuitBreaker_new :: CircuitBreaker where
  "CircuitBreaker_new = CircuitBreaker_with_config CircuitBreakerConfig_default"

definition CircuitBreaker_is_request_allowed :: "instant \<Rightarrow> CircuitBreaker \<Rightarrow> bool \<times> CircuitBreaker" where
  "CircuitBreaker_is_request_allowed now cb =
     (let state = cb_inner cb in
      case cb_state state of
        Closed \<Rightarrow> (True, cb)
      | Open \<Rightarrow>
          (case opened_at state of
             Some t \<Rightarrow>
               if elapsed now t \<ge> open_timeout (cb_config cb)
               then (True, cb\<lparr>cb_inner := state\<lparr>cb_state := HalfOpen, success_count := 0, failure_count := 0\<rparr>\<rparr>)
               else (False, cb)
           | None \<Rightarrow> (False, cb))
      | HalfOpen \<Rightarrow> (True, cb))"

definition CircuitBreaker_record_success :: "CircuitBreaker \<Rightarrow> CircuitBreaker" where
  "CircuitBreaker_record_success cb =
     (let state = cb_inner cb in
      case cb_state state of
        Closed \<Rightarrow> cb\<lparr>cb_inner := state\<lparr>failure_count := 0, last_failure_time := None\<rparr>\<rparr>
      | HalfOpen \<Rightarrow>
          let state = state\<lparr>success_count := success_count state + 1\<rparr> in
          if success_count state \<ge> success_threshold (cb_config cb)
          then cb\<lparr>cb_inner := state\<lparr>cb_state := Closed, failure_count := 0, success_count := 0, opened_at := None\<rparr>\<rparr>
          else cb\<lparr>cb_inner := state\<rparr>
      | Open \<Rightarrow> cb)"

definition CircuitBreaker_record_failure :: "instant \<Rightarrow> CircuitBreaker \<Rightarrow> CircuitBreaker" where
  "CircuitBreaker_record_failure now cb =
     (let state = cb_inner cb;
          state =
            (case last_failure_time state of
               Some last_failure \<Rightarrow>
                 if elapsed now last_failure > window_size (cb_config cb)
                 then state\<lparr>failure_count := 0\<rparr> else state
             | None \<Rightarrow> state);
          state = state\<lparr>last_failure_time := Some now\<rparr>
      in
        case cb_state state of
          Closed \<Rightarrow>
            let state = state\<lparr>failure_count := failure_count state + 1\<rparr> in
            if failure_count state \<ge> failure_threshold (cb_config cb)
            then cb\<lparr>cb_inner := state\<lparr>cb_state := Open, opened_at := Some now\<rparr>\<rparr>
            else cb\<lparr>cb_inner := state\<rparr>
        | HalfOpen \<Rightarrow>
            cb\<lparr>cb_inner := state\<lparr>cb_state := Open, opened_at := Some now, failure_count := 1, success_count := 0\<rparr>\<rparr>
        | Open \<Rightarrow> cb\<lparr>cb_inner := state\<lparr>failure_count := failure_count state + 1\<rparr>\<rparr>)"

definition CircuitBreaker_reset :: "CircuitBreaker \<Rightarrow> CircuitBreaker" where
  "CircuitBreaker_reset cb =
     cb\<lparr>cb_inner := (cb_inner cb)\<lparr>cb_state := Closed, failure_count := 0, success_count := 0,
       last_failure_time := None, opened_at := None\<rparr>\<rparr>"

definition CircuitBreaker_default :: CircuitBreaker where
  "CircuitBreaker_default = CircuitBreaker_new"

definition CircuitBreaker_state :: "CircuitBreaker \<Rightarrow> CircuitState" where
  "CircuitBreaker_state cb = cb_state (cb_inner cb)"

definition CircuitBreaker_failure_count :: "CircuitBreaker \<Rightarrow> u32" where
  "CircuitBreaker_failure_count cb = failure_count (cb_inner cb)"

definition CircuitBreaker_success_count :: "CircuitBreaker \<Rightarrow> u32" where
  "CircuitBreaker_success_count cb = success_count (cb_inner cb)"

datatype 'e CircuitBreakerError = CircuitOpen | InnerError 'e

text \<open>
  \<open>call\<close>: the result of awaiting the protected operation, and what other tasks did to the
  shared breaker in the meantime, are arguments.
\<close>

definition CircuitBreaker_call ::
  "instant \<Rightarrow> (CircuitBreaker \<Rightarrow> CircuitBreaker) \<Rightarrow> 'e + 't \<Rightarrow> instant \<Rightarrow> CircuitBreaker \<Rightarrow>
     ('e CircuitBreakerError + 't) \<times> CircuitBreaker" where
  "CircuitBreaker_call now others outcome now' cb =
     (case CircuitBreaker_is_request_allowed now cb of
        (False, cb) \<Rightarrow> (Inl CircuitOpen, cb)
      | (True, cb) \<Rightarrow>
          (case outcome of
             Inr result \<Rightarrow> (Inr result, CircuitBreaker_record_success (others cb))
           | Inl err \<Rightarrow> (Inl (InnerError err), CircuitBreaker_record_failure now' (others cb))))"

fun CircuitBreakerError_source :: "'e CircuitBreakerError \<Rightarrow> 'e option" where
  "CircuitBreakerError_source CircuitOpen = None"
| "CircuitBreakerError_source (InnerError e) = Some e"

fun CircuitBreakerError_to_string :: "('e \<Rightarrow> string) \<Rightarrow> 'e CircuitBreakerError \<Rightarrow> string" where
  "CircuitBreakerError_to_string show_e CircuitOpen = ''Circuit breaker is open''"
| "CircuitBreakerError_to_string show_e (InnerError e) = ''Operation failed: '' @ show_e e"

section \<open>Events and invariant\<close>

datatype cb_event = Ask instant | Success | Failure instant | Reset

fun cb_apply :: "cb_event \<Rightarrow> CircuitBreaker \<Rightarrow> CircuitBreaker" where
  "cb_apply (Ask now) cb = snd (CircuitBreaker_is_request_allowed now cb)"
| "cb_apply Success cb = CircuitBreaker_record_success cb"
| "cb_apply (Failure now) cb = CircuitBreaker_record_failure now cb"
| "cb_apply Reset cb = CircuitBreaker_reset cb"

fun cb_event_time :: "cb_event \<Rightarrow> instant option" where
  "cb_event_time (Ask now) = Some now"
| "cb_event_time (Failure now) = Some now"
| "cb_event_time _ = None"

lemmas cb_defs =
  CircuitBreaker_is_request_allowed_def CircuitBreaker_record_success_def
  CircuitBreaker_record_failure_def CircuitBreaker_reset_def

definition cb_inv :: "CircuitBreaker \<Rightarrow> bool" where
  "cb_inv cb \<longleftrightarrow>
     (let s = cb_inner cb; c = cb_config cb in
      case cb_state s of
        Closed \<Rightarrow>
          opened_at s = None \<and> success_count s = 0 \<and>
          (failure_count s = 0 \<or> failure_count s < failure_threshold c) \<and>
          (failure_count s \<noteq> 0 \<longrightarrow> last_failure_time s \<noteq> None)
      | Open \<Rightarrow> opened_at s \<noteq> None \<and> success_count s = 0
      | HalfOpen \<Rightarrow>
          opened_at s \<noteq> None \<and> (success_count s = 0 \<or> success_count s < success_threshold c))"

lemma cb_apply_config [simp]: "cb_config (cb_apply e cb) = cb_config cb"
  by (cases e) (auto simp: cb_defs Let_def split: CircuitState.splits option.splits)

lemma cb_apply_inv: "cb_inv cb \<Longrightarrow> cb_inv (cb_apply e cb)"
  by (cases e)
     (auto simp: cb_defs cb_inv_def Let_def not_le split: CircuitState.splits option.splits if_splits)

interpretation breaker: event_system cb_apply cb_inv
  by unfold_locales (rule cb_apply_inv)

lemma cb_inv_new: "cb_inv (CircuitBreaker_with_config config)"
  by (simp add: CircuitBreaker_with_config_def cb_inv_def)

text \<open>An open breaker whose timeout has not passed ignores everything but a reset.\<close>

definition cb_open_since :: "instant \<Rightarrow> CircuitBreaker \<Rightarrow> bool" where
  "cb_open_since t cb \<longleftrightarrow> cb_state (cb_inner cb) = Open \<and> opened_at (cb_inner cb) = Some t"

lemma cb_apply_open_since:
  assumes "cb_open_since t cb" "e \<noteq> Reset"
    and "\<forall>now. cb_event_time e = Some now \<longrightarrow> t \<le> now \<and> now < t + open_timeout (cb_config cb)"
  shows "cb_open_since t (cb_apply e cb)"
  using assms
  by (cases e) (auto simp: cb_defs cb_open_since_def elapsed_def Let_def split: option.splits)

lemma cb_run_open_since:
  assumes "cb_open_since t cb" "Reset \<notin> set es"
    and "\<forall>e \<in> set es. \<forall>now. cb_event_time e = Some now \<longrightarrow> t \<le> now \<and> now < t + open_timeout (cb_config cb)"
  shows "cb_open_since t (fold cb_apply es cb) \<and> cb_config (fold cb_apply es cb) = cb_config cb"
  using assms
proof (induction es arbitrary: cb)
  case (Cons e es)
  then have "cb_open_since t (cb_apply e cb)" by (intro cb_apply_open_since) auto
  with Cons.IH [of "cb_apply e cb"] Cons.prems show ?case by simp
qed simp

section \<open>When a closed breaker opens\<close>

text \<open>
  The specification: a burst is a block of failures with no success among them in which
  each failure comes at most one window after the one before.
\<close>

definition burst :: "duration \<Rightarrow> instant list \<Rightarrow> bool" where
  "burst window ts \<longleftrightarrow> successively (\<lambda>t t'. elapsed t' t \<le> window) ts"

definition has_burst :: "duration \<Rightarrow> nat \<Rightarrow> cb_event list \<Rightarrow> bool" where
  "has_burst window n es \<longleftrightarrow>
     (\<exists>xs ts zs. es = xs @ map Failure ts @ zs \<and> length ts = n \<and> burst window ts)"

text \<open>The length of the burst at the end of a history, read backwards.\<close>

fun trailing :: "duration \<Rightarrow> cb_event list \<Rightarrow> nat" where
  "trailing window (Failure t # Failure t' # es) =
     (if elapsed t t' > window then 1 else Suc (trailing window (Failure t' # es)))"
| "trailing window (Failure t # es) = 1"
| "trailing window es = 0"

lemma burst_rev:
  "burst window (rev ts) \<longleftrightarrow> successively (\<lambda>t t'. elapsed t t' \<le> window) ts"
  by (simp add: burst_def successively_rev)

lemma trailing_lower:
  "burst window (rev ts) \<Longrightarrow> length ts \<le> trailing window (map Failure ts @ rest)"
  unfolding burst_rev
proof (induction ts rule: induct_list012)
  case (2 t)
  show ?case by (cases rest rule: list.exhaust; cases "hd rest") auto
qed auto

lemma trailing_attained:
  "\<exists>ts rest. r = map Failure ts @ rest \<and> length ts = trailing window r \<and> burst window (rev ts)"
  unfolding burst_rev
proof (induction window r rule: trailing.induct)
  case (1 window t t' es)
  show ?case
  proof (cases "elapsed t t' > window")
    case True
    then show ?thesis by (intro exI [of _ "[t]"]) simp
  next
    case False
    with "1" obtain ts rest where IH: "Failure t' # es = map Failure ts @ rest"
      "length ts = trailing window (Failure t' # es)" "successively (\<lambda>t t'. elapsed t t' \<le> window) ts"
      by auto
    then obtain us where "ts = t' # us" by (cases ts) (use False in \<open>auto split: if_splits elim: trailing.elims\<close>)
    with IH False show ?thesis by (intro exI [of _ "t # ts"] exI [of _ rest]) simp
  qed
qed (auto intro: exI [of _ "[_]"])

lemma burst_rev_take: "burst window (rev ts) \<Longrightarrow> burst window (rev (take n ts))"
  unfolding burst_rev by (metis append_take_drop_id successively_append_iff)

lemma trailing_ge_iff:
  "n \<le> trailing window r \<longleftrightarrow>
     (\<exists>ts rest. r = map Failure ts @ rest \<and> length ts = n \<and> burst window (rev ts))"
proof
  assume "n \<le> trailing window r"
  moreover obtain ts rest where "r = map Failure ts @ rest" "length ts = trailing window r" "burst window (rev ts)"
    using trailing_attained by blast
  ultimately show "\<exists>ts rest. r = map Failure ts @ rest \<and> length ts = n \<and> burst window (rev ts)"
    using burst_rev_take [of window ts n]
    by (intro exI [of _ "take n ts"] exI [of _ "map Failure (drop n ts) @ rest"])
       (simp flip: append_assoc map_append)
next
  assume "\<exists>ts rest. r = map Failure ts @ rest \<and> length ts = n \<and> burst window (rev ts)"
  then show "n \<le> trailing window r" using trailing_lower by blast
qed

lemma has_burst_iff_trailing:
  "has_burst window n es \<longleftrightarrow> (\<exists>ys zs. es = ys @ zs \<and> n \<le> trailing window (rev ys))"
proof -
  have "n \<le> trailing window (rev ys) \<longleftrightarrow>
      (\<exists>xs ts. ys = xs @ map Failure ts \<and> length ts = n \<and> burst window ts)" for ys
  proof -
    have "rev ys = map Failure ts @ rest \<longleftrightarrow> ys = rev rest @ map Failure (rev ts)" for ts rest
      by (metis rev_append rev_map rev_rev_ident)
    then show ?thesis unfolding trailing_ge_iff by (metis length_rev rev_rev_ident)
  qed
  then show ?thesis unfolding has_burst_def by (metis append_assoc)
qed

lemma has_burst_snoc:
  "has_burst window n (es @ [e]) \<longleftrightarrow> has_burst window n es \<or> n \<le> trailing window (e # rev es)"
proof -
  have "es @ [e] = ys @ zs \<longleftrightarrow> ys = es @ [e] \<and> zs = [] \<or> (\<exists>zs'. zs = zs' @ [e] \<and> es = ys @ zs')" for ys zs
    by (cases zs rule: rev_cases) auto
  then show ?thesis unfolding has_burst_iff_trailing by (metis append_Nil2 rev.simps(2) rev_rev_ident rev_append)
qed

lemma unat_Suc_below: "(x::u32) < y \<Longrightarrow> unat (x + 1) = Suc (unat x)"
proof -
  assume "x < y"
  moreover have "unat y < 2 ^ 32" using unsigned_less [of y] by simp
  ultimately show ?thesis by (simp add: word_less_nat_alt unat_word_ariths)
qed

text \<open>The breaker against the specification, event by event.\<close>

definition last_failure :: "cb_event list \<Rightarrow> instant option" where
  "last_failure r = (case r of Failure t # _ \<Rightarrow> Some t | _ \<Rightarrow> None)"

lemma trailing_step:
  "trailing window (Failure t # r) =
     (case last_failure r of
        Some t' \<Rightarrow> if elapsed t t' > window then 1 else Suc (trailing window r)
      | None \<Rightarrow> 1)"
  by (cases r) (auto simp: last_failure_def split: cb_event.splits)

lemma trailing_no_failure: "last_failure r = None \<Longrightarrow> trailing window r = 0"
  by (cases r) (auto simp: last_failure_def split: cb_event.splits)

lemma cb_history:
  assumes "failure_threshold config \<noteq> 0" "\<forall>e \<in> set es. e = Success \<or> (\<exists>t. e = Failure t)"
  shows "let s = cb_inner (fold cb_apply es (CircuitBreaker_with_config config)) in
    if has_burst (window_size config) (unat (failure_threshold config)) es then cb_state s = Open
    else cb_state s = Closed \<and> unat (failure_count s) = trailing (window_size config) (rev es) \<and>
      last_failure_time s = last_failure (rev es)"
  using assms(2)
proof (induction es rule: rev_induct)
  case Nil
  then show ?case
    using assms(1)
    by (simp add: has_burst_def CircuitBreaker_with_config_def last_failure_def unat_eq_zero)
next
  case (snoc e es)
  let ?W = "window_size config" and ?n = "unat (failure_threshold config)"
  define cb where "cb = fold cb_apply es (CircuitBreaker_with_config config)"
  have cfg: "cb_config cb = config"
    unfolding cb_def by (induction es rule: rev_induct) (simp_all add: CircuitBreaker_with_config_def)
  from snoc have IH: "if has_burst ?W ?n es then cb_state (cb_inner cb) = Open
    else cb_state (cb_inner cb) = Closed \<and> unat (failure_count (cb_inner cb)) = trailing ?W (rev es) \<and>
      last_failure_time (cb_inner cb) = last_failure (rev es)" by (simp add: cb_def Let_def)
  show ?case
  proof (cases "has_burst ?W ?n es")
    case True
    with IH snoc.prems show ?thesis
      by (auto simp: has_burst_snoc cb_defs Let_def cb_def [symmetric] split: option.splits)
  next
    case False
    then have small: "trailing ?W (rev es) < ?n"
      using has_burst_iff_trailing [of ?W ?n es] by (metis append_Nil2 not_le)
    with False IH have below: "failure_count (cb_inner cb) < failure_threshold config"
      by (simp add: word_less_nat_alt)
    from False IH snoc.prems small below assms(1) show ?thesis
      by (auto simp: has_burst_snoc cb_defs Let_def cfg trailing_step last_failure_def [of "_ # _"]
            word_le_nat_alt unat_Suc_below trailing_no_failure cb_def [symmetric] unat_gt_0
            split: option.splits if_splits)
  qed
qed

section \<open>Properties\<close>

text \<open>
  C13. When a breaker opens. From a new breaker with a positive failure threshold, and for
  every history of recorded successes and failures, the breaker is open after the history
  exactly when the history contains a block of \<open>failure_threshold\<close> failures with no success
  among them, each at most \<open>window_size\<close> after the failure before it; otherwise it is closed.
\<close>

theorem breaker_opens_iff_burst:
  assumes "failure_threshold config \<noteq> 0" "\<forall>e \<in> set es. e = Success \<or> (\<exists>t. e = Failure t)"
  shows "cb_state (cb_inner (fold cb_apply es (CircuitBreaker_with_config config))) =
    (if has_burst (window_size config) (unat (failure_threshold config)) es then Open else Closed)"
  using cb_history [OF assms] by (auto simp: Let_def split: if_splits)

text \<open>
  The window is measured between neighbouring failures: five failures nine seconds apart
  open the default breaker (window ten seconds) although they span thirty-six seconds.
\<close>

theorem breaker_opens_iff_burst_witness:
  "cb_state (cb_inner (fold cb_apply (map (\<lambda>k. Failure (from_secs (9 * k))) [0, 1, 2, 3, 4])
     (CircuitBreaker_with_config CircuitBreakerConfig_default))) = Open"
proof -
  have "has_burst (window_size CircuitBreakerConfig_default) 5
      (map Failure (map (\<lambda>k. from_secs (9 * k)) [0, 1, 2, 3, 4]))"
    unfolding has_burst_def
    by (rule exI [of _ "[]"], rule exI [of _ "map (\<lambda>k. from_secs (9 * k)) [0, 1, 2, 3, 4]"], rule exI [of _ "[]"])
       (simp add: burst_def config_defs from_secs_def elapsed_def)
  then show ?thesis
    using breaker_opens_iff_burst [of CircuitBreakerConfig_default
        "map (\<lambda>k. Failure (from_secs (9 * k))) [0, 1, 2, 3, 4]"]
    by (simp add: config_defs comp_def)
qed

text \<open>
  An open breaker shields the service for the whole timeout. If it opened at time \<open>t\<close>,
  then after any events other than a reset whose clock readings lie between \<open>t\<close> and the end
  of the timeout (including successes and failures of requests admitted earlier), it is
  still open since \<open>t\<close>. Until the end of the timeout \<open>call\<close> is refused without running its
  operation and without changing the breaker; from then on it runs the operation and
  returns what that returns, and the breaker is half-open while it runs.
\<close>

theorem breaker_open_until_timeout:
  assumes "cb_open_since t cb" "Reset \<notin> set es"
    and "\<forall>e \<in> set es. \<forall>now. cb_event_time e = Some now \<longrightarrow> t \<le> now \<and> now < t + open_timeout (cb_config cb)"
    and "t \<le> now"
  shows "let cb' = fold cb_apply es cb; half_open = snd (CircuitBreaker_is_request_allowed now cb') in
    if now < t + open_timeout (cb_config cb)
    then CircuitBreaker_call now others outcome now' cb' = (Inl CircuitOpen, cb')
    else cb_state (cb_inner half_open) = HalfOpen \<and>
      CircuitBreaker_call now others outcome now' cb' =
        (case outcome of
           Inr result \<Rightarrow> (Inr result, CircuitBreaker_record_success (others half_open))
         | Inl e \<Rightarrow> (Inl (InnerError e), CircuitBreaker_record_failure now' (others half_open)))"
  using cb_run_open_since [OF assms(1-3)] assms(4)
  by (auto simp: Let_def CircuitBreaker_call_def CircuitBreaker_is_request_allowed_def cb_open_since_def elapsed_def
      split: sum.splits)

definition tripped :: CircuitBreaker where
  "tripped = fold cb_apply [Failure 7]
     (CircuitBreaker_with_config (CircuitBreakerConfig_with_failure_threshold 1 CircuitBreakerConfig_new))"

theorem breaker_open_until_timeout_witness:
  "cb_open_since 7 tripped \<and>
   CircuitBreaker_call (from_secs 30) id (Inr 5 :: string + nat) (from_secs 31) (fold cb_apply [Failure 8, Success] tripped) =
     (Inl CircuitOpen, fold cb_apply [Failure 8, Success] tripped) \<and>
   fst (CircuitBreaker_call (from_secs 61) id (Inr 5 :: string + nat) (from_secs 62) tripped) = Inr 5"
proof -
  have "cb_open_since 7 tripped" "cb_config tripped = CircuitBreakerConfig_with_failure_threshold 1 CircuitBreakerConfig_new"
    by (simp_all add: tripped_def cb_open_since_def cb_defs CircuitBreaker_with_config_def config_defs)
  then show ?thesis
    using breaker_open_until_timeout [of 7 tripped "[Failure 8, Success]" "from_secs 30" id "Inr 5 :: string + nat" "from_secs 31"]
      breaker_open_until_timeout [of 7 tripped "[]" "from_secs 61" id "Inr 5 :: string + nat" "from_secs 62"]
    by (simp add: config_defs from_secs_def Let_def)
qed

text \<open>Admissions and successes in a half-open breaker.\<close>

lemma probe_run:
  assumes "cb_inv cb" "cb_state (cb_inner cb) = HalfOpen" "\<forall>e \<in> set es. e = Success \<or> (\<exists>t. e = Ask t)"
  shows "let n = count_list es Success; s = cb_inner (fold cb_apply es cb) in
    if 0 < n \<and> unat (success_threshold (cb_config cb)) \<le> unat (success_count (cb_inner cb)) + n
    then cb_state s = Closed \<and> failure_count s = 0
    else cb_state s = HalfOpen \<and> unat (success_count s) = unat (success_count (cb_inner cb)) + n"
  using assms(3)
proof (induction es rule: rev_induct)
  case Nil
  then show ?case using assms(2) by simp
next
  case (snoc e es)
  define c where "c = fold cb_apply es cb"
  have inv: "cb_inv c" unfolding c_def by (rule breaker.run_inv [OF assms(1)])
  have cfg: "cb_config c = cb_config cb" unfolding c_def by (induction es rule: rev_induct) simp_all
  show ?case
  proof (cases "e = Success")
    case True
    have "unat (success_count (cb_inner c) + 1) = unat (success_count (cb_inner c)) + 1"
      if "cb_state (cb_inner c) = HalfOpen"
      using inv that by (auto simp: cb_inv_def Let_def unat_Suc_below)
    with True snoc inv cfg show ?thesis
      by (auto simp: c_def [symmetric] Let_def CircuitBreaker_record_success_def word_le_nat_alt split: if_splits)
  next
    case False
    with snoc.prems obtain t where "e = Ask t" by auto
    with snoc show ?thesis
      by (auto simp: c_def [symmetric] Let_def CircuitBreaker_is_request_allowed_def split: if_splits)
  qed
qed

text \<open>A breaker that is not closed, from the time of its timeout on.\<close>

lemma probe_recovers:
  assumes "cb_inv cb" "cb_state (cb_inner cb) \<noteq> Closed" "opened_at (cb_inner cb) = Some t"
    and "t + open_timeout (cb_config cb) \<le> now"
  shows "fst (CircuitBreaker_is_request_allowed now cb) \<and>
    (\<forall>calls. (\<forall>e \<in> set calls. e = Success \<or> (\<exists>t. e = Ask t)) \<longrightarrow>
      (let successes = (if cb_state (cb_inner cb) = HalfOpen then unat (success_count (cb_inner cb)) else 0) +
             count_list calls Success;
           cb' = fold cb_apply calls (cb_apply (Ask now) cb) in
       if Success \<in> set calls \<and> unat (success_threshold (cb_config cb)) \<le> successes
       then CircuitBreaker_state cb' = Closed \<and> CircuitBreaker_failure_count cb' = 0
       else CircuitBreaker_state cb' = HalfOpen))"
proof (intro conjI allI impI)
  show "fst (CircuitBreaker_is_request_allowed now cb)"
    using assms(2-4)
    by (cases "cb_state (cb_inner cb)") (auto simp: CircuitBreaker_is_request_allowed_def elapsed_def Let_def)
next
  fix calls
  assume calls: "\<forall>e \<in> set calls. e = Success \<or> (\<exists>t. e = Ask t)"
  have "cb_state (cb_inner (cb_apply (Ask now) cb)) = HalfOpen"
    "unat (success_count (cb_inner (cb_apply (Ask now) cb))) =
       (if cb_state (cb_inner cb) = HalfOpen then unat (success_count (cb_inner cb)) else 0)"
    using assms(2-4)
    by (cases "cb_state (cb_inner cb)"; auto simp: CircuitBreaker_is_request_allowed_def elapsed_def Let_def)+
  moreover have "Success \<in> set calls \<longleftrightarrow> 0 < count_list calls Success"
    using count_list_0_iff [of calls Success] by (simp add: neq0_conv [symmetric] del: neq0_conv)
  ultimately show "let successes = (if cb_state (cb_inner cb) = HalfOpen then unat (success_count (cb_inner cb)) else 0) +
             count_list calls Success;
           cb' = fold cb_apply calls (cb_apply (Ask now) cb) in
       if Success \<in> set calls \<and> unat (success_threshold (cb_config cb)) \<le> successes
       then CircuitBreaker_state cb' = Closed \<and> CircuitBreaker_failure_count cb' = 0
       else CircuitBreaker_state cb' = HalfOpen"
    using probe_run [OF cb_apply_inv [OF assms(1), of "Ask now"] _ calls]
    by (simp add: Let_def CircuitBreaker_state_def CircuitBreaker_failure_count_def del: cb_apply.simps split: if_splits)
qed

text \<open>
  C36. No breaker is stuck, in any state a new one can reach by any sequence of calls. An open or
  half-open breaker knows when it opened, and at every time at least \<open>timeout\<close> after that a
  request is admitted. From there on, while calls only succeed (and further requests for
  admission come in between), the breaker is closed with no failures counted as soon as the
  successes since it became half-open are at least one and reach \<open>success_threshold\<close>, and half-open
  before. A closed breaker has no opening time and no successes counted; and neither the failure
  counter of a closed breaker nor the success counter of a half-open one ever wraps around.
\<close>

theorem breaker_recovers:
  "let cb = fold cb_apply es (CircuitBreaker_with_config config); s = cb_inner cb in
   (cb_state s \<noteq> Closed \<longrightarrow> (\<exists>t. opened_at s = Some t \<and>
      (\<forall>now \<ge> t + open_timeout config. fst (CircuitBreaker_is_request_allowed now cb) \<and>
         (\<forall>calls. (\<forall>e \<in> set calls. e = Success \<or> (\<exists>t. e = Ask t)) \<longrightarrow>
            (let successes = (if cb_state s = HalfOpen then unat (success_count s) else 0) + count_list calls Success;
                 cb' = fold cb_apply calls (cb_apply (Ask now) cb) in
             if Success \<in> set calls \<and> unat (success_threshold config) \<le> successes
             then CircuitBreaker_state cb' = Closed \<and> CircuitBreaker_failure_count cb' = 0
             else CircuitBreaker_state cb' = HalfOpen))))) \<and>
   (cb_state s = Closed \<longrightarrow> opened_at s = None \<and> success_count s = 0 \<and>
      unat (failure_count s + 1) = unat (failure_count s) + 1) \<and>
   (cb_state s = HalfOpen \<longrightarrow> unat (success_count s + 1) = unat (success_count s) + 1)"
proof -
  define cb where "cb = fold cb_apply es (CircuitBreaker_with_config config)"
  have inv: "cb_inv cb" unfolding cb_def by (rule breaker.run_inv [OF cb_inv_new])
  have cfg: "cb_config cb = config"
    unfolding cb_def by (induction es rule: rev_induct) (simp_all add: CircuitBreaker_with_config_def)
  have "cb_state (cb_inner cb) \<noteq> Closed \<Longrightarrow> \<exists>t. opened_at (cb_inner cb) = Some t"
    using inv by (auto simp: cb_inv_def Let_def split: CircuitState.splits)
  moreover have "cb_state (cb_inner cb) = Closed \<longrightarrow> opened_at (cb_inner cb) = None \<and> success_count (cb_inner cb) = 0 \<and>
      unat (failure_count (cb_inner cb) + 1) = unat (failure_count (cb_inner cb)) + 1"
    "cb_state (cb_inner cb) = HalfOpen \<longrightarrow> unat (success_count (cb_inner cb) + 1) = unat (success_count (cb_inner cb)) + 1"
    using inv by (auto simp: cb_inv_def Let_def unat_Suc_below)
  ultimately show ?thesis using probe_recovers [OF inv] unfolding cfg cb_def [symmetric] Let_def by blast
qed

text \<open>Sixty seconds after it was tripped, two successes close the breaker.\<close>

theorem breaker_recovers_witness:
  "CircuitBreaker_state tripped = Open \<and>
   CircuitBreaker_state (fold cb_apply [Success, Ask (from_secs 68), Success] (cb_apply (Ask (from_secs 67)) tripped)) = Closed"
proof -
  have "cb_state (cb_inner tripped) = Open" "opened_at (cb_inner tripped) = Some 7"
    by (simp_all add: tripped_def cb_defs CircuitBreaker_with_config_def config_defs)
  with breaker_recovers [where es = "[Failure 7]"
      and config = "CircuitBreakerConfig_with_failure_threshold 1 CircuitBreakerConfig_new", folded tripped_def]
  have "\<forall>calls. (\<forall>e \<in> set calls. e = Success \<or> (\<exists>t. e = Ask t)) \<longrightarrow>
      (if Success \<in> set calls \<and> 2 \<le> count_list calls Success
       then CircuitBreaker_state (fold cb_apply calls (cb_apply (Ask (from_secs 67)) tripped)) = Closed \<and>
         CircuitBreaker_failure_count (fold cb_apply calls (cb_apply (Ask (from_secs 67)) tripped)) = 0
       else CircuitBreaker_state (fold cb_apply calls (cb_apply (Ask (from_secs 67)) tripped)) = HalfOpen)"
    by (simp add: Let_def config_defs from_secs_def del: cb_apply.simps)
  from spec [OF this, of "[Success, Ask (from_secs 68), Success]"] \<open>cb_state (cb_inner tripped) = Open\<close> show ?thesis
    by (simp add: CircuitBreaker_state_def del: cb_apply.simps)
qed

end
