(* ===== verification/Breaker_Refinement.thy ===== *)
theory Breaker_Refinement
  imports Circuit_Breaker
begin

text \<open>
  The circuit breaker (\<open>src/stability/circuit_breaker.rs\<close>) as an implementation of a machine
  with four kinds of state, in which a counter exists only where it means something and is
  a natural number.
\<close>

section \<open>Specification\<close>

datatype breaker = Calm | Failing nat instant | Tripped instant | Probing nat

text \<open>One failure more in a closed breaker: the burst that ends with it has \<open>n\<close> failures.\<close>

definition fails :: "CircuitBreakerConfig \<Rightarrow> nat \<Rightarrow> instant \<Rightarrow> breaker" where
  "fails config n now =
     (if n \<ge> unat (failure_threshold config) then Tripped now else Failing n now)"

fun breaker_call :: "CircuitBreakerConfig \<Rightarrow> cb_event \<Rightarrow> breaker \<Rightarrow> bool option \<times> breaker" where
  "breaker_call config (Ask now) b =
     (case b of
        Tripped t \<Rightarrow> if elapsed now t \<ge> open_timeout config then (Some True, Probing 0) else (Some False, b)
      | _ \<Rightarrow> (Some True, b))"
| "breaker_call config Success b =
     (None,
      case b of
        Tripped t \<Rightarrow> Tripped t
      | Probing n \<Rightarrow> if Suc n \<ge> unat (success_threshold config) then Calm else Probing (Suc n)
      | _ \<Rightarrow> Calm)"
| "breaker_call config (Failure now) b =
     (None,
      case b of
        Calm \<Rightarrow> fails config 1 now
      | Failing n t \<Rightarrow> fails config (if elapsed now t > window_size config then 1 else Suc n) now
      | Tripped t \<Rightarrow> Tripped t
      | Probing n \<Rightarrow> Tripped now)"
| "breaker_call config Reset b = (None, Calm)"

text \<open>The calls of the code, with the answer of \<open>is_request_allowed\<close>.\<close>

fun cb_call :: "cb_event \<Rightarrow> CircuitBreaker \<Rightarrow> bool option \<times> CircuitBreaker" where
  "cb_call (Ask now) cb = map_prod Some id (CircuitBreaker_is_request_allowed now cb)"
| "cb_call e cb = (None, cb_apply e cb)"

section \<open>Refinement\<close>

definition breaker_view :: "CircuitBreaker \<Rightarrow> breaker" where
  "breaker_view cb =
     (let s = cb_inner cb in
      case cb_state s of
        Closed \<Rightarrow>
          if failure_count s = 0 then Calm
          else Failing (unat (failure_count s)) (the (last_failure_time s))
      | Open \<Rightarrow> Tripped (the (opened_at s))
      | HalfOpen \<Rightarrow> Probing (unat (success_count s)))"

definition implements_breaker :: "CircuitBreakerConfig \<Rightarrow> CircuitBreaker \<Rightarrow> breaker \<Rightarrow> bool" where
  "implements_breaker config cb b \<longleftrightarrow> cb_inv cb \<and> cb_config cb = config \<and> breaker_view cb = b"

lemma snd_cb_call: "snd (cb_call e cb) = cb_apply e cb"
  by (cases e) simp_all

text \<open>A counter that has not reached its threshold is incremented without wrapping around.\<close>

lemma counter_step:
  assumes "n = 0 \<or> n < (k :: u32)"
  shows "unat (n + 1) = Suc (unat n)" "n + 1 \<noteq> 0" "k \<le> n + 1 \<longleftrightarrow> unat k \<le> Suc (unat n)"
proof -
  show eq: "unat (n + 1) = Suc (unat n)" using assms unat_Suc_below [of n k] by auto
  then show "n + 1 \<noteq> 0" by (metis nat.distinct(1) unat_0)
  show "k \<le> n + 1 \<longleftrightarrow> unat k \<le> Suc (unat n)" by (simp add: word_le_nat_alt eq)
qed

lemma ask_refines:
  assumes "cb_inv cb"
  shows "fst (cb_call (Ask now) cb) = fst (breaker_call (cb_config cb) (Ask now) (breaker_view cb)) \<and>
    breaker_view (cb_apply (Ask now) cb) = snd (breaker_call (cb_config cb) (Ask now) (breaker_view cb))"
  using assms
  by (cases "cb_state (cb_inner cb)")
     (auto simp: cb_inv_def CircuitBreaker_is_request_allowed_def breaker_view_def Let_def)

lemma success_refines:
  assumes "cb_inv cb"
  shows "breaker_view (cb_apply Success cb) = snd (breaker_call (cb_config cb) Success (breaker_view cb))"
  using assms counter_step [of "success_count (cb_inner cb)" "success_threshold (cb_config cb)"]
  by (cases "cb_state (cb_inner cb)")
     (auto simp: cb_inv_def CircuitBreaker_record_success_def breaker_view_def Let_def)

lemma failure_refines:
  assumes "cb_inv cb"
  shows "breaker_view (cb_apply (Failure now) cb) = snd (breaker_call (cb_config cb) (Failure now) (breaker_view cb))"
proof (cases "cb_state (cb_inner cb)")
  case Closed
  then show ?thesis
    using assms counter_step [of "failure_count (cb_inner cb)" "failure_threshold (cb_config cb)"]
      counter_step [of 0 "failure_threshold (cb_config cb)"]
    by (auto simp: cb_inv_def CircuitBreaker_record_failure_def breaker_view_def Let_def fails_def
          split: option.splits)
qed (use assms in \<open>auto simp: cb_inv_def CircuitBreaker_record_failure_def breaker_view_def Let_def
      split: option.splits\<close>)

interpretation breaker_machine: simulation cb_call "breaker_call config" "\<lambda>_ _. True" "implements_breaker config"
proof
  fix cb b e
  assume "implements_breaker config cb b"
  then have inv: "cb_inv cb" and cfg: "cb_config cb = config" and view: "breaker_view cb = b"
    by (simp_all add: implements_breaker_def)
  have "fst (cb_call e cb) = fst (breaker_call config e b) \<and> breaker_view (cb_apply e cb) = snd (breaker_call config e b)"
  proof (cases e)
    case (Ask now)
    with ask_refines [OF inv, of now] show ?thesis by (simp only: cfg view)
  next
    case Success
    with success_refines [OF inv] show ?thesis by (simp add: cfg view del: cb_apply.simps)
  next
    case (Failure now)
    with failure_refines [OF inv, of now] show ?thesis by (simp add: cfg view del: cb_apply.simps)
  next
    case Reset
    then show ?thesis by (simp add: CircuitBreaker_reset_def breaker_view_def)
  qed
  then show "rel_prod (=) (implements_breaker config) (cb_call e cb) (breaker_call config e b)"
    using cb_apply_inv [OF inv] by (simp add: rel_prod_sel snd_cb_call implements_breaker_def cfg)
qed

section \<open>Property\<close>

text \<open>
  C14. The circuit breaker implements a machine that is calm, failing (with the length and the
  last time of the current burst of failures), tripped at a time, or probing (with the number of
  successes so far). For every sequence of requests for admission, successes, failures and
  resets the answers are those of the machine, whose counters are natural numbers; afterwards
  the breaker is closed, open or half-open as the machine is calm or failing, tripped or
  probing, and its counters have the machine's values.
\<close>

theorem breaker_refines_machine:
  "let (answers, cb) = run_calls cb_call es (CircuitBreaker_with_config config);
       (spec_answers, b) = run_calls (breaker_call config) es Calm
   in answers = spec_answers \<and>
      (case b of
         Calm \<Rightarrow> CircuitBreaker_state cb = Closed \<and> CircuitBreaker_failure_count cb = 0
       | Failing n t \<Rightarrow> CircuitBreaker_state cb = Closed \<and> unat (CircuitBreaker_failure_count cb) = n \<and>
           last_failure_time (cb_inner cb) = Some t
       | Tripped t \<Rightarrow> CircuitBreaker_state cb = Open \<and> opened_at (cb_inner cb) = Some t
       | Probing n \<Rightarrow> CircuitBreaker_state cb = HalfOpen \<and> unat (CircuitBreaker_success_count cb) = n)"
proof -
  have "implements_breaker config (CircuitBreaker_with_config config) Calm"
    using cb_inv_new [of config] by (simp add: implements_breaker_def breaker_view_def CircuitBreaker_with_config_def)
  from breaker_machine.run_simulates [OF this, of es] show ?thesis
    by (auto simp: rel_prod_sel split_beta Let_def implements_breaker_def breaker_view_def cb_inv_def
        CircuitBreaker_state_def CircuitBreaker_failure_count_def CircuitBreaker_success_count_def
        split: CircuitState.splits breaker.splits if_splits)
qed

text \<open>
  Two failures trip a breaker with threshold two; it refuses, admits a probe after the timeout,
  and the default two successes close it again.
\<close>

theorem breaker_refines_machine_witness:
  "(let config = CircuitBreakerConfig_with_failure_threshold 2 CircuitBreakerConfig_new;
        (answers, cb) = run_calls cb_call
          [Failure 1, Failure 2, Ask 3, Ask (from_secs 61), Success, Success, Ask (from_secs 62)]
          (CircuitBreaker_with_config config)
    in answers = [None, None, Some False, Some True, None, None, Some True] \<and> CircuitBreaker_state cb = Closed)"
proof -
  let ?config = "CircuitBreakerConfig_with_failure_threshold 2 CircuitBreakerConfig_new"
  let ?es = "[Failure 1, Failure 2, Ask 3, Ask (from_secs 61), Success, Success, Ask (from_secs 62)]"
  have "run_calls (breaker_call ?config) ?es Calm = ([None, None, Some False, Some True, None, None, Some True], Calm)"
    by (simp add: config_defs fails_def elapsed_def from_secs_def)
  then show ?thesis
    using breaker_refines_machine [of ?es ?config] by (simp add: Let_def split_beta)
qed

end
