(* ===== verification/Graceful_Shutdown.thy ===== *)
theory Graceful_Shutdown
  imports Prelude Tokio_Sync
begin

text \<open>
  Coordinated shutdown (\<open>src/stability/graceful_shutdown.rs\<close>): requests register with a
  counter through a guard, a shutdown flag turns new requests away, and a waiter sleeps on
  a \<open>Notify\<close> until the counter is zero or a timeout passes. Each method is split at its
  atomic operations, so that the step relation \<open>gs_step\<close> interleaves requests, guards,
  the shutdown and the waiters the way threads do.
\<close>

section \<open>Model\<close>

record 'n GracefulShutdown =
  shutdown_requested :: bool
  active_requests :: usize
  all_completed :: 'n
  gs_timeout :: duration

definition GracefulShutdown_new :: "('n, 'w) notify_ops \<Rightarrow> duration \<Rightarrow> 'n GracefulShutdown" where
  "GracefulShutdown_new N timeout =
     \<lparr>shutdown_requested = False, active_requests = 0, all_completed = nt_new N, gs_timeout = timeout\<rparr>"

definition GracefulShutdown_with_default_timeout :: "('n, 'w) notify_ops \<Rightarrow> 'n GracefulShutdown" where
  "GracefulShutdown_with_default_timeout N = GracefulShutdown_new N (from_secs 30)"

definition GracefulShutdown_default :: "('n, 'w) notify_ops \<Rightarrow> 'n GracefulShutdown" where
  "GracefulShutdown_default N = GracefulShutdown_with_default_timeout N"

definition GracefulShutdown_is_shutdown_requested :: "'n GracefulShutdown \<Rightarrow> bool" where
  "GracefulShutdown_is_shutdown_requested g = shutdown_requested g"

definition GracefulShutdown_active_request_count :: "'n GracefulShutdown \<Rightarrow> usize" where
  "GracefulShutdown_active_request_count g = active_requests g"

text \<open>\<open>enter\<close> reads the flag, then adds to the counter; the guard it returns is \<open>Some ()\<close>.\<close>

definition GracefulShutdown_enter_add :: "'n GracefulShutdown \<Rightarrow> 'n GracefulShutdown" where
  "GracefulShutdown_enter_add g = g\<lparr>active_requests := active_requests g + 1\<rparr>"

definition GracefulShutdown_enter :: "'n GracefulShutdown \<Rightarrow> unit option \<times> 'n GracefulShutdown" where
  "GracefulShutdown_enter g =
     (if GracefulShutdown_is_shutdown_requested g then (None, g)
      else (Some (), GracefulShutdown_enter_add g))"

definition GracefulShutdown_shutdown :: "'n GracefulShutdown \<Rightarrow> 'n GracefulShutdown" where
  "GracefulShutdown_shutdown g = g\<lparr>shutdown_requested := True\<rparr>"

text \<open>
  The drop of a guard subtracts, which yields the previous value, and notifies the waiters
  when that was one.
\<close>

definition ShutdownGuard_drop_sub :: "'n GracefulShutdown \<Rightarrow> usize \<times> 'n GracefulShutdown" where
  "ShutdownGuard_drop_sub g = (active_requests g, g\<lparr>active_requests := active_requests g - 1\<rparr>)"

definition ShutdownGuard_drop_notify :: "('n, 'w) notify_ops \<Rightarrow> 'n GracefulShutdown \<Rightarrow> 'n GracefulShutdown" where
  "ShutdownGuard_drop_notify N g = g\<lparr>all_completed := nt_notify_waiters N (all_completed g)\<rparr>"

definition ShutdownGuard_drop :: "('n, 'w) notify_ops \<Rightarrow> 'n GracefulShutdown \<Rightarrow> 'n GracefulShutdown" where
  "ShutdownGuard_drop N g =
     (let (prev, g) = ShutdownGuard_drop_sub g in
      if prev = 1 then ShutdownGuard_drop_notify N g else g)"

text \<open>
  Where \<open>wait_until_idle\<close> stands: about to load the counter, about to create the
  \<open>Notified\<close> future after it loaded a nonzero count, waiting on that future, or done.
\<close>

datatype 'w idle_wait = LoadCount | CreateNotified | Awaiting 'w | IdleReached

fun wait_until_idle_step ::
  "('n, 'w) notify_ops \<Rightarrow> 'n GracefulShutdown \<Rightarrow> 'w idle_wait \<Rightarrow> 'w idle_wait option" where
  "wait_until_idle_step N g LoadCount = Some (if active_requests g = 0 then IdleReached else CreateNotified)"
| "wait_until_idle_step N g CreateNotified = Some (Awaiting (nt_notified N (all_completed g)))"
| "wait_until_idle_step N g (Awaiting w) = (if nt_ready N w (all_completed g) then Some LoadCount else None)"
| "wait_until_idle_step N g IdleReached = None"

text \<open>
  \<open>wait_for_completion\<close> selects between that loop and a sleep that started at \<open>start\<close>. The
  sleep is looked at only when the loop is at an await point or at its beginning.
\<close>

datatype 'w completion = Waiting_since instant "'w idle_wait" | Finished bool

fun wait_for_completion_idle ::
  "('n, 'w) notify_ops \<Rightarrow> 'n GracefulShutdown \<Rightarrow> 'w completion \<Rightarrow> 'w completion option" where
  "wait_for_completion_idle N g (Waiting_since start pc) =
     map_option (\<lambda>pc'. if pc' = IdleReached then Finished True else Waiting_since start pc')
       (wait_until_idle_step N g pc)"
| "wait_for_completion_idle N g (Finished b) = None"

fun wait_for_completion_sleep :: "instant \<Rightarrow> 'n GracefulShutdown \<Rightarrow> 'w completion \<Rightarrow> 'w completion option" where
  "wait_for_completion_sleep now g (Waiting_since start pc) =
     (if pc \<noteq> CreateNotified \<and> start + gs_timeout g \<le> now then Some (Finished False) else None)"
| "wait_for_completion_sleep now g (Finished b) = None"

definition GracefulShutdown_wait_for_completion :: "instant \<Rightarrow> 'w completion" where
  "GracefulShutdown_wait_for_completion now = Waiting_since now LoadCount"

definition GracefulShutdown_shutdown_and_wait ::
  "instant \<Rightarrow> 'n GracefulShutdown \<Rightarrow> 'w completion \<times> 'n GracefulShutdown" where
  "GracefulShutdown_shutdown_and_wait now g =
     (let g = GracefulShutdown_shutdown g in (GracefulShutdown_wait_for_completion now, g))"

subsection \<open>Signals and the coordinator\<close>

text \<open>
  A \<open>ShutdownSignal\<close> is a reference to a shared flag: cloning it copies the reference. The
  flags are a list, and a signal is an index of it.
\<close>

type_synonym signal_flags = "bool list"
type_synonym ShutdownSignal = nat

definition ShutdownSignal_new :: "signal_flags \<Rightarrow> ShutdownSignal \<times> signal_flags" where
  "ShutdownSignal_new flags = (length flags, flags @ [False])"

definition ShutdownSignal_default :: "signal_flags \<Rightarrow> ShutdownSignal \<times> signal_flags" where
  "ShutdownSignal_default flags = ShutdownSignal_new flags"

definition ShutdownSignal_trigger :: "ShutdownSignal \<Rightarrow> signal_flags \<Rightarrow> signal_flags" where
  "ShutdownSignal_trigger s flags = flags[s := True]"

definition ShutdownSignal_is_triggered :: "signal_flags \<Rightarrow> ShutdownSignal \<Rightarrow> bool" where
  "ShutdownSignal_is_triggered flags s = flags ! s"

text \<open>
  \<open>wait\<close> polls the flag: \<open>triggered t\<close> is what a load at time \<open>t\<close> yields, and \<open>late t\<close> by
  how much a sleep that starts at \<open>t\<close> oversleeps. The result is the time of the return.
\<close>

partial_function (option) ShutdownSignal_wait ::
  "(instant \<Rightarrow> bool) \<Rightarrow> (instant \<Rightarrow> duration) \<Rightarrow> instant \<Rightarrow> instant option" where
  "ShutdownSignal_wait triggered late now =
     (if triggered now then Some now
      else ShutdownSignal_wait triggered late (now + from_millis 100 + late now))"

record 'n ShutdownCoordinator =
  signals :: "ShutdownSignal list"
  graceful :: "'n GracefulShutdown"

definition ShutdownCoordinator_new :: "('n, 'w) notify_ops \<Rightarrow> duration \<Rightarrow> 'n ShutdownCoordinator" where
  "ShutdownCoordinator_new N timeout = \<lparr>signals = [], graceful = GracefulShutdown_new N timeout\<rparr>"

definition ShutdownCoordinator_create_signal ::
  "signal_flags \<Rightarrow> 'n ShutdownCoordinator \<Rightarrow> ShutdownSignal \<times> signal_flags \<times> 'n ShutdownCoordinator" where
  "ShutdownCoordinator_create_signal flags co =
     (let (signal, flags) = ShutdownSignal_new flags in
      (signal, flags, co\<lparr>signals := signals co @ [signal]\<rparr>))"

definition ShutdownCoordinator_graceful :: "'n ShutdownCoordinator \<Rightarrow> 'n GracefulShutdown" where
  "ShutdownCoordinator_graceful co = graceful co"

definition ShutdownCoordinator_shutdown_all ::
  "instant \<Rightarrow> signal_flags \<Rightarrow> 'n ShutdownCoordinator \<Rightarrow> 'w completion \<times> signal_flags \<times> 'n ShutdownCoordinator" where
  "ShutdownCoordinator_shutdown_all now flags co =
     (let flags = fold ShutdownSignal_trigger (signals co) flags;
          (w, g) = GracefulShutdown_shutdown_and_wait now (graceful co)
      in (w, flags, co\<lparr>graceful := g\<rparr>))"

section \<open>Interleavings\<close>

text \<open>
  The shared object with the calls that are under way: entries that have read the flag and
  not yet counted, live guards, drops that have subtracted the last request and not yet
  notified, the waiters, and the clock.
\<close>

record ('n, 'w) gs_system =
  gs :: "'n GracefulShutdown"
  entering :: nat
  guards :: nat
  notifying :: nat
  waiters :: "'w completion list"
  gs_clock :: instant

definition gs_start :: "'n GracefulShutdown \<Rightarrow> ('n, 'w) gs_system" where
  "gs_start g = \<lparr>gs = g, entering = 0, guards = 0, notifying = 0, waiters = [], gs_clock = 0\<rparr>"

inductive gs_step :: "('n, 'w) notify_ops \<Rightarrow> ('n, 'w) gs_system \<Rightarrow> ('n, 'w) gs_system \<Rightarrow> bool" for N where
  enter_check: "\<not> GracefulShutdown_is_shutdown_requested (gs s) \<Longrightarrow>
     gs_step N s (s\<lparr>entering := Suc (entering s)\<rparr>)"
| enter_add: "entering s = Suc n \<Longrightarrow>
     gs_step N s (s\<lparr>gs := GracefulShutdown_enter_add (gs s), entering := n, guards := Suc (guards s)\<rparr>)"
| shutdown: "gs_step N s (s\<lparr>gs := GracefulShutdown_shutdown (gs s)\<rparr>)"
| drop_sub: "guards s = Suc n \<Longrightarrow> ShutdownGuard_drop_sub (gs s) = (prev, g) \<Longrightarrow>
     gs_step N s (s\<lparr>gs := g, guards := n, notifying := notifying s + (if prev = 1 then 1 else 0)\<rparr>)"
| drop_notify: "notifying s = Suc n \<Longrightarrow>
     gs_step N s (s\<lparr>gs := ShutdownGuard_drop_notify N (gs s), notifying := n\<rparr>)"
| wait: "gs_step N s (s\<lparr>waiters := waiters s @ [GracefulShutdown_wait_for_completion (gs_clock s)]\<rparr>)"
| wait_idle: "i < length (waiters s) \<Longrightarrow> wait_for_completion_idle N (gs s) (waiters s ! i) = Some w \<Longrightarrow>
     gs_step N s (s\<lparr>waiters := (waiters s)[i := w]\<rparr>)"
| wait_sleep: "i < length (waiters s) \<Longrightarrow> wait_for_completion_sleep (gs_clock s) (gs s) (waiters s ! i) = Some w \<Longrightarrow>
     gs_step N s (s\<lparr>waiters := (waiters s)[i := w]\<rparr>)"
| tick: "gs_step N s (s\<lparr>gs_clock := Suc (gs_clock s)\<rparr>)"

lemmas gs_defs =
  GracefulShutdown_new_def GracefulShutdown_enter_add_def GracefulShutdown_shutdown_def
  GracefulShutdown_is_shutdown_requested_def ShutdownGuard_drop_sub_def ShutdownGuard_drop_notify_def
  GracefulShutdown_wait_for_completion_def

text \<open>The counter is the number of live guards, at the width of the counter.\<close>

definition gs_counted :: "('n, 'w) gs_system \<Rightarrow> bool" where
  "gs_counted s \<longleftrightarrow> active_requests (gs s) = of_nat (guards s)"

lemma gs_step_counted: "gs_step N s t \<Longrightarrow> gs_counted s \<Longrightarrow> gs_counted t"
  by (erule gs_step.cases) (auto simp: gs_counted_def gs_defs)

interpretation gs_count: step_system "gs_step N" gs_counted
  by unfold_locales (rule gs_step_counted)

lemma gs_start_counted: "gs_counted (gs_start (GracefulShutdown_new N timeout))"
  by (simp add: gs_counted_def gs_start_def gs_defs)

text \<open>
  After the shutdown request no new request gets past the flag: entries under way and live
  guards only become fewer.
\<close>

definition gs_draining :: "nat \<Rightarrow> ('n, 'w) gs_system \<Rightarrow> bool" where
  "gs_draining n s \<longleftrightarrow> shutdown_requested (gs s) \<and> entering s + guards s \<le> n"

lemma gs_step_draining: "gs_step N s t \<Longrightarrow> gs_draining n s \<Longrightarrow> gs_draining n t"
  by (erule gs_step.cases) (auto simp: gs_draining_def gs_defs)

interpretation gs_drain: step_system "gs_step N" "gs_draining n"
  by unfold_locales (rule gs_step_draining)

text \<open>
  A waiter that holds a \<open>Notified\<close> future, created while a request was live, is woken:
  a request is still live, or its drop is about to notify, or the future is ready.
\<close>

definition gs_armed :: "('n, 'w) notify_ops \<Rightarrow> 'w \<Rightarrow> ('n, 'w) gs_system \<Rightarrow> bool" where
  "gs_armed N w s \<longleftrightarrow>
     gs_counted s \<and> notify.waits_on N w (all_completed (gs s)) \<and>
     (0 < guards s \<or> 0 < notifying s \<or> nt_ready N w (all_completed (gs s)))"

context notify
begin

lemma gs_step_armed:
  assumes "gs_step N s t" "gs_armed N w s"
  shows "gs_armed N w t"
  using assms(1)
proof (cases rule: gs_step.cases)
  case (drop_sub n prev g)
  then show ?thesis using assms(2) by (auto simp: gs_armed_def gs_counted_def gs_defs)
next
  case (drop_notify n)
  then show ?thesis using assms(2) waits_on_notify notify_wakes by (auto simp: gs_armed_def gs_counted_def gs_defs)
qed (use assms(2) in \<open>auto simp: gs_armed_def gs_counted_def gs_defs\<close>)

end

interpretation gs_arm: step_system "gs_step N" "\<lambda>s. notify N \<longrightarrow> gs_armed N w s"
  by unfold_locales (blast intro: notify.gs_step_armed)

text \<open>
  The opposite situation: everything is quiet and the first waiter waits on a future that
  was created after the last notification.
\<close>

definition gs_stuck :: "('n, 'w) notify_ops \<Rightarrow> ('n, 'w) gs_system \<Rightarrow> bool" where
  "gs_stuck N s \<longleftrightarrow>
     shutdown_requested (gs s) \<and> entering s = 0 \<and> guards s = 0 \<and> notifying s = 0 \<and> waiters s \<noteq> [] \<and>
     (waiters s ! 0 = Finished False \<or>
      (\<exists>start w. waiters s ! 0 = Waiting_since start (Awaiting w) \<and> \<not> nt_ready N w (all_completed (gs s))))"

lemma gs_step_stuck:
  assumes "gs_step N s t" "gs_stuck N s"
  shows "gs_stuck N t"
  using assms(1)
proof (cases rule: gs_step.cases)
  case (wait_idle i w)
  then have "i \<noteq> 0" using assms(2) by (intro notI) (auto simp: gs_stuck_def)
  with wait_idle assms(2) show ?thesis by (auto simp: gs_stuck_def)
next
  case (wait_sleep i w)
  then show ?thesis using assms(2) by (cases "i = 0") (auto simp: gs_stuck_def split: if_splits)
qed (use assms(2) in \<open>auto simp: gs_stuck_def gs_defs nth_append\<close>)

interpretation gs_stuck: step_system "gs_step N" "gs_stuck N"
  by unfold_locales (rule gs_step_stuck)

section \<open>Counting by guards\<close>

interpretation gs_guard: guard_counter GracefulShutdown_enter_add "ShutdownGuard_drop N" active_requests
  by unfold_locales (simp_all add: gs_defs ShutdownGuard_drop_def)

section \<open>Properties\<close>

text \<open>
  The count of active requests follows the guards: after any sequence of entries and
  guard drops on a new coordinator, in every order, \<open>active_request_count\<close> is the number
  of entries minus the number of drops, at the width of the counter.
\<close>

lemma shutdown_counts_requests:
  "GracefulShutdown_active_request_count
     (fold (\<lambda>is_enter. if is_enter then GracefulShutdown_enter_add else ShutdownGuard_drop N) es
       (GracefulShutdown_new N timeout)) =
   of_nat (count_list es True) - of_nat (count_list es False)"
  using gs_guard.count_run [of N es "GracefulShutdown_new N timeout"]
  by (simp add: GracefulShutdown_active_request_count_def gs_defs)

text \<open>
  C17. A graceful shutdown does not report completion early. In every interleaving,
  when \<open>wait_for_completion\<close> is about to return true there is no live guard (with fewer
  than 2^64 guards); if moreover the shutdown was requested and no \<open>enter\<close> is between its
  check and its count, no guard will ever exist again. It returns false only when the
  timeout has passed since it was called.
\<close>

theorem shutdown_waits_for_requests:
  assumes "(gs_step N)\<^sup>*\<^sup>* (gs_start (GracefulShutdown_new N timeout)) s"
    and "guards s < 2 ^ 64" "i < length (waiters s)" "waiters s ! i = Waiting_since start pc"
  shows "(wait_for_completion_idle N (gs s) (waiters s ! i) = Some (Finished True) \<longrightarrow>
      guards s = 0 \<and>
      (shutdown_requested (gs s) \<and> entering s = 0 \<longrightarrow>
         (\<forall>t. (gs_step N)\<^sup>*\<^sup>* s t \<longrightarrow> guards t = 0 \<and> fst (GracefulShutdown_enter (gs t)) = None))) \<and>
    (wait_for_completion_sleep (gs_clock s) (gs s) (waiters s ! i) = Some (Finished False) \<longrightarrow>
      start + gs_timeout (gs s) \<le> gs_clock s)"
proof -
  have "gs_counted s" by (rule gs_count.steps_inv [OF assms(1) gs_start_counted])
  then have idle: "active_requests (gs s) = 0 \<longrightarrow> guards s = 0"
    using usize_of_nat_eq_0 [OF assms(2)] by (simp add: gs_counted_def)
  have "wait_for_completion_idle N (gs s) (waiters s ! i) = Some (Finished True) \<longrightarrow> active_requests (gs s) = 0"
    using assms(4) by (cases pc) simp_all
  moreover have "wait_for_completion_sleep (gs_clock s) (gs s) (waiters s ! i) = Some (Finished False) \<longrightarrow>
      start + gs_timeout (gs s) \<le> gs_clock s"
    using assms(4) by simp
  moreover have "guards t = 0 \<and> fst (GracefulShutdown_enter (gs t)) = None"
    if "(gs_step N)\<^sup>*\<^sup>* s t" "guards s = 0" "shutdown_requested (gs s)" "entering s = 0" for t
    using gs_drain.steps_inv [OF that(1), of 0] that(2-4)
    by (simp add: gs_draining_def GracefulShutdown_enter_def gs_defs)
  ultimately show ?thesis using idle by blast
qed

definition first_waiter :: "(nat, nat) gs_system" where
  "first_waiter = (gs_start (GracefulShutdown_new epoch_notify (from_secs 30)))
     \<lparr>gs := (GracefulShutdown_new epoch_notify (from_secs 30))\<lparr>shutdown_requested := True\<rparr>,
      waiters := [Waiting_since 0 LoadCount]\<rparr>"

lemma first_waiter_reachable:
  "(gs_step epoch_notify)\<^sup>*\<^sup>* (gs_start (GracefulShutdown_new epoch_notify (from_secs 30))) first_waiter"
proof -
  let ?s = "gs_start (GracefulShutdown_new epoch_notify (from_secs 30)) :: (nat, nat) gs_system"
  have "gs_step epoch_notify ?s (?s\<lparr>gs := GracefulShutdown_shutdown (gs ?s)\<rparr>)" by (rule gs_step.shutdown)
  moreover have "gs_step epoch_notify (?s\<lparr>gs := GracefulShutdown_shutdown (gs ?s)\<rparr>) first_waiter"
    using gs_step.wait [of epoch_notify "?s\<lparr>gs := GracefulShutdown_shutdown (gs ?s)\<rparr>"]
    by (simp add: first_waiter_def gs_start_def gs_defs)
  ultimately show ?thesis by (rule rtranclp_2)
qed

theorem shutdown_waits_for_requests_witness:
  "wait_for_completion_idle epoch_notify (gs first_waiter) (waiters first_waiter ! 0) = Some (Finished True) \<and>
   guards first_waiter = 0 \<and> fst (GracefulShutdown_enter (gs first_waiter)) = None"
proof -
  have "guards first_waiter < 2 ^ 64" "0 < length (waiters first_waiter)"
    "waiters first_waiter ! 0 = Waiting_since 0 LoadCount" "shutdown_requested (gs first_waiter)" "entering first_waiter = 0"
    "wait_for_completion_idle epoch_notify (gs first_waiter) (waiters first_waiter ! 0) = Some (Finished True)"
    by (simp_all add: first_waiter_def gs_start_def gs_defs)
  with shutdown_waits_for_requests [OF first_waiter_reachable, of 0 0 LoadCount] show ?thesis by blast
qed

text \<open>
  C35. No wakeup is lost once the waiter listens. If \<open>wait_until_idle\<close> creates its
  \<open>Notified\<close> future while a request is live, then in every later state in which all
  guards are gone and every drop has finished, the future is ready, so the waiter goes on
  to see the count of zero.
\<close>

theorem shutdown_wakes_listener:
  assumes "notify N" "(gs_step N)\<^sup>*\<^sup>* (gs_start (GracefulShutdown_new N timeout)) s"
    and "0 < guards s" "w = nt_notified N (all_completed (gs s))"
    and "(gs_step N)\<^sup>*\<^sup>* s t" "guards t = 0" "notifying t = 0"
  shows "wait_until_idle_step N (gs t) (Awaiting w) = Some LoadCount \<and>
    wait_until_idle_step N (gs t) LoadCount = Some IdleReached"
proof -
  have "gs_counted s" by (rule gs_count.steps_inv [OF assms(2) gs_start_counted])
  then have "gs_armed N w s"
    using assms(3,4) notify.waits_on_new [OF assms(1)] by (simp add: gs_armed_def)
  then have "gs_armed N w t" using gs_arm.steps_inv [OF assms(5)] assms(1) by blast
  then show ?thesis using assms(6,7) by (auto simp: gs_armed_def gs_counted_def)
qed

text \<open>The states of one request and of its drop, with the waiters \<open>ws\<close>.\<close>

abbreviation gs_state ::
  "('n, 'w) notify_ops \<Rightarrow> bool \<Rightarrow> nat \<Rightarrow> usize \<Rightarrow> nat \<Rightarrow> nat \<Rightarrow> nat \<Rightarrow> 'w completion list \<Rightarrow> ('n, 'w) gs_system" where
  "gs_state N requested ent active live pending k ws \<equiv>
     \<lparr>gs = \<lparr>shutdown_requested = requested, active_requests = active,
            all_completed = (nt_notify_waiters N ^^ k) (nt_new N), gs_timeout = from_secs 30\<rparr>,
      entering = ent, guards = live, notifying = pending, waiters = ws, gs_clock = 0\<rparr>"

lemma gs_start_state: "gs_start (GracefulShutdown_new N (from_secs 30)) = gs_state N False 0 0 0 0 0 []"
  by (simp add: gs_start_def gs_defs)

lemma request_reachable:
  "(gs_step N)\<^sup>*\<^sup>* (gs_state N False 0 0 0 0 0 ws) (gs_state N False 0 1 1 0 0 ws)"
proof -
  have "gs_step N (gs_state N False 0 0 0 0 0 ws) (gs_state N False 1 0 0 0 0 ws)"
    using gs_step.enter_check [of "gs_state N False 0 0 0 0 0 ws" N] by (simp add: gs_defs)
  moreover have "gs_step N (gs_state N False 1 0 0 0 0 ws) (gs_state N False 0 1 1 0 0 ws)"
    using gs_step.enter_add [of "gs_state N False 1 0 0 0 0 ws" 0 N] by (simp add: gs_defs)
  ultimately show ?thesis by (rule rtranclp_2)
qed

lemma drop_reachable:
  "(gs_step N)\<^sup>*\<^sup>* (gs_state N requested 0 1 1 0 0 ws) (gs_state N requested 0 0 0 0 1 ws)"
proof -
  have "gs_step N (gs_state N requested 0 1 1 0 0 ws) (gs_state N requested 0 0 0 1 0 ws)"
    using gs_step.drop_sub [of "gs_state N requested 0 1 1 0 0 ws" 0 1 _ N] by (simp add: gs_defs)
  moreover have "gs_step N (gs_state N requested 0 0 0 1 0 ws) (gs_state N requested 0 0 0 0 1 ws)"
    using gs_step.drop_notify [of "gs_state N requested 0 0 0 1 0 ws" 0 N] by (simp add: gs_defs)
  ultimately show ?thesis by (rule rtranclp_2)
qed

theorem shutdown_wakes_listener_witness:
  "\<exists>s t w. (gs_step epoch_notify)\<^sup>*\<^sup>* s t \<and> 0 < guards s \<and> guards t = 0 \<and>
     wait_until_idle_step epoch_notify (gs t) (Awaiting w) = Some LoadCount \<and>
     wait_until_idle_step epoch_notify (gs t) LoadCount = Some IdleReached"
proof -
  define s where "s = gs_state epoch_notify False 0 1 1 0 0 []"
  define t where "t = gs_state epoch_notify False 0 0 0 0 1 []"
  have reach: "(gs_step epoch_notify)\<^sup>*\<^sup>* (gs_start (GracefulShutdown_new epoch_notify (from_secs 30))) s"
    unfolding gs_start_state s_def by (rule request_reachable)
  have steps: "(gs_step epoch_notify)\<^sup>*\<^sup>* s t" unfolding s_def t_def by (rule drop_reachable)
  have "0 < guards s" "guards t = 0" "notifying t = 0" by (simp_all add: s_def t_def)
  with shutdown_wakes_listener [OF epoch.notify_axioms reach this(1) refl steps this(2,3)] steps
  show ?thesis by blast
qed

text \<open>
  A wakeup can be lost before the waiter listens. There is a reachable state with no
  request, no entry and no drop under way in which a waiter that began before the last
  request ended waits for a notification that has already been sent: from there, whatever
  happens, \<open>wait_for_completion\<close> does not return true, it can only run into its timeout.
  (The waiter loads a count of one; the last guard is dropped and notifies; only then does
  the waiter create its \<open>Notified\<close> future.)
\<close>

theorem shutdown_lost_wakeup:
  assumes "notify N"
  shows "\<exists>s. (gs_step N)\<^sup>*\<^sup>* (gs_start (GracefulShutdown_new N (from_secs 30))) s \<and>
    guards s = 0 \<and> entering s = 0 \<and> notifying s = 0 \<and> active_requests (gs s) = 0 \<and>
    (\<exists>w. waiters s = [Waiting_since 0 (Awaiting w)]) \<and>
    (\<forall>t. (gs_step N)\<^sup>*\<^sup>* s t \<longrightarrow> waiters t ! 0 \<noteq> Finished True)"
proof -
  let ?w = "nt_notified N (nt_notify_waiters N (nt_new N))"
  let ?ws = "\<lambda>pc. [Waiting_since 0 pc]"
  let ?s = "gs_state N True 0 0 0 0 1 (?ws (Awaiting ?w))"
  have 1: "gs_step N (gs_state N False 0 0 0 0 0 []) (gs_state N False 0 0 0 0 0 (?ws LoadCount))"
    using gs_step.wait [of N "gs_state N False 0 0 0 0 0 []"] by (simp add: gs_defs)
  have 2: "gs_step N (gs_state N False 0 1 1 0 0 (?ws LoadCount)) (gs_state N False 0 1 1 0 0 (?ws CreateNotified))"
    using gs_step.wait_idle [of 0 "gs_state N False 0 1 1 0 0 (?ws LoadCount)" N] by simp
  have 3: "gs_step N (gs_state N False 0 1 1 0 0 (?ws CreateNotified)) (gs_state N True 0 1 1 0 0 (?ws CreateNotified))"
    using gs_step.shutdown [of N "gs_state N False 0 1 1 0 0 (?ws CreateNotified)"] by (simp add: gs_defs)
  have 4: "gs_step N (gs_state N True 0 0 0 0 1 (?ws CreateNotified)) ?s"
    using gs_step.wait_idle [of 0 "gs_state N True 0 0 0 0 1 (?ws CreateNotified)" N] by simp
  have "(gs_step N)\<^sup>*\<^sup>* (gs_state N False 0 1 1 0 0 (?ws LoadCount)) (gs_state N True 0 1 1 0 0 (?ws CreateNotified))"
    using 2 3 by (rule rtranclp_2)
  from rtranclp_trans [OF this drop_reachable] 4
  have "(gs_step N)\<^sup>*\<^sup>* (gs_state N False 0 1 1 0 0 (?ws LoadCount)) ?s" by (rule rtranclp.rtrancl_into_rtrancl)
  from converse_rtranclp_into_rtranclp [of "gs_step N", OF 1 rtranclp_trans [OF request_reachable this]]
  have reach: "(gs_step N)\<^sup>*\<^sup>* (gs_start (GracefulShutdown_new N (from_secs 30))) ?s"
    unfolding gs_start_state .
  have "gs_stuck N ?s" using notify.new_not_ready [OF assms] by (simp add: gs_stuck_def)
  then have "waiters t ! 0 \<noteq> Finished True" if "(gs_step N)\<^sup>*\<^sup>* ?s t" for t
    using gs_stuck.steps_inv [OF that] by (auto simp: gs_stuck_def)
  with reach show ?thesis by (intro exI [of _ ?s]) auto
qed

theorem shutdown_lost_wakeup_witness:
  "\<exists>s. (gs_step epoch_notify)\<^sup>*\<^sup>* (gs_start (GracefulShutdown_new epoch_notify (from_secs 30))) s \<and>
    guards s = 0 \<and> entering s = 0 \<and> notifying s = 0 \<and> active_requests (gs s) = 0 \<and>
    (\<exists>w. waiters s = [Waiting_since 0 (Awaiting w)] \<and>
       waiters (s\<lparr>gs_clock := Suc (gs_clock s)\<rparr>) ! 0 \<noteq> Finished True)"
proof -
  obtain s where s: "(gs_step epoch_notify)\<^sup>*\<^sup>* (gs_start (GracefulShutdown_new epoch_notify (from_secs 30))) s"
    "guards s = 0" "entering s = 0" "notifying s = 0" "active_requests (gs s) = 0"
    "\<exists>w. waiters s = [Waiting_since 0 (Awaiting w)]"
    "\<And>t. (gs_step epoch_notify)\<^sup>*\<^sup>* s t \<Longrightarrow> waiters t ! 0 \<noteq> Finished True"
    using shutdown_lost_wakeup [OF epoch.notify_axioms] by blast
  have "(gs_step epoch_notify)\<^sup>*\<^sup>* s (s\<lparr>gs_clock := Suc (gs_clock s)\<rparr>)"
    by (rule r_into_rtranclp) (rule gs_step.tick)
  from s(7) [OF this] s show ?thesis by blast
qed

text \<open>
  A request can slip in behind the shutdown: there is an interleaving in which the
  shutdown has been requested, \<open>shutdown_and_wait\<close> has returned true, and a request is
  active, since \<open>enter\<close> reads the flag before it counts itself.
\<close>

theorem shutdown_late_request:
  "\<exists>s. (gs_step N)\<^sup>*\<^sup>* (gs_start (GracefulShutdown_new N (from_secs 30))) s \<and>
     shutdown_requested (gs s) \<and> waiters s = [Finished True] \<and> guards s = 1"
proof -
  let ?s = "gs_state N True 0 1 1 0 0 [Finished True]"
  have 1: "gs_step N (gs_state N False 0 0 0 0 0 []) (gs_state N False 1 0 0 0 0 [])"
    using gs_step.enter_check [of "gs_state N False 0 0 0 0 0 []" N] by (simp add: gs_defs)
  have 2: "gs_step N (gs_state N False 1 0 0 0 0 []) (gs_state N True 1 0 0 0 0 [])"
    using gs_step.shutdown [of N "gs_state N False 1 0 0 0 0 []"] by (simp add: gs_defs)
  have 3: "gs_step N (gs_state N True 1 0 0 0 0 []) (gs_state N True 1 0 0 0 0 [Waiting_since 0 LoadCount])"
    using gs_step.wait [of N "gs_state N True 1 0 0 0 0 []"] by (simp add: gs_defs)
  have 4: "gs_step N (gs_state N True 1 0 0 0 0 [Waiting_since 0 LoadCount]) (gs_state N True 1 0 0 0 0 [Finished True])"
    using gs_step.wait_idle [of 0 "gs_state N True 1 0 0 0 0 [Waiting_since 0 LoadCount]" N] by simp
  have 5: "gs_step N (gs_state N True 1 0 0 0 0 [Finished True]) ?s"
    using gs_step.enter_add [of "gs_state N True 1 0 0 0 0 [Finished True]" 0 N] by (simp add: gs_defs)
  from rtranclp_trans [OF rtranclp_2 [of "gs_step N", OF 1 2] rtranclp_2 [of "gs_step N", OF 3 4]] 5
  have "(gs_step N)\<^sup>*\<^sup>* (gs_start (GracefulShutdown_new N (from_secs 30))) ?s"
    unfolding gs_start_state by (rule rtranclp.rtrancl_into_rtrancl)
  then show ?thesis by (intro exI [of _ ?s]) simp
qed

text \<open>
  \<open>shutdown_all\<close> triggers exactly the signals that the coordinator created, leaves
  every other flag as it was, and closes the coordinator for new requests.
\<close>

lemma shutdown_all_triggers:
  "let (w, flags', co') = ShutdownCoordinator_shutdown_all now flags co in
   flags' = map (\<lambda>s. ShutdownSignal_is_triggered flags s \<or> s \<in> set (signals co)) [0..<length flags] \<and>
   w = Waiting_since now LoadCount \<and>
   fst (GracefulShutdown_enter (graceful co')) = None \<and>
   active_requests (graceful co') = active_requests (graceful co)"
proof -
  have "fold ShutdownSignal_trigger ss fs = map (\<lambda>s. fs ! s \<or> s \<in> set ss) [0..<length fs]" for ss fs
  proof (induction ss arbitrary: fs)
    case Nil
    show ?case by (simp add: map_nth)
  next
    case (Cons x ss)
    have "fold ShutdownSignal_trigger (x # ss) fs =
        map (\<lambda>s. fs[x := True] ! s \<or> s \<in> set ss) [0..<length fs]"
      using Cons [of "fs[x := True]"] by (simp add: ShutdownSignal_trigger_def [of x])
    then show ?case by (cases "x < length fs") (auto simp: nth_list_update list_update_beyond)
  qed
  then show ?thesis
    by (simp add: ShutdownCoordinator_shutdown_all_def GracefulShutdown_shutdown_and_wait_def Let_def
          ShutdownSignal_is_triggered_def GracefulShutdown_enter_def gs_defs)
qed

text \<open>
  \<open>ShutdownSignal::wait\<close> returns. When the signal is triggered at time \<open>T\<close> and a
  sleep oversleeps by at most \<open>J\<close>, the wait returns at once if it begins at \<open>T\<close> or later,
  and otherwise not before \<open>T\<close> and less than 100 ms plus \<open>J\<close> after it.
\<close>

theorem signal_wait_returns:
  assumes "\<And>t. triggered t \<longleftrightarrow> T \<le> t" "\<And>t. late t \<le> J"
  shows "\<exists>t. ShutdownSignal_wait triggered late now = Some t \<and>
    (if T \<le> now then t = now else T \<le> t \<and> t < T + from_millis 100 + J)"
proof (induction "T - now" arbitrary: now rule: less_induct)
  case less
  show ?case
  proof (cases "T \<le> now")
    case True
    then show ?thesis by (subst ShutdownSignal_wait.simps) (simp add: assms(1))
  next
    case False
    let ?next = "now + from_millis 100 + late now"
    have "T - ?next < T - now" using False by (simp add: from_millis_def)
    from less [OF this] obtain t where "ShutdownSignal_wait triggered late ?next = Some t"
      and t: "if T \<le> ?next then t = ?next else T \<le> t \<and> t < T + from_millis 100 + J" by blast
    then have "ShutdownSignal_wait triggered late now = Some t"
      using False by (subst ShutdownSignal_wait.simps) (simp add: assms(1))
    moreover have "T \<le> t \<and> t < T + from_millis 100 + J"
      using t False assms(2) [of now] by (auto split: if_splits)
    ultimately show ?thesis using False by auto
  qed
qed

theorem signal_wait_returns_witness:
  "\<exists>t. ShutdownSignal_wait (\<lambda>t. from_millis 250 \<le> t) (\<lambda>_. 0) 0 = Some t \<and>
     from_millis 250 \<le> t \<and> t < from_millis 250 + from_millis 100 + 0"
  using signal_wait_returns [of "\<lambda>t. from_millis 250 \<le> t" "from_millis 250" "\<lambda>_. 0" 0 0]
  by (simp add: from_millis_def)

end
