(* ===== verification/Rate_Limiter.thy ===== *)
theory Rate_Limiter
  imports Float64
begin

text \<open>
  The token-bucket rate limiter and its keyed variant (\<open>src/stability/rate_limiter.rs\<close>). The
  bucket is kept in \<open>f64\<close>, so the model computes with rounded binary64 numbers. Each method
  holds the mutex of the bucket while it runs and reads the clock inside; the reading is an
  argument. The limiters of a keyed limiter are shared objects (\<open>Arc\<close>), kept in a store.
\<close>

section \<open>Model\<close>

datatype RateLimiterError = Timeout

definition RateLimiterError_to_string :: "RateLimiterError \<Rightarrow> string" where
  "RateLimiterError_to_string e = (case e of Timeout \<Rightarrow> ''Timeout waiting for tokens'')"

record RateLimiterConfig =
  rl_capacity :: u64
  refill_amount :: u64
  refill_interval :: duration

definition RateLimiterConfig_default :: RateLimiterConfig where
  "RateLimiterConfig_default =
     \<lparr>rl_capacity = 100, refill_amount = 10, refill_interval = from_secs 1\<rparr>"

definition RateLimiterConfig_new :: RateLimiterConfig where
  "RateLimiterConfig_new = RateLimiterConfig_default"

definition RateLimiterConfig_with_capacity :: "u64 \<Rightarrow> RateLimiterConfig \<Rightarrow> RateLimiterConfig" where
  "RateLimiterConfig_with_capacity capacity c = c\<lparr>rl_capacity := capacity\<rparr>"

definition RateLimiterConfig_with_refill_amount :: "u64 \<Rightarrow> RateLimiterConfig \<Rightarrow> RateLimiterConfig" where
  "RateLimiterConfig_with_refill_amount amount c = c\<lparr>refill_amount := amount\<rparr>"

definition RateLimiterConfig_with_refill_interval :: "duration \<Rightarrow> RateLimiterConfig \<Rightarrow> RateLimiterConfig" where
  "RateLimiterConfig_with_refill_interval interval c = c\<lparr>refill_interval := interval\<rparr>"

definition RateLimiterConfig_per_second :: "u64 \<Rightarrow> RateLimiterConfig" where
  "RateLimiterConfig_per_second rate =
     \<lparr>rl_capacity = rate, refill_amount = rate, refill_interval = from_secs 1\<rparr>"

definition RateLimiterConfig_per_minute :: "u64 \<Rightarrow> RateLimiterConfig" where
  "RateLimiterConfig_per_minute rate =
     \<lparr>rl_capacity = rate, refill_amount = rate, refill_interval = from_secs 60\<rparr>"

lemmas RateLimiterConfig_defs [config_defs] =
  RateLimiterConfig_default_def RateLimiterConfig_new_def RateLimiterConfig_with_capacity_def
  RateLimiterConfig_with_refill_amount_def RateLimiterConfig_with_refill_interval_def
  RateLimiterConfig_per_second_def RateLimiterConfig_per_minute_def

record TokenBucket =
  tokens :: f64
  last_refill :: instant

record RateLimiter =
  rl_config :: RateLimiterConfig
  rl_bucket :: TokenBucket

definition RateLimiter_with_config :: "instant \<Rightarrow> RateLimiterConfig \<Rightarrow> RateLimiter" where
  "RateLimiter_with_config now config =
     \<lparr>rl_config = config,
      rl_bucket = \<lparr>tokens = f64_of_nat (unat (rl_capacity config)), last_refill = now\<rparr>\<rparr>"

definition RateLimiter_new :: "instant \<Rightarrow> RateLimiter" where
  "RateLimiter_new now = RateLimiter_with_config now RateLimiterConfig_default"

definition RateLimiter_default :: "instant \<Rightarrow> RateLimiter" where
  "RateLimiter_default now = RateLimiter_new now"

definition RateLimiter_per_second :: "instant \<Rightarrow> u64 \<Rightarrow> RateLimiter" where
  "RateLimiter_per_second now rate = RateLimiter_with_config now (RateLimiterConfig_per_second rate)"

definition RateLimiter_per_minute :: "instant \<Rightarrow> u64 \<Rightarrow> RateLimiter" where
  "RateLimiter_per_minute now rate = RateLimiter_with_config now (RateLimiterConfig_per_minute rate)"

definition RateLimiter_refill_tokens :: "instant \<Rightarrow> RateLimiterConfig \<Rightarrow> TokenBucket \<Rightarrow> TokenBucket" where
  "RateLimiter_refill_tokens now config bucket =
     (let e = elapsed now (last_refill bucket);
          intervals = f64_div (as_secs_f64 e) (as_secs_f64 (refill_interval config));
          tokens_to_add = f64_mul intervals (f64_of_nat (unat (refill_amount config)))
      in bucket\<lparr>tokens := f64_min (f64_add (tokens bucket) tokens_to_add) (f64_of_nat (unat (rl_capacity config))),
           last_refill := now\<rparr>)"

definition RateLimiter_try_acquire :: "instant \<Rightarrow> u64 \<Rightarrow> RateLimiter \<Rightarrow> bool \<times> RateLimiter" where
  "RateLimiter_try_acquire now n rl =
     (let bucket = RateLimiter_refill_tokens now (rl_config rl) (rl_bucket rl) in
      if f64_le (f64_of_nat (unat n)) (tokens bucket)
      then (True, rl\<lparr>rl_bucket := bucket\<lparr>tokens := f64_sub (tokens bucket) (f64_of_nat (unat n))\<rparr>\<rparr>)
      else (False, rl\<lparr>rl_bucket := bucket\<rparr>))"

definition RateLimiter_try_acquire_one :: "instant \<Rightarrow> RateLimiter \<Rightarrow> bool \<times> RateLimiter" where
  "RateLimiter_try_acquire_one now rl = RateLimiter_try_acquire now 1 rl"

definition RateLimiter_available_tokens :: "instant \<Rightarrow> RateLimiter \<Rightarrow> u64 \<times> RateLimiter" where
  "RateLimiter_available_tokens now rl =
     (let bucket = RateLimiter_refill_tokens now (rl_config rl) (rl_bucket rl)
      in (f64_to_u64 (f64_floor (tokens bucket)), rl\<lparr>rl_bucket := bucket\<rparr>))"

definition RateLimiter_reset :: "instant \<Rightarrow> RateLimiter \<Rightarrow> RateLimiter" where
  "RateLimiter_reset now rl =
     rl\<lparr>rl_bucket := \<lparr>tokens = f64_of_nat (unat (rl_capacity (rl_config rl))), last_refill = now\<rparr>\<rparr>"

subsection \<open>Waiting for tokens\<close>

text \<open>
  One pass of the loop in \<open>acquire\<close> reads the clock three times: in \<open>try_acquire\<close>, for the
  check against the deadline and for the time left. Between two passes other tasks change the
  state the limiter lives in: \<open>env i\<close> is what they did to it before pass \<open>i\<close>. \<open>sleep_of\<close> is the sleep at the end
  of a pass, \<open>None\<close> the panic of the division of a \<open>Duration\<close> by zero. The fuel bounds the
  number of passes: \<open>None\<close> is a loop that is still running.
\<close>

record pass_clock =
  at_try :: instant
  at_check :: instant
  at_sleep :: instant

definition wait_time :: "RateLimiterConfig \<Rightarrow> duration option" where
  "wait_time config =
     (let divisor = (ucast (refill_amount config) :: u32)
      in if divisor = 0 then None else Some (refill_interval config div unat divisor))"

definition sleep_of :: "RateLimiterConfig \<Rightarrow> instant \<Rightarrow> instant \<Rightarrow> duration option" where
  "sleep_of config deadline now =
     (case wait_time config of None \<Rightarrow> None | Some w \<Rightarrow> Some (min w (elapsed deadline now)))"

fun acquire_loop ::
  "(instant \<Rightarrow> 's \<Rightarrow> bool \<times> 's) \<Rightarrow> RateLimiterConfig \<Rightarrow> (nat \<Rightarrow> pass_clock) \<Rightarrow> (nat \<Rightarrow> 's \<Rightarrow> 's) \<Rightarrow>
     instant \<Rightarrow> nat \<Rightarrow> nat \<Rightarrow> 's \<Rightarrow> ((RateLimiterError + bool) run \<times> duration list \<times> 's) option" where
  "acquire_loop try_acquire config clock env deadline i 0 s = None"
| "acquire_loop try_acquire config clock env deadline i (Suc fuel) s =
     (let (granted, s) = try_acquire (at_try (clock i)) (env i s) in
      if granted then Some (Returned (Inr True), [], s)
      else if at_check (clock i) \<ge> deadline then Some (Returned (Inl Timeout), [], s)
      else
        case sleep_of config deadline (at_sleep (clock i)) of
          None \<Rightarrow> Some (Panicked ''divide by zero error when dividing duration by scalar'', [], s)
        | Some d \<Rightarrow>
            (case acquire_loop try_acquire config clock env deadline (Suc i) fuel s of
               None \<Rightarrow> None
             | Some (r, sleeps, s) \<Rightarrow> Some (r, if d = 0 then sleeps else d # sleeps, s)))"

definition RateLimiter_acquire ::
  "instant \<Rightarrow> (nat \<Rightarrow> pass_clock) \<Rightarrow> (nat \<Rightarrow> RateLimiter \<Rightarrow> RateLimiter) \<Rightarrow> nat \<Rightarrow> u64 \<Rightarrow> duration \<Rightarrow>
     RateLimiter \<Rightarrow> ((RateLimiterError + bool) run \<times> duration list \<times> RateLimiter) option" where
  "RateLimiter_acquire now clock env fuel n timeout rl =
     acquire_loop (\<lambda>t. RateLimiter_try_acquire t n) (rl_config rl) clock env (now + timeout) 0 fuel rl"

definition RateLimiter_acquire_one ::
  "instant \<Rightarrow> (nat \<Rightarrow> pass_clock) \<Rightarrow> (nat \<Rightarrow> RateLimiter \<Rightarrow> RateLimiter) \<Rightarrow> nat \<Rightarrow> duration \<Rightarrow>
     RateLimiter \<Rightarrow> ((RateLimiterError + bool) run \<times> duration list \<times> RateLimiter) option" where
  "RateLimiter_acquire_one now clock env fuel timeout rl =
     RateLimiter_acquire now clock env fuel 1 timeout rl"

subsection \<open>A limiter per key\<close>

text \<open>
  The map of a keyed limiter holds references. A task that waits in \<open>acquire\<close> keeps its
  reference while the key may be removed and created again.
\<close>

record 'k KeyedRateLimiter =
  krl_config :: RateLimiterConfig
  krl_limiters :: "('k \<times> nat) list"
  krl_store :: "RateLimiter list"

definition KeyedRateLimiter_new :: "RateLimiterConfig \<Rightarrow> 'k KeyedRateLimiter" where
  "KeyedRateLimiter_new config = \<lparr>krl_config = config, krl_limiters = [], krl_store = []\<rparr>"

text \<open>\<open>entry(key).or_insert_with(..)\<close> under the write lock; the clock is read when a limiter is created.\<close>

definition KeyedRateLimiter_entry :: "instant \<Rightarrow> 'k \<Rightarrow> 'k KeyedRateLimiter \<Rightarrow> nat \<times> 'k KeyedRateLimiter" where
  "KeyedRateLimiter_entry now key k =
     (case map_of (krl_limiters k) key of
        Some a \<Rightarrow> (a, k)
      | None \<Rightarrow>
          let a = length (krl_store k)
          in (a, k\<lparr>krl_limiters := (key, a) # krl_limiters k,
                   krl_store := krl_store k @ [RateLimiter_with_config now (krl_config k)]\<rparr>))"

definition KeyedRateLimiter_try_at :: "instant \<Rightarrow> nat \<Rightarrow> u64 \<Rightarrow> 'k KeyedRateLimiter \<Rightarrow> bool \<times> 'k KeyedRateLimiter" where
  "KeyedRateLimiter_try_at now a n k =
     (let (granted, rl) = RateLimiter_try_acquire now n (krl_store k ! a)
      in (granted, k\<lparr>krl_store := (krl_store k)[a := rl]\<rparr>))"

text \<open>
  \<open>try_acquire\<close> takes the read lock, and the write lock when the key is unknown. What other
  tasks do between the two locks is \<open>env\<close>.
\<close>

definition KeyedRateLimiter_try_acquire ::
  "('k KeyedRateLimiter \<Rightarrow> 'k KeyedRateLimiter) \<Rightarrow> instant \<Rightarrow> instant \<Rightarrow> 'k \<Rightarrow> u64 \<Rightarrow> 'k KeyedRateLimiter \<Rightarrow>
     bool \<times> 'k KeyedRateLimiter" where
  "KeyedRateLimiter_try_acquire env created now key n k =
     (case map_of (krl_limiters k) key of
        Some a \<Rightarrow> KeyedRateLimiter_try_at now a n k
      | None \<Rightarrow>
          let (a, k) = KeyedRateLimiter_entry created key (env k)
          in KeyedRateLimiter_try_at now a n k)"

definition KeyedRateLimiter_try_acquire_one ::
  "('k KeyedRateLimiter \<Rightarrow> 'k KeyedRateLimiter) \<Rightarrow> instant \<Rightarrow> instant \<Rightarrow> 'k \<Rightarrow> 'k KeyedRateLimiter \<Rightarrow>
     bool \<times> 'k KeyedRateLimiter" where
  "KeyedRateLimiter_try_acquire_one env created now key k =
     KeyedRateLimiter_try_acquire env created now key 1 k"

definition KeyedRateLimiter_acquire ::
  "instant \<Rightarrow> instant \<Rightarrow> (nat \<Rightarrow> pass_clock) \<Rightarrow> (nat \<Rightarrow> 'k KeyedRateLimiter \<Rightarrow> 'k KeyedRateLimiter) \<Rightarrow> nat \<Rightarrow>
     'k \<Rightarrow> u64 \<Rightarrow> duration \<Rightarrow> 'k KeyedRateLimiter \<Rightarrow>
     ((RateLimiterError + bool) run \<times> duration list \<times> 'k KeyedRateLimiter) option" where
  "KeyedRateLimiter_acquire created now clock env fuel key n timeout k =
     (let (a, k) = KeyedRateLimiter_entry created key k
      in acquire_loop (\<lambda>t. KeyedRateLimiter_try_at t a n) (rl_config (krl_store k ! a)) clock env
           (now + timeout) 0 fuel k)"

definition KeyedRateLimiter_acquire_one ::
  "instant \<Rightarrow> instant \<Rightarrow> (nat \<Rightarrow> pass_clock) \<Rightarrow> (nat \<Rightarrow> 'k KeyedRateLimiter \<Rightarrow> 'k KeyedRateLimiter) \<Rightarrow> nat \<Rightarrow>
     'k \<Rightarrow> duration \<Rightarrow> 'k KeyedRateLimiter \<Rightarrow>
     ((RateLimiterError + bool) run \<times> duration list \<times> 'k KeyedRateLimiter) option" where
  "KeyedRateLimiter_acquire_one created now clock env fuel key timeout k =
     KeyedRateLimiter_acquire created now clock env fuel key 1 timeout k"

definition KeyedRateLimiter_key_count :: "'k KeyedRateLimiter \<Rightarrow> nat" where
  "KeyedRateLimiter_key_count k = length (krl_limiters k)"

definition KeyedRateLimiter_remove_key :: "'k \<Rightarrow> 'k KeyedRateLimiter \<Rightarrow> 'k KeyedRateLimiter" where
  "KeyedRateLimiter_remove_key key k =
     k\<lparr>krl_limiters := filter (\<lambda>(key', a). key' \<noteq> key) (krl_limiters k)\<rparr>"

definition KeyedRateLimiter_clear :: "'k KeyedRateLimiter \<Rightarrow> 'k KeyedRateLimiter" where
  "KeyedRateLimiter_clear k = k\<lparr>krl_limiters := []\<rparr>"

section \<open>The bucket never holds more than its capacity\<close>

text \<open>Non-negative binary64 values, closed under the operations of a refill.\<close>

fun nonneg_f64 :: "f64 \<Rightarrow> bool" where
  "nonneg_f64 (Fin x) \<longleftrightarrow> 0 \<le> x \<and> magnitude x = x"
| "nonneg_f64 NegInf \<longleftrightarrow> False"
| "nonneg_f64 _ \<longleftrightarrow> True"

lemma nonneg_round: "0 \<le> q \<Longrightarrow> nonneg_f64 (f64_round q)"
proof -
  assume q: "0 \<le> q"
  then have m: "0 \<le> magnitude q" by (rule magnitude_nonneg)
  have neg: "- (2 ^ 1024) < (0::rat)" by (simp only: neg_less_0_iff_less) (rule zero_less_power, simp)
  have "\<not> q < 0" "\<not> magnitude q \<le> - (2 ^ 1024)"
    using q less_le_trans [OF neg m] by (simp_all only: not_less not_le)
  then have "f64_round q = PosInf \<or> f64_round q = Fin (magnitude q)"
    unfolding f64_round_def Let_def by (auto simp only: if_False split: if_split)
  then show ?thesis using m magnitude_idem [OF q] by auto
qed

lemma nonneg_of_nat: "nonneg_f64 (f64_of_nat n)"
  by (simp add: f64_of_nat_def nonneg_round)

lemma nonneg_add: "nonneg_f64 x \<Longrightarrow> nonneg_f64 y \<Longrightarrow> nonneg_f64 (f64_add x y)"
  by (cases x; cases y) (auto intro: nonneg_round)

lemma nonneg_mul: "nonneg_f64 x \<Longrightarrow> nonneg_f64 y \<Longrightarrow> nonneg_f64 (f64_mul x y)"
  by (cases x; cases y) (auto intro: nonneg_round simp: f64_inf_def)

lemma nonneg_div: "nonneg_f64 x \<Longrightarrow> nonneg_f64 y \<Longrightarrow> nonneg_f64 (f64_div x y)"
  by (cases x; cases y) (auto intro: nonneg_round simp: f64_inf_def)

lemma nonneg_as_secs: "nonneg_f64 (as_secs_f64 d)"
  unfolding as_secs_f64_def by (intro nonneg_add nonneg_div nonneg_of_nat)

abbreviation capacity_f64 :: "RateLimiterConfig \<Rightarrow> rat" where
  "capacity_f64 config \<equiv> u64_value (rl_capacity config)"

text \<open>The well-formed buckets of a configuration: a number of tokens between zero and the capacity.\<close>

definition bucket_ok :: "RateLimiterConfig \<Rightarrow> TokenBucket \<Rightarrow> bool" where
  "bucket_ok config b \<longleftrightarrow>
     (case tokens b of Fin r \<Rightarrow> 0 \<le> r \<and> magnitude r = r \<and> r \<le> capacity_f64 config | _ \<Rightarrow> False)"

definition rate_limiter_ok :: "RateLimiter \<Rightarrow> bool" where
  "rate_limiter_ok rl \<longleftrightarrow> bucket_ok (rl_config rl) (rl_bucket rl)"

lemma full_bucket_ok: "tokens b = f64_of_nat (unat (rl_capacity config)) \<Longrightarrow> bucket_ok config b"
  by (simp add: bucket_ok_def f64_of_u64 u64_value_bounds)

lemma nonneg_min:
  "nonneg_f64 x \<Longrightarrow> 0 \<le> c \<Longrightarrow> magnitude c = c \<Longrightarrow> \<exists>r. f64_min x (Fin c) = Fin r \<and> 0 \<le> r \<and> magnitude r = r \<and> r \<le> c"
  by (cases x) auto

lemma refill_ok:
  assumes "bucket_ok config b"
  shows "bucket_ok config (RateLimiter_refill_tokens now config b)"
proof -
  define x where
    "x = f64_add (tokens b)
       (f64_mul (f64_div (as_secs_f64 (elapsed now (last_refill b))) (as_secs_f64 (refill_interval config)))
         (f64_of_nat (unat (refill_amount config))))"
  have "nonneg_f64 (tokens b)" using assms by (auto simp: bucket_ok_def split: f64.splits)
  then have "nonneg_f64 x" unfolding x_def
    by (intro nonneg_add nonneg_mul nonneg_div nonneg_as_secs nonneg_of_nat)
  from nonneg_min [OF this u64_value_bounds(1) u64_value_idem]
  have "\<exists>r. tokens (RateLimiter_refill_tokens now config b) = Fin r \<and> 0 \<le> r \<and> magnitude r = r \<and> r \<le> capacity_f64 config"
    unfolding RateLimiter_refill_tokens_def Let_def f64_of_u64 [of "rl_capacity config"]
    by (simp add: x_def)
  then show ?thesis by (auto simp: bucket_ok_def)
qed

lemma last_refill_refill [simp]: "last_refill (RateLimiter_refill_tokens now config b) = now"
  by (simp add: RateLimiter_refill_tokens_def Let_def)

text \<open>Taking tokens from a bucket that holds enough of them.\<close>

lemma take_tokens:
  assumes "0 \<le> m" "m \<le> r" "magnitude r = r" "r \<le> 2 ^ 64"
  shows "f64_sub (Fin r) (Fin m) = Fin (magnitude (r - m))" "0 \<le> magnitude (r - m)" "magnitude (r - m) \<le> r"
proof -
  have "r - m \<le> 2 ^ 64" using assms(1,4) by linarith
  then show "f64_sub (Fin r) (Fin m) = Fin (magnitude (r - m))"
    using f64_round_Fin [of "r - m" 64] assms(2) by (simp add: f64_sub_def)
  show "0 \<le> magnitude (r - m)" using assms by (simp add: magnitude_nonneg)
  show "magnitude (r - m) \<le> r" using magnitude_mono [of "r - m" r] assms by simp
qed

text \<open>What \<open>try_acquire\<close> decides and leaves, in terms of the refilled bucket.\<close>

lemma try_acquire_cases:
  assumes "bucket_ok (rl_config rl) (rl_bucket rl)"
  obtains r where
    "tokens (RateLimiter_refill_tokens now (rl_config rl) (rl_bucket rl)) = Fin r"
    "0 \<le> r" "magnitude r = r" "r \<le> capacity_f64 (rl_config rl)"
    "RateLimiter_try_acquire now n rl =
       (u64_value n \<le> r,
        rl\<lparr>rl_bucket := \<lparr>tokens = Fin (if u64_value n \<le> r then magnitude (r - u64_value n) else r), last_refill = now\<rparr>\<rparr>)"
proof -
  let ?b = "RateLimiter_refill_tokens now (rl_config rl) (rl_bucket rl)"
  obtain r where r: "tokens ?b = Fin r" "0 \<le> r" "magnitude r = r" "r \<le> capacity_f64 (rl_config rl)"
    using refill_ok [OF assms, of now] by (auto simp: bucket_ok_def split: f64.splits)
  have b: "?b = \<lparr>tokens = Fin r, last_refill = now\<rparr>" using r(1) by simp
  have "f64_sub (Fin r) (Fin (u64_value n)) = Fin (magnitude (r - u64_value n))" if "u64_value n \<le> r"
    using that r u64_value_bounds by (intro take_tokens) (auto intro: order_trans)
  then have "RateLimiter_try_acquire now n rl =
       (u64_value n \<le> r,
        rl\<lparr>rl_bucket := \<lparr>tokens = Fin (if u64_value n \<le> r then magnitude (r - u64_value n) else r), last_refill = now\<rparr>\<rparr>)"
    unfolding RateLimiter_try_acquire_def b by (simp add: Let_def f64_of_u64)
  with r show thesis by (rule that)
qed

section \<open>The rate of refilling\<close>

definition refill_valid :: "RateLimiterConfig \<Rightarrow> bool" where
  "refill_valid config \<longleftrightarrow> 0 < refill_interval config \<and> refill_interval config \<le> duration_max"

text \<open>Tokens per nanosecond.\<close>

definition refill_rate :: "RateLimiterConfig \<Rightarrow> rat" where
  "refill_rate config = of_nat (unat (refill_amount config)) / of_nat (refill_interval config)"

lemma refill_rate_nonneg: "0 \<le> refill_rate config"
  unfolding refill_rate_def by (intro divide_nonneg_nonneg of_nat_0_le_iff)

lemma approx_zero: "approx k x 0 \<Longrightarrow> 0 \<le> x \<Longrightarrow> x = 0"
  by (simp add: approx_def)

lemma u64_value_approx: "approx 1 (u64_value n) (of_nat (unat n))"
  unfolding u64_value_def by (intro approx_magnitude normal_of_nat)

text \<open>The number of refill intervals that have passed, at most five roundings off.\<close>

lemma intervals_approx:
  assumes "e \<le> duration_max" "0 < i" "i \<le> duration_max"
  obtains x where "f64_div (as_secs_f64 e) (as_secs_f64 i) = Fin x" "approx 5 x (of_nat e / of_nat i)"
    "0 \<le> x" "x \<le> 2 ^ 95" "0 < e \<Longrightarrow> 2 powi (- 95) \<le> x"
proof -
  obtain E where E: "as_secs_f64 e = Fin E" "approx 2 E (of_nat e / 1000000000)" "0 \<le> E" "E \<le> 2 ^ 65"
      "0 < e \<Longrightarrow> 2 powi (- 30) \<le> E"
    by (rule as_secs_f64_approx [OF assms(1)]) blast
  obtain I where I: "as_secs_f64 i = Fin I" "approx 2 I (of_nat i / 1000000000)" "0 \<le> I" "I \<le> 2 ^ 65"
      "2 powi (- 30) \<le> I"
    by (rule as_secs_f64_approx [OF assms(3)]) (use assms(2) in blast)
  have Ipos: "0 < I" using I(5) zero_less_power_int [of "2::rat" "- 30"] by linarith
  have q: "0 \<le> E / I" "E / I \<le> 2 ^ 95"
  proof -
    have "E \<le> 2 ^ 95 * 2 powi (- 30)" using E(4) by (simp add: power_int_def power_divide)
    also have "\<dots> \<le> 2 ^ 95 * I" using I(5) by (intro mult_left_mono) simp_all
    finally show "E / I \<le> 2 ^ 95" using Ipos by (simp add: pos_divide_le_eq)
  qed (use E Ipos in simp)
  have low: "2 powi (- 95) \<le> E / I" if "0 < e"
  proof -
    have "2 powi (- 95) * I \<le> 2 powi (- 95) * 2 ^ 65" using I(4) by (intro mult_left_mono) simp_all
    also have "\<dots> = 2 powi (- 30)" by (simp add: power_int_def power_divide)
    also have "\<dots> \<le> E" by (rule E(5) [OF that])
    finally show ?thesis using Ipos by (simp add: pos_le_divide_eq)
  qed
  have "approx (2 + 2) (E / I) ((of_nat e / 1000000000) / (of_nat i / 1000000000))"
    using E(2,3) I(2) Ipos assms(2) by (intro approx_divide) simp_all
  then have app: "approx 4 (E / I) (of_nat e / of_nat i)" by simp
  have norm: "normal (E / I)"
  proof (cases "e = 0")
    case True
    then have "E = 0" using approx_zero [of 2 E] E(2,3) by simp
    then show ?thesis by (simp add: normal_def)
  next
    case False
    then show ?thesis using low by (intro normalI [of "- 95"]) simp_all
  qed
  show thesis
  proof (rule that)
    show "f64_div (as_secs_f64 e) (as_secs_f64 i) = Fin (magnitude (E / I))"
      using f64_round_Fin [OF q] Ipos by (simp add: E I)
    show "approx 5 (magnitude (E / I)) (of_nat e / of_nat i)" using approx_round [OF app norm] by simp
    show "0 \<le> magnitude (E / I)" "magnitude (E / I) \<le> 2 ^ 95"
      by (rule magnitude_nonneg [OF q(1)]) (rule magnitude_le_power [OF q])
    show "0 < e \<Longrightarrow> 2 powi (- 95) \<le> magnitude (E / I)" by (intro magnitude_ge_power low) simp_all
  qed
qed

lemma refill_amount_approx:
  assumes "e \<le> duration_max" "refill_valid config"
  obtains x where
    "f64_mul (f64_div (as_secs_f64 e) (as_secs_f64 (refill_interval config)))
       (f64_of_nat (unat (refill_amount config))) = Fin x"
    "approx 7 x (refill_rate config * of_nat e)" "0 \<le> x" "x \<le> 2 ^ 159"
proof -
  let ?i = "refill_interval config" and ?A = "u64_value (refill_amount config)"
  obtain y where y: "f64_div (as_secs_f64 e) (as_secs_f64 ?i) = Fin y" "approx 5 y (of_nat e / of_nat ?i)"
      "0 \<le> y" "y \<le> 2 ^ 95" "0 < e \<Longrightarrow> 2 powi (- 95) \<le> y"
    by (rule intervals_approx [of e ?i]) (use assms in \<open>auto simp: refill_valid_def\<close>)
  have q: "0 \<le> y * ?A" "y * ?A \<le> 2 ^ 159"
    using mult_mono [OF y(4) u64_value_bounds(2)] y(3) u64_value_bounds(1) by simp_all
  have "approx (5 + 1) (y * ?A) (of_nat e / of_nat ?i * of_nat (unat (refill_amount config)))"
    by (intro approx_mult y u64_value_approx u64_value_bounds divide_nonneg_nonneg of_nat_0_le_iff)
  then have app: "approx 6 (y * ?A) (refill_rate config * of_nat e)"
    by (simp add: refill_rate_def mult.commute)
  have norm: "normal (y * ?A)"
  proof (cases "e = 0 \<or> refill_amount config = 0")
    case True
    then have "y = 0 \<or> ?A = 0" using approx_zero [OF _ y(3), of 5] y(2) by (auto simp: u64_value_def)
    then show ?thesis by (auto simp: normal_def)
  next
    case False
    then have "1 \<le> ?A" by (intro u64_value_pos) (simp add: word_greater_zero_iff)
    then have "2 powi (- 95) * 1 \<le> y * ?A" using y(5) False by (intro mult_mono) (use y(3) in auto)
    then show ?thesis by (intro normalI [of "- 95"]) simp_all
  qed
  show thesis
  proof (rule that)
    show "f64_mul (f64_div (as_secs_f64 e) (as_secs_f64 ?i)) (f64_of_nat (unat (refill_amount config))) =
        Fin (magnitude (y * ?A))"
      using f64_round_Fin [OF q] by (simp add: y(1) f64_of_u64)
    show "approx 7 (magnitude (y * ?A)) (refill_rate config * of_nat e)" using approx_round [OF app norm] by simp
    show "0 \<le> magnitude (y * ?A)" "magnitude (y * ?A) \<le> 2 ^ 159"
      by (rule magnitude_nonneg [OF q(1)]) (rule magnitude_le_power [OF q])
  qed
qed

lemma refill_tokens_value:
  assumes "tokens b = Fin r" "0 \<le> r" "r \<le> capacity_f64 config"
    and "refill_valid config" "now - last_refill b \<le> duration_max"
  obtains x where
    "tokens (RateLimiter_refill_tokens now config b) = Fin (min (magnitude (r + x)) (capacity_f64 config))"
    "0 \<le> x" "x \<le> refill_rate config * of_nat (now - last_refill b) * (1 + 1 / 2 ^ 49)"
    "refill_rate config * of_nat (now - last_refill b) \<le> x * (1 + 1 / 2 ^ 49)"
proof -
  let ?e = "now - last_refill b"
  obtain x where x: "f64_mul (f64_div (as_secs_f64 ?e) (as_secs_f64 (refill_interval config)))
       (f64_of_nat (unat (refill_amount config))) = Fin x"
    "approx 7 x (refill_rate config * of_nat ?e)" "0 \<le> x" "x \<le> 2 ^ 159"
    by (rule refill_amount_approx [OF assms(5,4)])
  have "r + x \<le> 2 ^ 160" using assms(3) x(4) u64_value_bounds(2) [of "rl_capacity config"] by simp
  then have "f64_round (r + x) = Fin (magnitude (r + x))"
    using f64_round_Fin [of "r + x" 160] assms(2) x(3) by simp
  then have "tokens (RateLimiter_refill_tokens now config b) = Fin (min (magnitude (r + x)) (capacity_f64 config))"
    unfolding RateLimiter_refill_tokens_def Let_def elapsed_def x(1) f64_of_u64 [of "rl_capacity config"]
    by (simp add: assms(1) min_def)
  then show thesis using x(3) approx_7 [OF x(2,3)] refill_rate_nonneg [of config]
    by (intro that [of x]) simp_all
qed

text \<open>A refill adds at most the elapsed time at the configured rate, up to rounding.\<close>

lemma refill_tokens_le:
  assumes "tokens b = Fin r" "0 \<le> r" "r \<le> capacity_f64 config"
    and "refill_valid config" "now - last_refill b \<le> duration_max"
    and "tokens (RateLimiter_refill_tokens now config b) = Fin r'"
  shows "r' \<le> r + refill_rate config * (1 + 1 / 2 ^ 49) * of_nat (now - last_refill b) + capacity_f64 config / 2 ^ 53"
proof -
  let ?c = "capacity_f64 config"
  obtain x where x: "r' = min (magnitude (r + x)) ?c" "0 \<le> x"
      "x \<le> refill_rate config * of_nat (now - last_refill b) * (1 + 1 / 2 ^ 49)"
    using refill_tokens_value [OF assms(1-5)] assms(6) by (metis f64.inject)
  have "r' \<le> r + x + ?c / 2 ^ 53"
  proof (cases "r + x \<le> ?c")
    case False
    then show ?thesis using x(1) u64_value_bounds(1) [of "rl_capacity config"] by (simp add: min_def)
  next
    case True
    show ?thesis
    proof (cases "2 powi (- 1022) \<le> ?c")
      case c: True
      have "magnitude (r + x) - (r + x) \<le> ?c / 2 ^ 53"
        by (rule abs_le_D1 [OF magnitude_error_abs [OF _ True c]]) (use x(2) assms(2) in simp)
      moreover have "r' \<le> magnitude (r + x)" using x(1) by simp
      ultimately show ?thesis by linarith
    next
      case False
      then have "?c = 0" unfolding u64_value_def
        using magnitude_ge_power [of "- 1022" "of_nat (unat (rl_capacity config))"]
          normal_of_nat [of "unat (rl_capacity config)"] by (auto simp: normal_def)
      then show ?thesis using x assms(2) by (simp add: min_def)
    qed
  qed
  then show ?thesis using x(3) by (simp add: mult_ac)
qed

text \<open>A refill after a long enough time fills the bucket.\<close>

lemma refill_tokens_full:
  assumes "tokens b = Fin r" "0 \<le> r" "r \<le> capacity_f64 config"
    and "refill_valid config" "now - last_refill b \<le> duration_max"
    and "capacity_f64 config * (1 + 1 / 2 ^ 49) \<le> refill_rate config * of_nat (now - last_refill b)"
  shows "tokens (RateLimiter_refill_tokens now config b) = Fin (capacity_f64 config)"
proof -
  obtain x where x:
    "tokens (RateLimiter_refill_tokens now config b) = Fin (min (magnitude (r + x)) (capacity_f64 config))"
    "refill_rate config * of_nat (now - last_refill b) \<le> x * (1 + 1 / 2 ^ 49)"
    by (rule refill_tokens_value [OF assms(1-5)])
  have "capacity_f64 config * (1 + 1 / 2 ^ 49) \<le> x * (1 + 1 / 2 ^ 49)" using assms(6) x(2) by (rule order_trans)
  then have "capacity_f64 config \<le> x" by (rule mult_right_le_imp_le) simp
  then have "magnitude (capacity_f64 config) \<le> magnitude (r + x)"
    using assms(2) u64_value_bounds by (intro magnitude_mono) simp_all
  then show ?thesis using x(1) by (simp add: min_def)
qed

section \<open>The contract of a token bucket\<close>

text \<open>The tokens granted to a sequence of calls, each with its clock reading, and the state left.\<close>

fun grant_calls :: "(instant \<Rightarrow> u64 \<Rightarrow> 'l \<Rightarrow> bool \<times> 'l) \<Rightarrow> (instant \<times> u64) list \<Rightarrow> 'l \<Rightarrow> nat \<times> 'l" where
  "grant_calls try_acquire [] l = (0, l)"
| "grant_calls try_acquire ((now, n) # cs) l =
     (let (granted, l) = try_acquire now n l; (sum, l) = grant_calls try_acquire cs l
      in ((if granted then unat n else 0) + sum, l))"

text \<open>
  What the clients of a limiter rely on: the level of the bucket pays for every grant, and
  it rises at most at the given rate, with a slack per call for the rounding.
\<close>

locale token_bucket =
  fixes try_acquire :: "instant \<Rightarrow> u64 \<Rightarrow> 'l \<Rightarrow> bool \<times> 'l"
    and ok :: "'l \<Rightarrow> bool"
    and level :: "'l \<Rightarrow> rat"
    and stamp :: "'l \<Rightarrow> instant"
    and rate :: rat
    and slack :: rat
  assumes rate_nonneg: "0 \<le> rate"
    and ok_try: "ok l \<Longrightarrow> ok (snd (try_acquire now n l))"
    and stamp_try: "ok l \<Longrightarrow> stamp (snd (try_acquire now n l)) = now"
    and level_nonneg: "ok l \<Longrightarrow> 0 \<le> level l"
    and level_try:
      "ok l \<Longrightarrow> now - stamp l \<le> duration_max \<Longrightarrow>
       level (snd (try_acquire now n l)) + (if fst (try_acquire now n l) then of_nat (unat n) else 0)
         \<le> level l + rate * of_nat (now - stamp l) + slack"
begin

lemma ok_run: "ok l \<Longrightarrow> ok (snd (grant_calls try_acquire cs l))"
  by (induction cs arbitrary: l) (auto simp: split_beta Let_def ok_try)

lemma grants_bounded:
  assumes "ok l" "sorted (stamp l # map fst cs)" "\<forall>t \<in> set (map fst cs). t \<le> t_end"
    and "stamp l \<le> t_end" "t_end - stamp l \<le> duration_max"
  shows "of_nat (fst (grant_calls try_acquire cs l)) \<le>
    level l + rate * of_nat (t_end - stamp l) + of_nat (length cs) * slack"
  using assms
proof (induction cs arbitrary: l)
  case Nil
  then show ?case using level_nonneg [of l] rate_nonneg by simp
next
  case (Cons c cs)
  obtain now n where c: "c = (now, n)" by fastforce
  let ?l = "snd (try_acquire now n l)"
  let ?g = "(if fst (try_acquire now n l) then unat n else 0)"
  have t: "stamp l \<le> now" "now \<le> t_end" using Cons.prems c by auto
  have l: "ok ?l" "stamp ?l = now" using Cons.prems(1) by (simp_all add: ok_try stamp_try)
  have "of_nat (fst (grant_calls try_acquire cs ?l)) \<le>
      level ?l + rate * of_nat (t_end - now) + of_nat (length cs) * slack"
    using Cons.IH [of ?l] Cons.prems l t c by simp
  moreover have "level ?l + of_nat ?g \<le> level l + rate * of_nat (now - stamp l) + slack"
  proof -
    have "now - stamp l \<le> duration_max" using Cons.prems(5) t by linarith
    from level_try [OF Cons.prems(1) this, of n] show ?thesis by (simp split: if_splits del: of_nat_unat)
  qed
  moreover have "rate * of_nat (t_end - stamp l) = rate * of_nat (now - stamp l) + rate * of_nat (t_end - now)"
    using t by (simp add: of_nat_diff algebra_simps)
  moreover have "fst (grant_calls try_acquire (c # cs) l) = ?g + fst (grant_calls try_acquire cs ?l)"
    by (simp add: c split_beta Let_def)
  ultimately show ?case by (simp add: distrib_right of_nat_add del: of_nat_unat)
qed

end

text \<open>The limiters of one configuration whose capacity fits the significand of an \<open>f64\<close>.\<close>

definition exact_limiter :: "RateLimiterConfig \<Rightarrow> RateLimiter \<Rightarrow> bool" where
  "exact_limiter config rl \<longleftrightarrow>
     rl_config rl = config \<and> rate_limiter_ok rl \<and> unat (rl_capacity config) < 2 ^ 53 \<and> refill_valid config"

definition bucket_level :: "RateLimiter \<Rightarrow> rat" where
  "bucket_level rl = (case tokens (rl_bucket rl) of Fin r \<Rightarrow> r | _ \<Rightarrow> 0)"

lemma u64_value_less:
  assumes "u64_value n < 2 ^ 53" shows "u64_value n = of_nat (unat n)"
proof (rule u64_value_exact)
  show "unat n \<le> 2 ^ 53"
  proof (rule ccontr)
    assume "\<not> unat n \<le> 2 ^ 53"
    then have "(of_nat (2 ^ 53) :: rat) \<le> of_nat (unat n)" by (subst of_nat_le_iff) simp
    then have "2 powi 53 \<le> (of_nat (unat n) :: rat)" by (simp add: power_int_def del: of_nat_unat)
    then have "2 powi 53 \<le> u64_value n" unfolding u64_value_def by (rule magnitude_ge_power) simp
    with assms show False by (simp add: power_int_def)
  qed
qed

lemma exact_try_level:
  assumes "exact_limiter config rl" "now - last_refill (rl_bucket rl) \<le> duration_max"
  shows "bucket_level (snd (RateLimiter_try_acquire now n rl)) +
      (if fst (RateLimiter_try_acquire now n rl) then of_nat (unat n) else 0)
    \<le> bucket_level rl + refill_rate config * (1 + 1 / 2 ^ 49) * of_nat (now - last_refill (rl_bucket rl)) +
      of_nat (unat (rl_capacity config)) / 2 ^ 53"
proof -
  have cfg: "rl_config rl = config" "unat (rl_capacity config) < 2 ^ 53" "refill_valid config"
    and ok: "bucket_ok (rl_config rl) (rl_bucket rl)"
    using assms(1) by (auto simp: exact_limiter_def rate_limiter_ok_def)
  have cap: "capacity_f64 config = of_nat (unat (rl_capacity config))" "capacity_f64 config < 2 ^ 53"
    using u64_value_exact [of "rl_capacity config"] cfg(2)
      of_nat_less_iff [of "unat (rl_capacity config)" "2 ^ 53", where 'a = rat] by (simp_all del: of_nat_unat)
  obtain q where q: "tokens (rl_bucket rl) = Fin q" "0 \<le> q" "q \<le> capacity_f64 config"
    using ok cfg(1) by (auto simp: bucket_ok_def split: f64.splits)
  obtain r where r: "tokens (RateLimiter_refill_tokens now config (rl_bucket rl)) = Fin r"
      "0 \<le> r" "magnitude r = r" "r \<le> capacity_f64 config"
      "RateLimiter_try_acquire now n rl =
       (u64_value n \<le> r,
        rl\<lparr>rl_bucket := \<lparr>tokens = Fin (if u64_value n \<le> r then magnitude (r - u64_value n) else r), last_refill = now\<rparr>\<rparr>)"
    using try_acquire_cases [OF ok, of now n] unfolding cfg(1) by blast
  have "u64_value n = of_nat (unat n)" "magnitude (r - u64_value n) = r - of_nat (unat n)" if "u64_value n \<le> r"
  proof -
    have "r < 2 ^ 53" using r(4) cap(2) by simp
    with that show eq: "u64_value n = of_nat (unat n)" by (intro u64_value_less) simp
    show "magnitude (r - u64_value n) = r - of_nat (unat n)"
      using magnitude_diff_exact [OF r(3), of "unat n"] that \<open>r < 2 ^ 53\<close> unfolding eq by blast
  qed
  then have "bucket_level (snd (RateLimiter_try_acquire now n rl)) +
      (if fst (RateLimiter_try_acquire now n rl) then of_nat (unat n) else 0) = r"
    by (auto simp: r(5) bucket_level_def simp del: of_nat_unat)
  moreover have "bucket_level rl = q" by (simp add: bucket_level_def q)
  ultimately show ?thesis using refill_tokens_le [OF q cfg(3) assms(2) r(1)] cap(1) by simp
qed

section \<open>The operations keep the bucket well-formed\<close>

lemma with_config_ok: "rate_limiter_ok (RateLimiter_with_config now config)"
  by (simp add: rate_limiter_ok_def RateLimiter_with_config_def full_bucket_ok)

lemma try_acquire_ok: "rate_limiter_ok rl \<Longrightarrow> rate_limiter_ok (snd (RateLimiter_try_acquire now n rl))"
proof -
  assume "rate_limiter_ok rl"
  then have ok: "bucket_ok (rl_config rl) (rl_bucket rl)" by (simp add: rate_limiter_ok_def)
  obtain r where r: "0 \<le> r" "magnitude r = r" "r \<le> capacity_f64 (rl_config rl)"
      "RateLimiter_try_acquire now n rl =
       (u64_value n \<le> r,
        rl\<lparr>rl_bucket := \<lparr>tokens = Fin (if u64_value n \<le> r then magnitude (r - u64_value n) else r), last_refill = now\<rparr>\<rparr>)"
    using try_acquire_cases [OF ok, of now n] by blast
  have "magnitude (r - u64_value n) \<le> r" "0 \<le> magnitude (r - u64_value n)" if "u64_value n \<le> r"
    using take_tokens(2,3) [OF u64_value_bounds(1) that r(2)] r(3) u64_value_bounds(2) [of "rl_capacity (rl_config rl)"]
    by linarith+
  then show ?thesis using r(1-3)
    by (auto simp: r(4) rate_limiter_ok_def bucket_ok_def magnitude_idem)
qed

lemma config_try [simp]: "rl_config (snd (RateLimiter_try_acquire now n rl)) = rl_config rl"
  by (simp add: RateLimiter_try_acquire_def Let_def)

lemma stamp_try [simp]: "last_refill (rl_bucket (snd (RateLimiter_try_acquire now n rl))) = now"
  by (simp add: RateLimiter_try_acquire_def Let_def)

interpretation rl: token_bucket RateLimiter_try_acquire "exact_limiter config" bucket_level
    "\<lambda>rl. last_refill (rl_bucket rl)" "refill_rate config * (1 + 1 / 2 ^ 49)"
    "of_nat (unat (rl_capacity config)) / 2 ^ 53" for config
proof
  show "0 \<le> refill_rate config * (1 + 1 / 2 ^ 49)" using refill_rate_nonneg [of config] by simp
next
  fix l now n
  assume "exact_limiter config l"
  then show "exact_limiter config (snd (RateLimiter_try_acquire now n l))"
    by (auto simp: exact_limiter_def try_acquire_ok)
next
  fix l
  assume "exact_limiter config l"
  then show "0 \<le> bucket_level l"
    by (auto simp: exact_limiter_def rate_limiter_ok_def bucket_ok_def bucket_level_def split: f64.splits)
qed (simp, rule exact_try_level)

datatype rl_event = TryAcquire instant u64 | AvailableTokens instant | Reset instant

fun rl_apply :: "rl_event \<Rightarrow> RateLimiter \<Rightarrow> RateLimiter" where
  "rl_apply (TryAcquire now n) rl = snd (RateLimiter_try_acquire now n rl)"
| "rl_apply (AvailableTokens now) rl = snd (RateLimiter_available_tokens now rl)"
| "rl_apply (Reset now) rl = RateLimiter_reset now rl"

lemma available_tokens_ok: "rate_limiter_ok rl \<Longrightarrow> rate_limiter_ok (snd (RateLimiter_available_tokens now rl))"
  by (simp add: RateLimiter_available_tokens_def Let_def rate_limiter_ok_def refill_ok)

lemma reset_ok: "rate_limiter_ok (RateLimiter_reset now rl)"
  by (simp add: RateLimiter_reset_def rate_limiter_ok_def full_bucket_ok)

lemma rl_apply_ok: "rate_limiter_ok rl \<Longrightarrow> rate_limiter_ok (rl_apply e rl)"
  by (cases e) (simp_all add: try_acquire_ok available_tokens_ok reset_ok)

interpretation rl_events: event_system rl_apply rate_limiter_ok
  by unfold_locales (rule rl_apply_ok)

lemma rl_apply_config [simp]: "rl_config (rl_apply e rl) = rl_config rl"
  by (cases e) (auto simp: RateLimiter_available_tokens_def RateLimiter_reset_def Let_def)

lemma rl_run_config [simp]: "rl_config (fold rl_apply es rl) = rl_config rl"
  by (induction es arbitrary: rl) auto

lemma floor_le_capacity:
  assumes "0 \<le> r" "r \<le> of_nat n" "n < 2 ^ 64"
  shows "unat (f64_to_u64 (f64_floor (Fin r))) \<le> n"
proof -
  have "0 \<le> \<lfloor>r\<rfloor>" using assms(1) by simp
  then obtain k where k: "\<lfloor>r\<rfloor> = int k" by (rule nonneg_int_cases)
  have "(of_int \<lfloor>r\<rfloor> :: rat) \<le> of_nat n" using assms(2) of_int_floor_le [of r] by linarith
  then have "k \<le> n" by (simp add: k)
  then have "(of_nat k :: rat) < of_nat (2 ^ 64)" using assms(3) by (subst of_nat_less_iff) simp
  then have "f64_to_u64 (f64_floor (Fin r)) = of_nat k" by (simp add: f64_floor_def k not_less)
  then show ?thesis using \<open>k \<le> n\<close> assms(3) by (simp add: unat_of_nat)
qed

section \<open>Properties of the limiter\<close>

text \<open>
  C21. The bucket of a rate limiter holds a number of tokens between zero and its capacity after
  any calls of \<open>try_acquire\<close>, \<open>available_tokens\<close> and \<open>reset\<close>, at any clock readings and for
  every configuration, including zero intervals, where the refill divides by zero. A call
  for \<open>n\<close> tokens is granted exactly when the refilled bucket holds them, and
  \<open>available_tokens\<close> never reports more than a capacity of at most \<open>2 ^ 53\<close>.
\<close>

theorem rate_limiter_bounded:
  assumes "rl = fold rl_apply es (RateLimiter_with_config t config)"
  shows "\<exists>r r'. tokens (rl_bucket rl) = Fin r \<and> 0 \<le> r \<and> r \<le> u64_value (rl_capacity config) \<and>
      tokens (RateLimiter_refill_tokens now config (rl_bucket rl)) = Fin r' \<and>
      r' \<le> u64_value (rl_capacity config) \<and>
      fst (RateLimiter_try_acquire now n rl) = (u64_value n \<le> r') \<and>
      (unat (rl_capacity config) \<le> 2 ^ 53 \<longrightarrow>
         fst (RateLimiter_available_tokens now rl) \<le> rl_capacity config)"
proof -
  have cfg: "rl_config rl = config" by (simp add: assms RateLimiter_with_config_def)
  have ok: "bucket_ok (rl_config rl) (rl_bucket rl)"
    using rl_events.run_inv [OF with_config_ok] by (simp add: assms rate_limiter_ok_def)
  obtain r where r: "tokens (rl_bucket rl) = Fin r" "0 \<le> r" "r \<le> capacity_f64 config"
    using ok cfg by (auto simp: bucket_ok_def split: f64.splits)
  obtain r' where r': "tokens (RateLimiter_refill_tokens now config (rl_bucket rl)) = Fin r'"
      "0 \<le> r'" "r' \<le> capacity_f64 config" "fst (RateLimiter_try_acquire now n rl) = (u64_value n \<le> r')"
    by (rule try_acquire_cases [OF ok, of now n]) (auto simp: cfg)
  have "fst (RateLimiter_available_tokens now rl) \<le> rl_capacity config" if "unat (rl_capacity config) \<le> 2 ^ 53"
  proof -
    have "r' \<le> of_nat (unat (rl_capacity config))" using r'(3) u64_value_exact [OF that] by simp
    then have "unat (f64_to_u64 (f64_floor (Fin r'))) \<le> unat (rl_capacity config)"
      using r'(2) unsigned_less [of "rl_capacity config"] by (intro floor_le_capacity) simp_all
    then show ?thesis by (simp add: RateLimiter_available_tokens_def Let_def cfg r'(1) word_le_nat_alt)
  qed
  then show ?thesis using r r' by blast
qed

theorem rate_limiter_bounded_witness:
  "\<exists>r r'. tokens (rl_bucket (fold rl_apply [TryAcquire 5 3, Reset 7] (RateLimiter_with_config 0 RateLimiterConfig_default))) = Fin r \<and>
      0 \<le> r \<and> r \<le> u64_value (rl_capacity RateLimiterConfig_default) \<and>
      tokens (RateLimiter_refill_tokens 9 RateLimiterConfig_default
        (rl_bucket (fold rl_apply [TryAcquire 5 3, Reset 7] (RateLimiter_with_config 0 RateLimiterConfig_default)))) = Fin r' \<and>
      r' \<le> u64_value (rl_capacity RateLimiterConfig_default) \<and>
      fst (RateLimiter_available_tokens 9
        (fold rl_apply [TryAcquire 5 3, Reset 7] (RateLimiter_with_config 0 RateLimiterConfig_default))) \<le> 100"
  using rate_limiter_bounded [OF refl, of "[TryAcquire 5 3, Reset 7]" 0 RateLimiterConfig_default 9 1]
  by (auto simp: config_defs)

text \<open>
  C12. The limiter enforces its rate. A limiter created at \<open>t\<close> with a capacity below \<open>2 ^ 53\<close>
  and a non-zero refill interval grants, to any calls of \<open>try_acquire\<close> with clock readings
  between \<open>t\<close> and \<open>t_end\<close>, at most its capacity plus the tokens the configured rate gives
  for that time, up to the rounding of the binary64 arithmetic: one part in \<open>2 ^ 49\<close> of the
  refill, and \<open>2 ^ -53\<close> of the capacity per call.
\<close>

theorem rate_limiter_rate_bound:
  assumes "unat (rl_capacity config) < 2 ^ 53" "refill_valid config"
    and "sorted (t # map fst calls)" "\<forall>s \<in> set (map fst calls). s \<le> t_end" "t \<le> t_end"
    and "t_end - t \<le> duration_max"
  shows "of_nat (fst (grant_calls RateLimiter_try_acquire calls (RateLimiter_with_config t config))) \<le>
    of_nat (unat (rl_capacity config)) * (1 + of_nat (length calls) / 2 ^ 53) +
    refill_rate config * of_nat (t_end - t) * (1 + 1 / 2 ^ 49)"
proof -
  let ?rl = "RateLimiter_with_config t config"
  have ok: "exact_limiter config ?rl"
    using assms(1,2) with_config_ok [of t config] by (simp add: exact_limiter_def RateLimiter_with_config_def)
  have stamp: "last_refill (rl_bucket ?rl) = t" by (simp add: RateLimiter_with_config_def)
  have level: "bucket_level ?rl = of_nat (unat (rl_capacity config))"
    using u64_value_exact [of "rl_capacity config"] assms(1)
    by (simp add: bucket_level_def RateLimiter_with_config_def f64_of_u64 del: of_nat_unat)
  from rl.grants_bounded [OF ok, unfolded stamp level, OF assms(3-6)] show ?thesis
    by (simp only: distrib_left distrib_right mult_1_right times_divide_eq_left times_divide_eq_right ac_simps)
qed

text \<open>The default limiter, called three times within its first second.\<close>

theorem rate_limiter_rate_bound_witness:
  "of_nat (fst (grant_calls RateLimiter_try_acquire [(0, 60), (1000, 60), (from_secs 1, 7)]
      (RateLimiter_with_config 0 RateLimiterConfig_default))) \<le>
    (of_nat (unat (100::u64)) * (1 + 3 / 2 ^ 53) + 10 * (1 + 1 / 2 ^ 49) :: rat)"
  using rate_limiter_rate_bound
    [of RateLimiterConfig_default 0 "[(0, 60), (1000, 60), (from_secs 1, 7)]" "from_secs 1"]
  by (simp add: config_defs refill_valid_def refill_rate_def from_secs_def duration_max_def)

text \<open>
  Tokens come back. When enough time has passed since the last refill for the configured
  rate to fill the bucket (and one part in \<open>2 ^ 49\<close> more, for the rounding), the bucket is full
  again: every request for at most the capacity is granted.
\<close>

theorem rate_limiter_refills:
  assumes "rate_limiter_ok rl" "refill_valid (rl_config rl)"
    and "now - last_refill (rl_bucket rl) \<le> duration_max"
    and "u64_value (rl_capacity (rl_config rl)) * (1 + 1 / 2 ^ 49) \<le>
      refill_rate (rl_config rl) * of_nat (now - last_refill (rl_bucket rl))"
    and "n \<le> rl_capacity (rl_config rl)"
  shows "fst (RateLimiter_try_acquire now n rl)"
proof -
  have ok: "bucket_ok (rl_config rl) (rl_bucket rl)" using assms(1) by (simp add: rate_limiter_ok_def)
  obtain q where q: "tokens (rl_bucket rl) = Fin q" "0 \<le> q" "q \<le> capacity_f64 (rl_config rl)"
    using ok by (auto simp: bucket_ok_def split: f64.splits)
  have full: "tokens (RateLimiter_refill_tokens now (rl_config rl) (rl_bucket rl)) = Fin (capacity_f64 (rl_config rl))"
    by (rule refill_tokens_full [OF q assms(2-4)])
  have "u64_value n \<le> capacity_f64 (rl_config rl)"
    using assms(5) by (rule u64_value_mono)
  with full show ?thesis
    by (rule_tac try_acquire_cases [OF ok, of now n]) simp
qed

text \<open>After eleven seconds the default limiter, emptied at the start, grants a hundred tokens again.\<close>

theorem rate_limiter_refills_witness:
  "fst (RateLimiter_try_acquire (from_secs 11) 100
     (snd (RateLimiter_try_acquire 0 100 (RateLimiter_with_config 0 RateLimiterConfig_default))))"
proof (rule rate_limiter_refills)
  show "rate_limiter_ok (snd (RateLimiter_try_acquire 0 100 (RateLimiter_with_config 0 RateLimiterConfig_default)))"
    by (intro try_acquire_ok with_config_ok)
qed (simp_all add: RateLimiter_with_config_def config_defs refill_valid_def refill_rate_def from_secs_def
    duration_max_def u64_value_exact)

section \<open>Waiting returns\<close>

text \<open>
  The clock of the passes: readings do not go back, and a sleep lasts at least as long as
  asked for, as tokio documents.
\<close>

definition pass_clock_laws :: "RateLimiterConfig \<Rightarrow> instant \<Rightarrow> instant \<Rightarrow> (nat \<Rightarrow> pass_clock) \<Rightarrow> bool" where
  "pass_clock_laws config now deadline clock \<longleftrightarrow>
     now \<le> at_try (clock 0) \<and>
     (\<forall>i. at_try (clock i) \<le> at_check (clock i) \<and> at_check (clock i) \<le> at_sleep (clock i) \<and>
        (\<forall>d. sleep_of config deadline (at_sleep (clock i)) = Some d \<longrightarrow>
           at_sleep (clock i) + d \<le> at_try (clock (Suc i))))"

lemma pass_clock_progress:
  assumes "pass_clock_laws config now deadline clock" "wait_time config = Some w"
  shows "min deadline (now + i * w) \<le> at_check (clock i)"
proof (induction i)
  case 0
  have "now \<le> at_try (clock 0)" "at_try (clock 0) \<le> at_check (clock 0)"
    using assms(1) by (simp_all add: pass_clock_laws_def)
  then show ?case by simp
next
  case (Suc i)
  have "sleep_of config deadline (at_sleep (clock i)) = Some (min w (deadline - at_sleep (clock i)))"
    by (simp add: sleep_of_def assms(2) elapsed_def)
  then have "at_sleep (clock i) + min w (deadline - at_sleep (clock i)) \<le> at_try (clock (Suc i))"
    "at_check (clock i) \<le> at_sleep (clock i)" "at_try (clock (Suc i)) \<le> at_check (clock (Suc i))"
    using assms(1) by (auto simp: pass_clock_laws_def)
  with Suc show ?case by (auto simp: min_def split: if_splits)
qed

lemma acquire_loop_returns:
  assumes "pass_clock_laws config now deadline clock" "wait_time config = Some w"
    and "deadline \<le> at_check (clock (i + m))" "m < fuel"
  shows "\<exists>r sleeps s'. acquire_loop try_acquire config clock env deadline i fuel s = Some (Returned r, sleeps, s') \<and>
    (r = Inr True \<or> r = Inl Timeout) \<and> sum_list sleeps \<le> deadline - at_sleep (clock i)"
  using assms(3,4)
proof (induction fuel arbitrary: i m s)
  case (Suc fuel)
  obtain g s1 where try1: "try_acquire (at_try (clock i)) (env i s) = (g, s1)" by fastforce
  define d where "d = min w (deadline - at_sleep (clock i))"
  have d: "sleep_of config deadline (at_sleep (clock i)) = Some d"
    by (simp add: sleep_of_def assms(2) elapsed_def d_def)
  have next_pass: "at_sleep (clock i) + d \<le> at_sleep (clock (Suc i))"
    using assms(1) d unfolding pass_clock_laws_def by (meson order_trans)
  show ?case
  proof (cases "g \<or> deadline \<le> at_check (clock i)")
    case True
    then show ?thesis by (auto simp: try1)
  next
    case False
    then obtain m' where m: "m = Suc m'" using Suc.prems(1) by (cases m) auto
    obtain r sleeps s' where rec:
      "acquire_loop try_acquire config clock env deadline (Suc i) fuel s1 = Some (Returned r, sleeps, s')"
      "r = Inr True \<or> r = Inl Timeout" "sum_list sleeps \<le> deadline - at_sleep (clock (Suc i))"
      using Suc.IH [of "Suc i" m' s1] Suc.prems m by auto
    have "d + sum_list sleeps \<le> deadline - at_sleep (clock i)"
      using rec(3) next_pass by (simp add: d_def min_def split: if_splits)
    then show ?thesis using False rec by (auto simp: try1 d)
  qed
qed simp

text \<open>
  C22. \<open>acquire\<close> returns. For a configuration whose wait time is positive, under a clock that
  does not go back and sleeps that last at least as long as asked for, the loop ends after
  at most \<open>timeout / wait_time + 2\<close> passes, whatever the other tasks do to the bucket: with
  success or with the timeout error, and having slept no longer than the timeout in all.
\<close>

theorem rate_limiter_acquire_returns:
  assumes "wait_time (rl_config rl) = Some w" "0 < w"
    and "pass_clock_laws (rl_config rl) now (now + timeout) clock"
  shows "\<exists>r sleeps rl'. RateLimiter_acquire now clock env (timeout div w + 2) n timeout rl = Some (Returned r, sleeps, rl') \<and>
    (r = Inr True \<or> r = Inl Timeout) \<and> sum_list sleeps \<le> timeout"
proof -
  let ?m = "timeout div w + 1"
  have "timeout \<le> ?m * w" using assms(2) dividend_less_times_div [of w timeout] by (simp add: algebra_simps)
  then have "now + timeout \<le> at_check (clock ?m)"
    using pass_clock_progress [OF assms(3,1), of ?m] by (simp add: min_def split: if_splits)
  moreover have "now \<le> at_sleep (clock 0)" using assms(3) unfolding pass_clock_laws_def by (meson order_trans)
  ultimately show ?thesis
    using acquire_loop_returns [OF assms(3,1), of 0 ?m "timeout div w + 2" "\<lambda>t. RateLimiter_try_acquire t n" env rl]
    by (fastforce simp: RateLimiter_acquire_def)
qed

text \<open>A limiter refilled once per second, asked for more than it can hold, times out.\<close>

definition example_clock :: "nat \<Rightarrow> pass_clock" where
  "example_clock i = \<lparr>at_try = i * 100000000, at_check = i * 100000000, at_sleep = i * 100000000\<rparr>"

theorem rate_limiter_acquire_returns_witness:
  "\<exists>r sleeps rl'. RateLimiter_acquire 0 example_clock (\<lambda>_ rl. rl) (from_secs 5 div 100000000 + 2) 200 (from_secs 5)
      (RateLimiter_new 0) = Some (Returned r, sleeps, rl') \<and>
    (r = Inr True \<or> r = Inl Timeout) \<and> sum_list sleeps \<le> from_secs 5"
proof (rule rate_limiter_acquire_returns)
  show "pass_clock_laws (rl_config (RateLimiter_new 0)) 0 (0 + from_secs 5) example_clock"
    by (auto simp: pass_clock_laws_def example_clock_def sleep_of_def wait_time_def RateLimiter_new_def
        RateLimiter_with_config_def config_defs from_secs_def elapsed_def split: if_splits)
qed (simp_all add: wait_time_def RateLimiter_new_def RateLimiter_with_config_def config_defs from_secs_def)

text \<open>
  The wait time divides the interval by the low 32 bits of the refill amount: for an
  amount of zero (a budget that is never refilled) or a multiple of \<open>2 ^ 32\<close>, \<open>acquire\<close> panics
  as soon as it has to wait, instead of timing out.
\<close>

theorem rate_limiter_acquire_panics:
  assumes "unat (refill_amount (rl_config rl)) mod 2 ^ 32 = 0"
    and "\<not> fst (RateLimiter_try_acquire (at_try (clock 0)) n (env 0 rl))" "at_check (clock 0) < now + timeout"
  shows "\<exists>rl'. RateLimiter_acquire now clock env (Suc fuel) n timeout rl =
    Some (Panicked ''divide by zero error when dividing duration by scalar'', [], rl')"
proof -
  have "(ucast (refill_amount (rl_config rl)) :: u32) = 0"
    using assms(1) by (simp add: word_eq_iff_unsigned unsigned_ucast_eq take_bit_eq_mod flip: unat_eq_zero)
  then have "wait_time (rl_config rl) = None" by (simp add: wait_time_def)
  then show ?thesis using assms(2,3)
    by (simp add: RateLimiter_acquire_def sleep_of_def split_beta Let_def)
qed

lemma try_acquire_over_capacity:
  assumes "rate_limiter_ok rl" "u64_value (rl_capacity (rl_config rl)) < u64_value n"
  shows "\<not> fst (RateLimiter_try_acquire now n rl)"
  using assms by (auto simp: rate_limiter_ok_def intro: try_acquire_cases [of rl now n])

definition fixed_budget :: RateLimiterConfig where
  "fixed_budget = RateLimiterConfig_with_refill_amount 0 RateLimiterConfig_new"

theorem rate_limiter_acquire_panics_witness:
  "\<exists>rl'. RateLimiter_acquire 0 example_clock (\<lambda>_ rl. rl) 1 200 (from_secs 5) (RateLimiter_with_config 0 fixed_budget) =
    Some (Panicked ''divide by zero error when dividing duration by scalar'', [], rl')"
proof -
  have "\<not> fst (RateLimiter_try_acquire 0 200 (RateLimiter_with_config 0 fixed_budget))"
    by (intro try_acquire_over_capacity with_config_ok)
      (simp add: RateLimiter_with_config_def fixed_budget_def config_defs u64_value_exact)
  then show ?thesis
    using rate_limiter_acquire_panics [of "RateLimiter_with_config 0 fixed_budget" example_clock 200 "\<lambda>_ rl. rl" 0 "from_secs 5" 0]
    by (simp add: RateLimiter_with_config_def fixed_budget_def config_defs example_clock_def from_secs_def)
qed

section \<open>The limiters of a keyed limiter are independent\<close>

text \<open>
  The atomic steps of the tasks that use a keyed limiter: \<open>try_acquire\<close> under the read lock and
  under the write lock, the entry of \<open>acquire\<close>, a pass of its loop on the limiter it refers to,
  and the two removals.
\<close>

datatype 'k krl_event =
    ReadTry instant 'k u64
  | WriteTry instant instant 'k u64
  | EnterKey instant 'k
  | TryAt instant nat u64
  | RemoveKey 'k
  | ClearKeys

fun krl_apply :: "'k krl_event \<Rightarrow> 'k KeyedRateLimiter \<Rightarrow> 'k KeyedRateLimiter" where
  "krl_apply (ReadTry now key n) k =
     (case map_of (krl_limiters k) key of Some a \<Rightarrow> snd (KeyedRateLimiter_try_at now a n k) | None \<Rightarrow> k)"
| "krl_apply (WriteTry created now key n) k =
     (let (a, k) = KeyedRateLimiter_entry created key k in snd (KeyedRateLimiter_try_at now a n k))"
| "krl_apply (EnterKey created key) k = snd (KeyedRateLimiter_entry created key k)"
| "krl_apply (TryAt now a n) k =
     (if a < length (krl_store k) then snd (KeyedRateLimiter_try_at now a n k) else k)"
| "krl_apply (RemoveKey key) k = KeyedRateLimiter_remove_key key k"
| "krl_apply ClearKeys k = KeyedRateLimiter_clear k"

text \<open>The calls a step makes on the limiter at address \<open>a\<close>, and those of a sequence of steps.\<close>

fun calls_at :: "nat \<Rightarrow> 'k krl_event \<Rightarrow> 'k KeyedRateLimiter \<Rightarrow> (instant \<times> u64) list" where
  "calls_at a (ReadTry now key n) k = (if map_of (krl_limiters k) key = Some a then [(now, n)] else [])"
| "calls_at a (WriteTry created now key n) k =
     (if fst (KeyedRateLimiter_entry created key k) = a then [(now, n)] else [])"
| "calls_at a (TryAt now b n) k = (if b = a then [(now, n)] else [])"
| "calls_at a _ k = []"

fun history :: "nat \<Rightarrow> 'k krl_event list \<Rightarrow> 'k KeyedRateLimiter \<Rightarrow> (instant \<times> u64) list" where
  "history a [] k = []"
| "history a (e # es) k = calls_at a e k @ history a es (krl_apply e k)"

text \<open>Each key has a limiter of its own in the store, and each limiter is well-formed.\<close>

definition krl_ok :: "'k KeyedRateLimiter \<Rightarrow> bool" where
  "krl_ok k \<longleftrightarrow>
     distinct (map fst (krl_limiters k)) \<and> distinct (map snd (krl_limiters k)) \<and>
     (\<forall>a \<in> set (map snd (krl_limiters k)). a < length (krl_store k)) \<and>
     (\<forall>rl \<in> set (krl_store k). rl_config rl = krl_config k \<and> rate_limiter_ok rl)"

lemma krl_ok_new: "krl_ok (KeyedRateLimiter_new config)"
  by (simp add: krl_ok_def KeyedRateLimiter_new_def)

lemma known_address:
  "krl_ok k \<Longrightarrow> map_of (krl_limiters k) key = Some a \<Longrightarrow> a < length (krl_store k)"
  by (force simp: krl_ok_def dest: map_of_SomeD)

lemma try_at_store [simp]:
  "krl_store (snd (KeyedRateLimiter_try_at now a n k)) =
     (krl_store k)[a := snd (RateLimiter_try_acquire now n (krl_store k ! a))]"
  "krl_limiters (snd (KeyedRateLimiter_try_at now a n k)) = krl_limiters k"
  "krl_config (snd (KeyedRateLimiter_try_at now a n k)) = krl_config k"
  "fst (KeyedRateLimiter_try_at now a n k) = fst (RateLimiter_try_acquire now n (krl_store k ! a))"
  by (simp_all add: KeyedRateLimiter_try_at_def split_beta Let_def)

lemma try_at_ok:
  assumes "krl_ok k" "a < length (krl_store k)"
  shows "krl_ok (snd (KeyedRateLimiter_try_at now a n k))"
proof -
  have "rl_config (krl_store k ! a) = krl_config k" "rate_limiter_ok (krl_store k ! a)"
    using assms by (simp_all add: krl_ok_def)
  then show ?thesis using assms try_acquire_ok [of "krl_store k ! a" now n]
    by (auto simp: krl_ok_def dest!: set_update_subset_insert [THEN subsetD])
qed

lemma entry_ok:
  assumes "krl_ok k"
  shows "krl_ok (snd (KeyedRateLimiter_entry now key k))"
    and "fst (KeyedRateLimiter_entry now key k) < length (krl_store (snd (KeyedRateLimiter_entry now key k)))"
    and "length (krl_store k) \<le> length (krl_store (snd (KeyedRateLimiter_entry now key k)))"
    and "a < length (krl_store k) \<Longrightarrow> krl_store (snd (KeyedRateLimiter_entry now key k)) ! a = krl_store k ! a"
proof -
  show "krl_ok (snd (KeyedRateLimiter_entry now key k))"
  proof (cases "map_of (krl_limiters k) key")
    case None
    then have "key \<notin> set (map fst (krl_limiters k))" by (simp add: map_of_eq_None_iff)
    moreover have "length (krl_store k) \<notin> set (map snd (krl_limiters k))" using assms by (auto simp: krl_ok_def)
    moreover have "rl_config (RateLimiter_with_config now (krl_config k)) = krl_config k"
      by (simp add: RateLimiter_with_config_def)
    ultimately show ?thesis using assms None with_config_ok [of now "krl_config k"]
      by (auto simp: KeyedRateLimiter_entry_def krl_ok_def Let_def less_Suc_eq)
  qed (use assms in \<open>simp add: KeyedRateLimiter_entry_def\<close>)
qed (use known_address [OF assms] in \<open>auto simp: KeyedRateLimiter_entry_def Let_def nth_append split: option.splits\<close>)

lemma remove_key_ok: "krl_ok k \<Longrightarrow> krl_ok (KeyedRateLimiter_remove_key key k)"
  by (auto simp: krl_ok_def KeyedRateLimiter_remove_key_def distinct_map intro: inj_on_subset)

lemma clear_ok: "krl_ok k \<Longrightarrow> krl_ok (KeyedRateLimiter_clear k)"
  by (simp add: krl_ok_def KeyedRateLimiter_clear_def)

lemma krl_apply_ok: "krl_ok k \<Longrightarrow> krl_ok (krl_apply e k)"
  by (cases e)
    (simp_all add: try_at_ok entry_ok known_address remove_key_ok clear_ok split_beta Let_def split: option.splits)

interpretation krl: event_system krl_apply krl_ok
  by unfold_locales (rule krl_apply_ok)

lemma krl_apply_store:
  assumes "krl_ok k" "a < length (krl_store k)"
  shows "krl_store (krl_apply e k) ! a = snd (grant_calls RateLimiter_try_acquire (calls_at a e k) (krl_store k ! a))"
    and "a < length (krl_store (krl_apply e k))"
proof -
  show "a < length (krl_store (krl_apply e k))"
    using assms entry_ok(3) [OF assms(1)]
    by (cases e)
      (auto simp: split_beta Let_def KeyedRateLimiter_remove_key_def KeyedRateLimiter_clear_def
        intro: less_le_trans split: option.splits)
  show "krl_store (krl_apply e k) ! a = snd (grant_calls RateLimiter_try_acquire (calls_at a e k) (krl_store k ! a))"
    using assms known_address [OF assms(1)] entry_ok(2,4) [OF assms(1)]
    by (cases e)
      (auto simp: split_beta Let_def nth_list_update KeyedRateLimiter_remove_key_def KeyedRateLimiter_clear_def
        split: option.splits)
qed

lemma grant_calls_append:
  "snd (grant_calls try_acquire (cs @ ds) l) = snd (grant_calls try_acquire ds (snd (grant_calls try_acquire cs l)))"
  by (induction cs arbitrary: l) (auto simp: split_beta Let_def)

lemma krl_run_store:
  assumes "krl_ok k" "a < length (krl_store k)"
  shows "krl_store (fold krl_apply es k) ! a =
    snd (grant_calls RateLimiter_try_acquire (history a es k) (krl_store k ! a))"
  using assms
proof (induction es arbitrary: k)
  case (Cons e es)
  then show ?case using krl_apply_ok [of k e] krl_apply_store [of k a e] by (simp add: grant_calls_append)
qed simp

lemma krl_apply_config: "krl_config (krl_apply e k) = krl_config k"
  by (cases e)
    (simp_all add: split_beta Let_def KeyedRateLimiter_entry_def KeyedRateLimiter_remove_key_def
      KeyedRateLimiter_clear_def split: option.splits)

lemma krl_run_config: "krl_config (fold krl_apply es k) = krl_config k"
  by (induction es arbitrary: k) (simp_all add: krl_apply_config)

text \<open>The steps of \<open>try_acquire\<close>, with other tasks between its two locks.\<close>

lemma keyed_try_acquire_steps:
  "snd (KeyedRateLimiter_try_acquire (fold krl_apply es) created now key n k) =
     (if map_of (krl_limiters k) key = None
      then fold krl_apply (es @ [WriteTry created now key n]) k
      else krl_apply (ReadTry now key n) k)"
  by (auto simp: KeyedRateLimiter_try_acquire_def split_beta Let_def split: option.splits)

lemma krl_run_length:
  "krl_ok k \<Longrightarrow> a < length (krl_store k) \<Longrightarrow> a < length (krl_store (fold krl_apply es k))"
  by (induction es arbitrary: k) (auto simp: krl_apply_ok krl_apply_store(2))

text \<open>The passes of \<open>acquire\<close>, with other tasks between them.\<close>

lemma acquire_loop_steps:
  assumes "acquire_loop (\<lambda>t. KeyedRateLimiter_try_at t a n) config clock (\<lambda>i. fold krl_apply (es i)) deadline i fuel k =
      Some (r, sleeps, k')" "krl_ok k" "a < length (krl_store k)"
  shows "\<exists>evs. k' = fold krl_apply evs k"
  using assms
proof (induction fuel arbitrary: i k r sleeps)
  case (Suc fuel)
  let ?evs = "es i @ [TryAt (at_try (clock i)) a n]"
  obtain g k1 where k1: "KeyedRateLimiter_try_at (at_try (clock i)) a n (fold krl_apply (es i) k) = (g, k1)" by fastforce
  have run: "k1 = fold krl_apply ?evs k"
    using k1 krl_run_length [OF Suc.prems(2,3), of "es i"] by (auto dest: arg_cong [where f = snd])
  have "krl_ok k1" "a < length (krl_store k1)"
    unfolding run using Suc.prems(2,3) by (auto simp only: krl.run_inv krl_run_length)
  note IH = Suc.IH [OF _ this]
  have "k' = k1 \<or> (\<exists>r sleeps. acquire_loop (\<lambda>t. KeyedRateLimiter_try_at t a n) config clock
      (\<lambda>i. fold krl_apply (es i)) deadline (Suc i) fuel k1 = Some (r, sleeps, k'))"
    using Suc.prems(1) by (auto simp: k1 split: if_splits option.splits)
  then obtain evs where "k' = fold krl_apply evs k1" using IH by (metis fold_simps(1))
  then have "k' = fold krl_apply (?evs @ evs) k" by (simp only: run fold_append o_apply)
  then show ?case by blast
qed simp

text \<open>
  C23. A keyed limiter behaves as one independent limiter per key. After any interleaving of
  the tasks that use it from its creation on, the limiter of a known key is the result of
  running exactly the calls made on it, in their order, on a limiter of its own; two keys
  never share one; and a call of \<open>try_acquire\<close> for a key answers what that limiter, or a
  fresh one for an unknown key, answers.
\<close>

theorem keyed_limiters_independent:
  assumes "k = fold krl_apply es (KeyedRateLimiter_new config)"
  shows "case map_of (krl_limiters k) key of
      Some a \<Rightarrow>
        fst (KeyedRateLimiter_try_acquire env created now key n k) =
          fst (RateLimiter_try_acquire now n (krl_store k ! a)) \<and>
        krl_store (fold krl_apply es' k) ! a =
          snd (grant_calls RateLimiter_try_acquire (history a es' k) (krl_store k ! a)) \<and>
        (\<forall>key'. map_of (krl_limiters k) key' = Some a \<longleftrightarrow> key' = key)
    | None \<Rightarrow>
        fst (KeyedRateLimiter_try_acquire id created now key n k) =
          fst (RateLimiter_try_acquire now n (RateLimiter_with_config created config))"
proof -
  have ok: "krl_ok k" unfolding assms by (rule krl.run_inv [OF krl_ok_new])
  have cfg: "krl_config k = config"
    unfolding assms krl_run_config by (simp add: KeyedRateLimiter_new_def)
  show ?thesis
  proof (cases "map_of (krl_limiters k) key")
    case None
    then show ?thesis
      by (simp add: KeyedRateLimiter_try_acquire_def KeyedRateLimiter_entry_def Let_def cfg)
  next
    case (Some a)
    have "inj_on snd (set (krl_limiters k))" using ok by (simp add: krl_ok_def distinct_map)
    then have uniq: "map_of (krl_limiters k) key' = Some a \<longleftrightarrow> key' = key" for key'
      using Some inj_onD [of snd "set (krl_limiters k)" "(key', a)" "(key, a)"] by (auto dest: map_of_SomeD)
    have "fst (KeyedRateLimiter_try_acquire env created now key n k) =
        fst (RateLimiter_try_acquire now n (krl_store k ! a))"
      by (simp add: KeyedRateLimiter_try_acquire_def Some)
    then show ?thesis unfolding Some option.case
      using krl_run_store [OF ok known_address [OF ok Some]] uniq by (intro conjI allI)
  qed
qed

text \<open>Two keys and a removal: the key that stays keeps its limiter.\<close>

theorem keyed_limiters_independent_witness:
  "map_of (krl_limiters (fold krl_apply [WriteTry 0 1 ''a'' 5, WriteTry 2 3 ''b'' 4] (KeyedRateLimiter_new RateLimiterConfig_default))) ''a'' = Some 0 \<and>
   krl_store (fold krl_apply [RemoveKey ''b'', ReadTry 7 ''a'' 2, WriteTry 8 9 ''b'' 1]
      (fold krl_apply [WriteTry 0 1 ''a'' 5, WriteTry 2 3 ''b'' 4] (KeyedRateLimiter_new RateLimiterConfig_default))) ! 0 =
     snd (grant_calls RateLimiter_try_acquire [(7, 2)]
       (krl_store (fold krl_apply [WriteTry 0 1 ''a'' 5, WriteTry 2 3 ''b'' 4] (KeyedRateLimiter_new RateLimiterConfig_default)) ! 0))"
proof -
  let ?k = "fold krl_apply [WriteTry 0 1 ''a'' 5, WriteTry 2 3 ''b'' 4] (KeyedRateLimiter_new RateLimiterConfig_default)"
  let ?es = "[RemoveKey ''b'', ReadTry 7 ''a'' 2, WriteTry 8 9 ''b'' 1]"
  note eval = split_beta Let_def KeyedRateLimiter_entry_def KeyedRateLimiter_new_def KeyedRateLimiter_remove_key_def
  have a: "map_of (krl_limiters ?k) ''a'' = Some 0" by (simp add: eval)
  moreover have "history 0 ?es ?k = [(7, 2)]" by (simp add: eval)
  ultimately show ?thesis
    using keyed_limiters_independent [OF refl, where es = "[WriteTry 0 1 ''a'' 5, WriteTry 2 3 ''b'' 4]" and
        config = RateLimiterConfig_default and key = "''a''" and es' = ?es] by (simp only: option.case)
qed

end
