(* ===== verification/Load_Balancer.thy ===== *)
theory Load_Balancer
  imports Float64
begin

text \<open>
  The load balancer (\<open>src/pooling/load_balancer.rs\<close>): backends with health and request
  counters, four selection strategies, guards that count connections, and the health-check
  task. The reference-counted backend states are a store \<open>lb_store\<close>: the balancer and the
  guards refer to a state by its index, so a guard outlives the removal of its backend.
  The random number generator is the argument \<open>gen_range\<close>, where \<open>gen_range n\<close> is the drawn
  index below \<open>n\<close>; \<open>checks\<close> says whether the build has overflow checks for arithmetic.
\<close>

section \<open>Model\<close>

record Backend =
  address :: string
  weight :: u32

definition Backend_new :: "string \<Rightarrow> Backend" where
  "Backend_new addr = \<lparr>address = addr, weight = 1\<rparr>"

definition Backend_with_weight :: "string \<Rightarrow> u32 \<Rightarrow> Backend" where
  "Backend_with_weight addr w = \<lparr>address = addr, weight = w\<rparr>"

record HealthStatus =
  hs_healthy :: bool
  hs_last_check :: instant
  hs_consecutive_failures :: u32
  hs_total_requests :: u64
  hs_failed_requests :: u64

definition HealthStatus_new :: "instant \<Rightarrow> HealthStatus" where
  "HealthStatus_new now =
     \<lparr>hs_healthy = True, hs_last_check = now, hs_consecutive_failures = 0,
      hs_total_requests = 0, hs_failed_requests = 0\<rparr>"

definition HealthStatus_error_rate :: "HealthStatus \<Rightarrow> f64" where
  "HealthStatus_error_rate h =
     (if hs_total_requests h = 0 then Fin 0
      else f64_div (f64_of_nat (unat (hs_failed_requests h))) (f64_of_nat (unat (hs_total_requests h))))"

record BackendState =
  backend :: Backend
  healthy :: bool
  active_connections :: usize
  total_requests :: u64
  failed_requests :: u64
  consecutive_failures :: u32
  last_check :: instant

definition BackendState_new :: "instant \<Rightarrow> Backend \<Rightarrow> BackendState" where
  "BackendState_new now b =
     \<lparr>backend = b, healthy = True, active_connections = 0, total_requests = 0, failed_requests = 0,
      consecutive_failures = 0, last_check = now\<rparr>"

definition BackendState_is_healthy :: "BackendState \<Rightarrow> bool" where
  "BackendState_is_healthy s = healthy s"

definition BackendState_mark_healthy :: "instant \<Rightarrow> BackendState \<Rightarrow> BackendState" where
  "BackendState_mark_healthy now s = s\<lparr>healthy := True, consecutive_failures := 0, last_check := now\<rparr>"

definition BackendState_mark_unhealthy :: "instant \<Rightarrow> BackendState \<Rightarrow> BackendState" where
  "BackendState_mark_unhealthy now s = s\<lparr>healthy := False, last_check := now\<rparr>"

definition BackendState_record_request :: "bool \<Rightarrow> BackendState \<Rightarrow> BackendState" where
  "BackendState_record_request success s =
     (let s = s\<lparr>total_requests := total_requests s + 1\<rparr> in
      if success then s\<lparr>consecutive_failures := 0\<rparr>
      else s\<lparr>failed_requests := failed_requests s + 1, consecutive_failures := consecutive_failures s + 1\<rparr>)"

definition BackendState_get_status :: "BackendState \<Rightarrow> HealthStatus" where
  "BackendState_get_status s =
     \<lparr>hs_healthy = BackendState_is_healthy s, hs_last_check = last_check s,
      hs_consecutive_failures = consecutive_failures s, hs_total_requests = total_requests s,
      hs_failed_requests = failed_requests s\<rparr>"

datatype Strategy = RoundRobin | LeastConnections | WeightedRoundRobin | Random

record HealthCheckConfig =
  hc_interval :: duration
  hc_timeout :: duration
  unhealthy_threshold :: u32
  healthy_threshold :: u32

definition HealthCheckConfig_default :: HealthCheckConfig where
  "HealthCheckConfig_default =
     \<lparr>hc_interval = from_secs 10, hc_timeout = from_secs 2, unhealthy_threshold = 3, healthy_threshold = 2\<rparr>"

record LoadBalancerConfig =
  strategy :: Strategy
  health_check :: "HealthCheckConfig option"

definition LoadBalancerConfig_default :: LoadBalancerConfig where
  "LoadBalancerConfig_default = \<lparr>strategy = RoundRobin, health_check = Some HealthCheckConfig_default\<rparr>"

definition LoadBalancerConfig_new :: "Strategy \<Rightarrow> LoadBalancerConfig" where
  "LoadBalancerConfig_new s = \<lparr>strategy = s, health_check = Some HealthCheckConfig_default\<rparr>"

definition LoadBalancerConfig_without_health_checks :: "LoadBalancerConfig \<Rightarrow> LoadBalancerConfig" where
  "LoadBalancerConfig_without_health_checks c = c\<lparr>health_check := None\<rparr>"

lemmas LoadBalancerConfig_defs [config_defs] =
  HealthCheckConfig_default_def LoadBalancerConfig_default_def LoadBalancerConfig_new_def
  LoadBalancerConfig_without_health_checks_def

type_synonym state_ref = nat

record LoadBalancer =
  lb_config :: LoadBalancerConfig
  lb_store :: "BackendState list"
  backends :: "state_ref list"
  round_robin_index :: usize

definition LoadBalancer_new :: "instant \<Rightarrow> LoadBalancerConfig \<Rightarrow> Backend list \<Rightarrow> LoadBalancer" where
  "LoadBalancer_new now config bs =
     \<lparr>lb_config = config, lb_store = map (BackendState_new now) bs, backends = [0..<length bs],
      round_robin_index = 0\<rparr>"

definition LoadBalancer_round_robin :: "instant \<Rightarrow> Backend list \<Rightarrow> LoadBalancer" where
  "LoadBalancer_round_robin now bs = LoadBalancer_new now (LoadBalancerConfig_new RoundRobin) bs"

definition LoadBalancer_least_connections :: "instant \<Rightarrow> Backend list \<Rightarrow> LoadBalancer" where
  "LoadBalancer_least_connections now bs = LoadBalancer_new now (LoadBalancerConfig_new LeastConnections) bs"

definition deref :: "LoadBalancer \<Rightarrow> state_ref \<Rightarrow> BackendState" where
  "deref lb r = lb_store lb ! r"

definition modify :: "state_ref \<Rightarrow> (BackendState \<Rightarrow> BackendState) \<Rightarrow> LoadBalancer \<Rightarrow> LoadBalancer" where
  "modify r f lb = lb\<lparr>lb_store := (lb_store lb)[r := f (lb_store lb ! r)]\<rparr>"

text \<open>\<open>slice.get(i)\<close>, and \<open>Iterator::min_by_key\<close>, which yields the first of the minimal elements.\<close>

definition slice_get :: "'a list \<Rightarrow> nat \<Rightarrow> 'a option" where
  "slice_get xs i = (if i < length xs then Some (xs ! i) else None)"

fun min_by_key :: "('a \<Rightarrow> 'k::linorder) \<Rightarrow> 'a list \<Rightarrow> 'a option" where
  "min_by_key f [] = None"
| "min_by_key f (x # xs) =
     (case min_by_key f xs of None \<Rightarrow> Some x | Some y \<Rightarrow> Some (if f x \<le> f y then x else y))"

definition LoadBalancer_select_round_robin :: "state_ref list \<Rightarrow> LoadBalancer \<Rightarrow> state_ref option \<times> LoadBalancer" where
  "LoadBalancer_select_round_robin bs lb =
     (let index = round_robin_index lb;
          lb = lb\<lparr>round_robin_index := round_robin_index lb + 1\<rparr>
      in (slice_get bs (unat index mod length bs), lb))"

definition LoadBalancer_select_least_connections :: "state_ref list \<Rightarrow> LoadBalancer \<Rightarrow> state_ref option" where
  "LoadBalancer_select_least_connections bs lb = min_by_key (\<lambda>b. active_connections (deref lb b)) bs"

text \<open>\<open>Iterator::sum\<close> of 32-bit weights: an overflow panics in a checked build and wraps otherwise.\<close>

definition sum_weights :: "bool \<Rightarrow> u32 list \<Rightarrow> u32 run" where
  "sum_weights checks ws =
     (if checks \<and> sum_list (map unat ws) \<ge> 2 ^ 32 then Panicked ''attempt to add with overflow''
      else Returned (sum_list ws))"

fun find_weighted :: "(state_ref \<Rightarrow> u32) \<Rightarrow> u32 \<Rightarrow> state_ref list \<Rightarrow> state_ref option" where
  "find_weighted w target [] = None"
| "find_weighted w target (b # bs) = (if target < w b then Some b else find_weighted w (target - w b) bs)"

definition LoadBalancer_select_weighted_round_robin ::
  "bool \<Rightarrow> state_ref list \<Rightarrow> LoadBalancer \<Rightarrow> state_ref option run \<times> LoadBalancer" where
  "LoadBalancer_select_weighted_round_robin checks bs lb =
     (let weight_of = (\<lambda>b. weight (backend (deref lb b))) in
      case sum_weights checks (map weight_of bs) of
        Panicked e \<Rightarrow> (Panicked e, lb)
      | Returned total_weight \<Rightarrow>
          let index = round_robin_index lb;
              lb = lb\<lparr>round_robin_index := round_robin_index lb + 1\<rparr>
          in if total_weight = 0
             then (Panicked ''attempt to calculate the remainder with a divisor of zero'', lb)
             else
               (case find_weighted weight_of (ucast index mod total_weight) bs of
                  Some b \<Rightarrow> (Returned (Some b), lb)
                | None \<Rightarrow> (Returned (slice_get bs 0), lb)))"

definition LoadBalancer_select_random :: "(nat \<Rightarrow> nat) \<Rightarrow> state_ref list \<Rightarrow> state_ref option" where
  "LoadBalancer_select_random gen_range bs = slice_get bs (gen_range (length bs))"

record BackendGuard =
  guard_backend :: Backend
  guard_state :: state_ref

definition healthy_backends :: "LoadBalancer \<Rightarrow> state_ref list" where
  "healthy_backends lb = filter (\<lambda>b. BackendState_is_healthy (deref lb b)) (backends lb)"

definition connect_backend :: "state_ref \<Rightarrow> LoadBalancer \<Rightarrow> LoadBalancer" where
  "connect_backend b = modify b (\<lambda>s. s\<lparr>active_connections := active_connections s + 1\<rparr>)"

text \<open>The \<open>match\<close> of \<open>select\<close> on the strategy.\<close>

definition LoadBalancer_choose ::
  "bool \<Rightarrow> (nat \<Rightarrow> nat) \<Rightarrow> state_ref list \<Rightarrow> LoadBalancer \<Rightarrow> state_ref option run \<times> LoadBalancer" where
  "LoadBalancer_choose checks gen_range bs lb =
     (case strategy (lb_config lb) of
        RoundRobin \<Rightarrow> (let (s, lb) = LoadBalancer_select_round_robin bs lb in (Returned s, lb))
      | LeastConnections \<Rightarrow> (Returned (LoadBalancer_select_least_connections bs lb), lb)
      | WeightedRoundRobin \<Rightarrow> LoadBalancer_select_weighted_round_robin checks bs lb
      | Random \<Rightarrow> (Returned (LoadBalancer_select_random gen_range bs), lb))"

definition LoadBalancer_select ::
  "bool \<Rightarrow> (nat \<Rightarrow> nat) \<Rightarrow> LoadBalancer \<Rightarrow> BackendGuard option run \<times> LoadBalancer" where
  "LoadBalancer_select checks gen_range lb =
     (if backends lb = [] then (Returned None, lb)
      else if healthy_backends lb = [] then (Returned None, lb)
      else
        let (selected, lb) = LoadBalancer_choose checks gen_range (healthy_backends lb) lb in
        (case selected of
           Panicked e \<Rightarrow> (Panicked e, lb)
         | Returned None \<Rightarrow> (Returned None, lb)
         | Returned (Some b) \<Rightarrow>
             (Returned (Some \<lparr>guard_backend = backend (deref lb b), guard_state = b\<rparr>), connect_backend b lb)))"

definition LoadBalancer_add_backend :: "instant \<Rightarrow> Backend \<Rightarrow> LoadBalancer \<Rightarrow> LoadBalancer" where
  "LoadBalancer_add_backend now b lb =
     lb\<lparr>lb_store := lb_store lb @ [BackendState_new now b], backends := backends lb @ [length (lb_store lb)]\<rparr>"

definition LoadBalancer_remove_backend :: "string \<Rightarrow> LoadBalancer \<Rightarrow> LoadBalancer" where
  "LoadBalancer_remove_backend addr lb =
     lb\<lparr>backends := filter (\<lambda>b. address (backend (deref lb b)) \<noteq> addr) (backends lb)\<rparr>"

definition LoadBalancer_health_statuses :: "LoadBalancer \<Rightarrow> (Backend \<times> HealthStatus) list" where
  "LoadBalancer_health_statuses lb =
     map (\<lambda>b. (backend (deref lb b), BackendState_get_status (deref lb b))) (backends lb)"

definition LoadBalancer_backend_count :: "LoadBalancer \<Rightarrow> nat" where
  "LoadBalancer_backend_count lb = length (backends lb)"

definition LoadBalancer_healthy_backend_count :: "LoadBalancer \<Rightarrow> nat" where
  "LoadBalancer_healthy_backend_count lb =
     length (filter (\<lambda>b. BackendState_is_healthy (deref lb b)) (backends lb))"

definition LoadBalancer_set_backend_health :: "instant \<Rightarrow> string \<Rightarrow> bool \<Rightarrow> LoadBalancer \<Rightarrow> LoadBalancer" where
  "LoadBalancer_set_backend_health now addr is_healthy lb =
     (case find (\<lambda>b. address (backend (deref lb b)) = addr) (backends lb) of
        Some b \<Rightarrow>
          if is_healthy then modify b (BackendState_mark_healthy now) lb
          else modify b (BackendState_mark_unhealthy now) lb
      | None \<Rightarrow> lb)"

text \<open>
  What the spawned probe of one backend does with the answer of the check function. A round
  of the task takes a snapshot of the backends and probes each of them; without a
  health-check configuration the task ends at once.
\<close>

definition health_probe :: "instant \<Rightarrow> u32 \<Rightarrow> bool \<Rightarrow> state_ref \<Rightarrow> LoadBalancer \<Rightarrow> LoadBalancer" where
  "health_probe now threshold is_healthy b lb =
     (if is_healthy then modify b (BackendState_mark_healthy now) lb
      else if consecutive_failures (deref lb b) \<ge> threshold then modify b (BackendState_mark_unhealthy now) lb
      else lb)"

definition LoadBalancer_health_check_tick :: "instant \<Rightarrow> (Backend \<Rightarrow> bool) \<Rightarrow> LoadBalancer \<Rightarrow> LoadBalancer" where
  "LoadBalancer_health_check_tick now check_fn lb =
     (case health_check (lb_config lb) of
        Some config \<Rightarrow>
          fold (\<lambda>b lb. health_probe now (unhealthy_threshold config) (check_fn (backend (deref lb b))) b lb)
            (backends lb) lb
      | None \<Rightarrow> lb)"

definition BackendGuard_address :: "BackendGuard \<Rightarrow> string" where
  "BackendGuard_address g = address (guard_backend g)"

definition BackendGuard_record_success :: "BackendGuard \<Rightarrow> LoadBalancer \<Rightarrow> LoadBalancer" where
  "BackendGuard_record_success g = modify (guard_state g) (BackendState_record_request True)"

definition BackendGuard_record_failure :: "BackendGuard \<Rightarrow> LoadBalancer \<Rightarrow> LoadBalancer" where
  "BackendGuard_record_failure g = modify (guard_state g) (BackendState_record_request False)"

definition BackendGuard_drop :: "BackendGuard \<Rightarrow> LoadBalancer \<Rightarrow> LoadBalancer" where
  "BackendGuard_drop g = modify (guard_state g) (\<lambda>s. s\<lparr>active_connections := active_connections s - 1\<rparr>)"

section \<open>The error rate\<close>

text \<open>The error rate is a number between zero and one when no more requests failed than were made.\<close>

lemma error_rate_bounds:
  assumes "hs_failed_requests h \<le> hs_total_requests h"
  shows "\<exists>r. HealthStatus_error_rate h = Fin r \<and> 0 \<le> r \<and> r \<le> 1"
proof (cases "hs_total_requests h = 0")
  case False
  let ?x = "u64_value (hs_failed_requests h)" and ?y = "u64_value (hs_total_requests h)"
  have y: "1 \<le> ?y" using False by (intro u64_value_pos) (simp add: word_greater_zero_iff)
  have q: "0 \<le> ?x / ?y" "?x / ?y \<le> 2 ^ 0"
    using y u64_value_mono [OF assms] u64_value_bounds(1) [of "hs_failed_requests h"] by simp_all
  have "HealthStatus_error_rate h = Fin (magnitude (?x / ?y))"
    using f64_round_Fin [OF q] y False by (simp add: HealthStatus_error_rate_def f64_of_u64)
  then show ?thesis using magnitude_nonneg [OF q(1)] magnitude_le_power [OF q] by simp
qed (simp add: HealthStatus_error_rate_def)

section \<open>Selection\<close>

lemma min_by_key_None: "min_by_key f xs = None \<longleftrightarrow> xs = []"
  by (cases xs) (auto split: option.splits)

lemma min_by_key_min:
  "min_by_key f xs = Some x \<Longrightarrow> x \<in> set xs \<and> (\<forall>y \<in> set xs. f x \<le> f y)"
  by (induction xs arbitrary: x) (auto simp: min_by_key_None split: option.splits if_splits)

lemma min_by_key_Some: "xs \<noteq> [] \<Longrightarrow> \<exists>x. min_by_key f xs = Some x"
  by (cases xs) (auto split: option.splits)

lemma find_weighted_mem: "find_weighted w t bs = Some b \<Longrightarrow> b \<in> set bs"
  by (induction bs arbitrary: t) (auto split: if_splits)

lemma slice_get_mem: "slice_get xs i = Some x \<Longrightarrow> x \<in> set xs"
  by (auto simp: slice_get_def split: if_splits)

lemma choose_frame:
  assumes "LoadBalancer_choose checks gen_range bs lb = (r, lb')"
  shows "lb_store lb' = lb_store lb \<and> backends lb' = backends lb \<and> lb_config lb' = lb_config lb"
  using assms
  by (cases "strategy (lb_config lb)")
     (auto simp: LoadBalancer_choose_def LoadBalancer_select_round_robin_def
        LoadBalancer_select_weighted_round_robin_def Let_def split: run.splits option.splits if_splits)

lemma choose_mem:
  assumes "LoadBalancer_choose checks gen_range bs lb = (Returned (Some b), lb')"
  shows "b \<in> set bs"
  using assms
  by (cases "strategy (lb_config lb)")
     (auto simp: LoadBalancer_choose_def LoadBalancer_select_round_robin_def LoadBalancer_select_random_def
        LoadBalancer_select_least_connections_def LoadBalancer_select_weighted_round_robin_def Let_def
        dest: find_weighted_mem slice_get_mem min_by_key_min split: run.splits option.splits if_splits)

lemma deref_modify:
  "r < length (lb_store lb) \<Longrightarrow> deref (modify r f lb) q = (if q = r then f (deref lb r) else deref lb q)"
  by (simp add: deref_def modify_def nth_list_update)

lemma modify_frame [simp]:
  "backends (modify r f lb) = backends lb" "lb_config (modify r f lb) = lb_config lb"
  "round_robin_index (modify r f lb) = round_robin_index lb" "length (lb_store (modify r f lb)) = length (lb_store lb)"
  by (simp_all add: modify_def)

lemma deref_connect [simp]:
  "healthy (deref (connect_backend r lb) q) = healthy (deref lb q)"
  "backend (deref (connect_backend r lb) q) = backend (deref lb q)"
  by (cases "r < length (lb_store lb)"; simp add: connect_backend_def modify_def deref_def nth_list_update
        list_update_beyond)+

lemma connect_frame [simp]:
  "backends (connect_backend r lb) = backends lb" "lb_config (connect_backend r lb) = lb_config lb"
  "round_robin_index (connect_backend r lb) = round_robin_index lb"
  by (simp_all add: connect_backend_def)

lemma healthy_connect [simp]: "healthy_backends (connect_backend r lb) = healthy_backends lb"
  by (simp add: healthy_backends_def BackendState_is_healthy_def)

lemma healthy_frame:
  "lb_store lb' = lb_store lb \<Longrightarrow> backends lb' = backends lb \<Longrightarrow> healthy_backends lb' = healthy_backends lb"
  by (simp add: healthy_backends_def deref_def)

text \<open>The reference that a selection returns.\<close>

definition selected_ref :: "BackendGuard option run \<Rightarrow> state_ref option" where
  "selected_ref r = (case r of Returned (Some g) \<Rightarrow> Some (guard_state g) | _ \<Rightarrow> None)"

lemma selected_ref_Some [simp]: "selected_ref (Returned (Some g)) = Some (guard_state g)"
  by (simp add: selected_ref_def)

text \<open>The results of \<open>n\<close> calls in a row.\<close>

fun repeat_op :: "('s \<Rightarrow> 'r \<times> 's) \<Rightarrow> nat \<Rightarrow> 's \<Rightarrow> 'r list \<times> 's" where
  "repeat_op f 0 s = ([], s)"
| "repeat_op f (Suc n) s = (let (r, s) = f s; (rs, s) = repeat_op f n s in (r # rs, s))"

lemma select_healthy:
  assumes "fst (LoadBalancer_select checks gen_range l) = Returned (Some g)"
  shows "guard_state g \<in> set (backends l) \<and> healthy (deref l (guard_state g)) \<and>
    guard_backend g = backend (deref l (guard_state g))"
proof -
  obtain c l' where choose: "LoadBalancer_choose checks gen_range (healthy_backends l) l = (c, l')" by fastforce
  with assms obtain b where b: "c = Returned (Some b)" and g: "g = \<lparr>guard_backend = backend (deref l' b), guard_state = b\<rparr>"
    by (auto simp: LoadBalancer_select_def split: if_splits run.splits option.splits)
  have "b \<in> set (healthy_backends l)" using choose b choose_mem by blast
  with g choose_frame [OF choose] show ?thesis
    by (simp add: healthy_backends_def BackendState_is_healthy_def deref_def)
qed

lemma choose_not_none:
  assumes "bs \<noteq> []" "\<And>n. 0 < n \<Longrightarrow> gen_range n < n"
  shows "fst (LoadBalancer_choose checks gen_range bs l) \<noteq> Returned None"
  using assms min_by_key_Some [OF assms(1), of "\<lambda>b. active_connections (deref l b)"]
  by (cases "strategy (lb_config l)")
     (auto simp: LoadBalancer_choose_def LoadBalancer_select_round_robin_def LoadBalancer_select_random_def
        LoadBalancer_select_least_connections_def LoadBalancer_select_weighted_round_robin_def slice_get_def Let_def
        split: run.splits option.splits)

lemma select_none:
  assumes "\<And>n. 0 < n \<Longrightarrow> gen_range n < n"
  shows "fst (LoadBalancer_select checks gen_range l) = Returned None \<longleftrightarrow> healthy_backends l = []"
  using choose_not_none [OF _ assms, of "healthy_backends l" checks l]
  by (auto simp: LoadBalancer_select_def healthy_backends_def split: run.splits option.splits prod.splits)

subsection \<open>Counting cyclic selections\<close>

lemma count_list_rotate1: "count_list (rotate1 xs) x = count_list xs x"
  by (cases xs) auto

lemma count_list_rotate: "count_list (rotate n xs) x = count_list xs x"
  by (induction n) (simp_all add: count_list_rotate1)

lemma cycle_block:
  "xs \<noteq> [] \<Longrightarrow> map (\<lambda>i. xs ! ((a + i) mod length xs)) [0..<length xs] = rotate a xs"
  by (rule nth_equalityI) (simp_all add: nth_rotate)

lemma count_list_cycle:
  assumes "xs \<noteq> []"
  shows "count_list (map (\<lambda>i. xs ! ((a + i) mod length xs)) [0..<k * length xs]) x = k * count_list xs x"
proof (induction k)
  case (Suc k)
  let ?n = "length xs"
  let ?f = "\<lambda>i. xs ! ((a + i) mod ?n)"
  have "[0..<Suc k * ?n] = [0..<k * ?n] @ map (\<lambda>i. i + k * ?n) [0..<?n]"
    using upt_add_eq_append [of 0 "k * ?n" ?n] by (simp add: map_add_upt add.commute)
  then have "map ?f [0..<Suc k * ?n] = map ?f [0..<k * ?n] @ map (\<lambda>i. ?f (i + k * ?n)) [0..<?n]"
    by (simp add: comp_def)
  moreover have "?f (i + k * ?n) = ?f i" for i
    using mod_mult_self1 [of "a + i" k ?n] by (simp add: add.assoc)
  ultimately show ?case
    using Suc cycle_block [OF assms, of a] by (simp add: count_list_rotate)
qed simp

text \<open>
  A selector that walks through a table cyclically: call number \<open>i\<close> answers with the entry
  at the position of the first call plus \<open>i\<close>, modulo the length of the table, as long as
  the position stays below the limit at which the counter wraps.
\<close>

locale rotation =
  fixes select :: "'s \<Rightarrow> 'r \<times> 's"
    and ok :: "'s \<Rightarrow> bool"
    and position :: "'s \<Rightarrow> nat"
    and limit :: nat
    and ref :: "'r \<Rightarrow> 'x"
    and table :: "'x list"
  assumes select_next:
    "ok s \<Longrightarrow> select s = (r, s') \<Longrightarrow>
     ref r = table ! (position s mod length table) \<and> ok s' \<and>
     (Suc (position s) < limit \<longrightarrow> position s' = Suc (position s))"
begin

lemma select_cycle:
  "ok s \<Longrightarrow> position s + n \<le> limit \<Longrightarrow>
   map ref (fst (repeat_op select n s)) = map (\<lambda>i. table ! ((position s + i) mod length table)) [0..<n]"
proof (induction n arbitrary: s)
  case (Suc n)
  obtain r s' where sel: "select s = (r, s')" by fastforce
  note nxt = select_next [OF Suc.prems(1) sel]
  have "map ref (fst (repeat_op select n s')) =
      map (\<lambda>i. table ! ((position s + Suc i) mod length table)) [0..<n]"
    using Suc nxt by (cases n) (simp_all del: upt_Suc repeat_op.simps(2))
  then show ?case
    using sel nxt by (simp add: case_prod_beta upt_conv_Cons map_Suc_upt [symmetric] comp_def del: upt_Suc map_Suc_upt)
qed simp

lemma select_fair:
  assumes "ok s" "table \<noteq> []" "position s + k * length table \<le> limit"
  shows "count_list (map ref (fst (repeat_op select (k * length table) s))) x = k * count_list table x"
  unfolding select_cycle [OF assms(1,3)] by (rule count_list_cycle [OF assms(2)])

end

lemma count_list_distinct: "distinct xs \<Longrightarrow> count_list xs x = (if x \<in> set xs then 1 else 0)"
  by (induction xs) auto

lemma count_list_Some: "count_list (map Some xs) (Some x) = count_list xs x"
  by (induction xs) auto

subsection \<open>Round robin\<close>

lemma word_succ_unat: "Suc (unat (w :: u64)) < 2 ^ 64 \<Longrightarrow> unat (w + 1) = Suc (unat w)"
  by (simp add: unat_word_ariths)

lemma select_round_robin:
  assumes "strategy (lb_config lb) = RoundRobin" "healthy_backends lb \<noteq> []"
  shows "\<exists>lb' g. LoadBalancer_select checks gen_range lb = (Returned (Some g), lb') \<and>
    guard_state g = healthy_backends lb ! (unat (round_robin_index lb) mod length (healthy_backends lb)) \<and>
    round_robin_index lb' = round_robin_index lb + 1 \<and> lb_config lb' = lb_config lb \<and>
    healthy_backends lb' = healthy_backends lb"
proof -
  have "backends lb \<noteq> []" using assms(2) by (auto simp: healthy_backends_def)
  moreover have "healthy_backends (lb\<lparr>round_robin_index := i\<rparr>) = healthy_backends lb" for i
    by (rule healthy_frame) simp_all
  ultimately show ?thesis
    using assms
    by (simp add: LoadBalancer_select_def LoadBalancer_choose_def LoadBalancer_select_round_robin_def Let_def
          slice_get_def)
qed

interpretation rr: rotation "LoadBalancer_select checks gen_range"
  "\<lambda>lb. strategy (lb_config lb) = RoundRobin \<and> healthy_backends lb = bs \<and> bs \<noteq> []"
  "\<lambda>lb. unat (round_robin_index lb)" "2 ^ 64" selected_ref "map Some bs"
proof unfold_locales
  fix lb r lb'
  assume ok: "strategy (lb_config lb) = RoundRobin \<and> healthy_backends lb = bs \<and> bs \<noteq> []"
    and "LoadBalancer_select checks gen_range lb = (r, lb')"
  then show "selected_ref r = map Some bs ! (unat (round_robin_index lb) mod length (map Some bs)) \<and>
      (strategy (lb_config lb') = RoundRobin \<and> healthy_backends lb' = bs \<and> bs \<noteq> []) \<and>
      (Suc (unat (round_robin_index lb)) < 2 ^ 64 \<longrightarrow>
         unat (round_robin_index lb') = Suc (unat (round_robin_index lb)))"
    using select_round_robin [of lb checks gen_range] word_succ_unat [of "round_robin_index lb"] by auto
qed

subsection \<open>Weighted round robin\<close>

text \<open>The backends with every one repeated as often as its weight says.\<close>

definition weight_table :: "(state_ref \<Rightarrow> u32) \<Rightarrow> state_ref list \<Rightarrow> state_ref list" where
  "weight_table w bs = concat (map (\<lambda>b. replicate (unat (w b)) b) bs)"

lemma length_weight_table: "length (weight_table w bs) = sum_list (map (\<lambda>b. unat (w b)) bs)"
  by (simp add: weight_table_def length_concat comp_def)

lemma find_weighted_table:
  "unat t < length (weight_table w bs) \<Longrightarrow> find_weighted w t bs = Some (weight_table w bs ! unat t)"
proof (induction bs arbitrary: t)
  case (Cons b bs)
  show ?case
  proof (cases "t < w b")
    case True
    then show ?thesis by (simp add: weight_table_def nth_append word_less_nat_alt)
  next
    case False
    then have "unat (t - w b) = unat t - unat (w b)" by (simp add: unat_sub word_le_nat_alt word_less_nat_alt)
    with False Cons show ?thesis by (simp add: weight_table_def nth_append word_less_nat_alt)
  qed
qed (simp add: weight_table_def)

lemma count_replicate: "count_list (replicate n y) x = (if x = y then n else 0)"
  by (induction n) auto

lemma count_weight_table: "distinct bs \<Longrightarrow> b \<in> set bs \<Longrightarrow> count_list (weight_table w bs) b = unat (w b)"
proof (induction bs)
  case (Cons x bs)
  have "b \<notin> set bs \<Longrightarrow> count_list (weight_table w bs) b = 0" by (induction bs) (auto simp: weight_table_def count_replicate)
  with Cons show ?case by (auto simp: weight_table_def count_replicate)
qed simp

lemma sum_list_unat: "sum_list (map unat ws) < 2 ^ 32 \<Longrightarrow> unat (sum_list (ws :: u32 list)) = sum_list (map unat ws)"
proof (induction ws)
  case (Cons w ws)
  then have "unat (sum_list ws) = sum_list (map unat ws)" by simp
  with Cons.prems show ?case by (simp add: unat_word_ariths)
qed simp

definition weight_of :: "LoadBalancer \<Rightarrow> state_ref \<Rightarrow> u32" where
  "weight_of lb = (\<lambda>b. weight (backend (deref lb b)))"

lemma select_weighted:
  assumes "strategy (lb_config lb) = WeightedRoundRobin" "healthy_backends lb \<noteq> []"
    and table: "table = weight_table (weight_of lb) (healthy_backends lb)" "table \<noteq> []" "length table < 2 ^ 32"
  shows "\<exists>lb' g. LoadBalancer_select checks gen_range lb = (Returned (Some g), lb') \<and>
    guard_state g = table ! ((unat (round_robin_index lb) mod 2 ^ 32) mod length table) \<and>
    round_robin_index lb' = round_robin_index lb + 1 \<and> lb_config lb' = lb_config lb \<and>
    healthy_backends lb' = healthy_backends lb \<and> weight_of lb' = weight_of lb"
proof -
  let ?ws = "map (weight_of lb) (healthy_backends lb)"
  let ?total = "sum_list ?ws"
  let ?target = "(ucast (round_robin_index lb) :: u32) mod ?total"
  have len: "sum_list (map unat ?ws) = length table" by (simp add: table(1) length_weight_table comp_def)
  then have sum: "sum_weights checks ?ws = Returned ?total" and unat: "unat ?total = length table"
    using table(3) sum_list_unat [of ?ws] by (simp_all add: sum_weights_def)
  have target: "unat ?target = (unat (round_robin_index lb) mod 2 ^ 32) mod length table"
    by (simp add: unat_mod_distrib unat unsigned_ucast_eq take_bit_eq_mod)
  moreover have "?total \<noteq> 0" using unat table(2) by auto
  moreover have "find_weighted (weight_of lb) ?target (healthy_backends lb) = Some (table ! unat ?target)"
    using find_weighted_table [of ?target "weight_of lb" "healthy_backends lb"] table target
    by (simp add: mod_less_divisor)
  moreover have "backends lb \<noteq> []" using assms(2) by (auto simp: healthy_backends_def)
  moreover have "healthy_backends (lb\<lparr>round_robin_index := i\<rparr>) = healthy_backends lb"
    "deref (lb\<lparr>round_robin_index := i\<rparr>) = deref lb" for i
    by (rule healthy_frame) (simp_all add: deref_def fun_eq_iff)
  ultimately show ?thesis
    using assms(1,2) sum
    by (simp add: LoadBalancer_select_def LoadBalancer_choose_def LoadBalancer_select_weighted_round_robin_def
          Let_def weight_of_def)
qed

definition weighted_ok :: "state_ref list \<Rightarrow> state_ref list \<Rightarrow> LoadBalancer \<Rightarrow> bool" where
  "weighted_ok bs table lb \<longleftrightarrow>
     strategy (lb_config lb) = WeightedRoundRobin \<and> healthy_backends lb = bs \<and> bs \<noteq> [] \<and>
     table = weight_table (weight_of lb) bs \<and> table \<noteq> [] \<and> length table < 2 ^ 32"

lemma low_half_succ:
  assumes "Suc (unat (w :: u64) mod 2 ^ 32) < 2 ^ 32"
  shows "unat (w + 1) mod 2 ^ 32 = Suc (unat w mod 2 ^ 32)"
proof -
  have "unat (w + 1) mod 2 ^ 32 = ((unat w + 1) mod 2 ^ 64) mod 2 ^ 32" by (simp add: unat_word_ariths)
  also have "\<dots> = (unat w + 1) mod 2 ^ 32" by (simp add: mod_mod_cancel)
  also have "\<dots> = Suc (unat w mod 2 ^ 32)" using assms by (simp add: mod_Suc)
  finally show ?thesis .
qed

lemma weighted_next:
  assumes "weighted_ok bs table lb" "LoadBalancer_select checks gen_range lb = (r, lb')"
  shows "selected_ref r = map Some table ! (unat (round_robin_index lb) mod 2 ^ 32 mod length (map Some table)) \<and>
    weighted_ok bs table lb' \<and>
    (Suc (unat (round_robin_index lb) mod 2 ^ 32) < 2 ^ 32 \<longrightarrow>
       unat (round_robin_index lb') mod 2 ^ 32 = Suc (unat (round_robin_index lb) mod 2 ^ 32))"
proof -
  have ok: "strategy (lb_config lb) = WeightedRoundRobin" "healthy_backends lb \<noteq> []"
    "table = weight_table (weight_of lb) (healthy_backends lb)" "table \<noteq> []" "length table < 2 ^ 32"
    using assms(1) unfolding weighted_ok_def by auto
  obtain g where "r = Returned (Some g)"
    and g: "guard_state g = table ! (unat (round_robin_index lb) mod 2 ^ 32 mod length table)"
    and idx: "round_robin_index lb' = round_robin_index lb + 1"
    and rest: "lb_config lb' = lb_config lb" "healthy_backends lb' = healthy_backends lb" "weight_of lb' = weight_of lb"
    using select_weighted [OF ok, of checks gen_range] assms(2) by auto
  moreover have "unat (round_robin_index lb) mod 2 ^ 32 mod length table < length table" using ok(4) by simp
  ultimately have "selected_ref r = map Some table ! (unat (round_robin_index lb) mod 2 ^ 32 mod length (map Some table))"
    by (simp only: selected_ref_Some length_map nth_map)
  moreover have "weighted_ok bs table lb'" using assms(1) rest unfolding weighted_ok_def by auto
  ultimately show ?thesis using low_half_succ idx by simp
qed

interpretation wrr: rotation "LoadBalancer_select checks gen_range" "weighted_ok bs table"
  "\<lambda>lb. unat (round_robin_index lb) mod 2 ^ 32" "2 ^ 32" selected_ref "map Some table"
  by unfold_locales (rule weighted_next)

subsection \<open>Least connections\<close>

lemma select_least_connections:
  assumes "strategy (lb_config lb) = LeastConnections" "healthy_backends lb \<noteq> []"
  shows "\<exists>b. b \<in> set (healthy_backends lb) \<and>
    (\<forall>c \<in> set (healthy_backends lb). active_connections (deref lb b) \<le> active_connections (deref lb c)) \<and>
    LoadBalancer_select checks gen_range lb =
      (Returned (Some \<lparr>guard_backend = backend (deref lb b), guard_state = b\<rparr>), connect_backend b lb)"
proof -
  obtain b where b: "min_by_key (\<lambda>b. active_connections (deref lb b)) (healthy_backends lb) = Some b"
    using min_by_key_Some [OF assms(2)] by blast
  have "backends lb \<noteq> []" using assms(2) by (auto simp: healthy_backends_def)
  with b assms min_by_key_min [OF b] show ?thesis
    by (intro exI [of _ b])
       (simp add: LoadBalancer_select_def LoadBalancer_choose_def LoadBalancer_select_least_connections_def)
qed

text \<open>The numbers of connections of healthy backends differ by at most one.\<close>

definition lb_balanced :: "nat \<Rightarrow> LoadBalancer \<Rightarrow> bool" where
  "lb_balanced n lb \<longleftrightarrow>
     strategy (lb_config lb) = LeastConnections \<and> (\<forall>b \<in> set (backends lb). b < length (lb_store lb)) \<and>
     (\<forall>b \<in> set (healthy_backends lb). unat (active_connections (deref lb b)) \<le> n \<and>
        (\<forall>c \<in> set (healthy_backends lb).
           unat (active_connections (deref lb b)) \<le> Suc (unat (active_connections (deref lb c)))))"

lemma select_balanced:
  assumes "lb_balanced n lb" "Suc n < 2 ^ 64"
  shows "lb_balanced (Suc n) (snd (LoadBalancer_select checks gen_range lb))"
proof (cases "healthy_backends lb = []")
  case True
  then have "snd (LoadBalancer_select checks gen_range lb) = lb" by (simp add: LoadBalancer_select_def)
  with True assms(1) show ?thesis by (simp add: lb_balanced_def)
next
  case False
  with assms(1) obtain b where b: "b \<in> set (healthy_backends lb)"
    "\<forall>c \<in> set (healthy_backends lb). active_connections (deref lb b) \<le> active_connections (deref lb c)"
    "snd (LoadBalancer_select checks gen_range lb) = connect_backend b lb"
    using select_least_connections [of lb checks gen_range] by (auto simp: lb_balanced_def)
  then have "b < length (lb_store lb)" using assms(1) by (auto simp: lb_balanced_def healthy_backends_def)
  then have act: "active_connections (deref (connect_backend b lb) c) =
      (if c = b then active_connections (deref lb b) + 1 else active_connections (deref lb c))" for c
    by (simp add: connect_backend_def deref_modify)
  have "unat (active_connections (deref lb b) + 1) = Suc (unat (active_connections (deref lb b)))"
    using assms b(1) by (intro word_succ_unat) (auto simp: lb_balanced_def)
  with assms(1) b(1,2) show ?thesis
    unfolding b(3) lb_balanced_def healthy_connect act
    by (auto simp: word_le_nat_alt connect_backend_def le_SucI)
qed

lemma repeat_balanced:
  "lb_balanced m lb \<Longrightarrow> m + n < 2 ^ 64 \<Longrightarrow>
   lb_balanced (m + n) (snd (repeat_op (LoadBalancer_select checks gen_range) n lb))"
proof (induction n arbitrary: m lb)
  case (Suc n)
  obtain r lb' where sel: "LoadBalancer_select checks gen_range lb = (r, lb')" by fastforce
  then have "lb_balanced (Suc m) lb'"
    using select_balanced [OF Suc.prems(1), of checks gen_range] Suc.prems(2) by simp
  with Suc.IH [of "Suc m" lb'] Suc.prems(2) sel show ?case by (simp add: case_prod_beta)
qed simp

section \<open>Guards and events\<close>

text \<open>The balancer with its live guards. A guard is dropped or used by its position.\<close>

record lb_system =
  lb :: LoadBalancer
  live_guards :: "BackendGuard list"

datatype lb_event =
    SelectBackend bool "nat \<Rightarrow> nat"
  | DropGuard nat
  | RecordRequest nat bool
  | AddBackend instant Backend
  | RemoveBackend string
  | SetHealth instant string bool
  | Probe instant u32 bool nat

fun lb_apply :: "lb_event \<Rightarrow> lb_system \<Rightarrow> lb_system" where
  "lb_apply (SelectBackend checks gen_range) s =
     (case LoadBalancer_select checks gen_range (lb s) of
        (Returned (Some g), l) \<Rightarrow> s\<lparr>lb := l, live_guards := live_guards s @ [g]\<rparr>
      | (_, l) \<Rightarrow> s\<lparr>lb := l\<rparr>)"
| "lb_apply (DropGuard i) s =
     (if i < length (live_guards s)
      then s\<lparr>lb := BackendGuard_drop (live_guards s ! i) (lb s),
             live_guards := remove1 (live_guards s ! i) (live_guards s)\<rparr>
      else s)"
| "lb_apply (RecordRequest i success) s =
     (if i < length (live_guards s)
      then s\<lparr>lb := (if success then BackendGuard_record_success else BackendGuard_record_failure)
                      (live_guards s ! i) (lb s)\<rparr>
      else s)"
| "lb_apply (AddBackend now b) s = s\<lparr>lb := LoadBalancer_add_backend now b (lb s)\<rparr>"
| "lb_apply (RemoveBackend addr) s = s\<lparr>lb := LoadBalancer_remove_backend addr (lb s)\<rparr>"
| "lb_apply (SetHealth now addr h) s = s\<lparr>lb := LoadBalancer_set_backend_health now addr h (lb s)\<rparr>"
| "lb_apply (Probe now threshold answer i) s =
     (if i < length (backends (lb s))
      then s\<lparr>lb := health_probe now threshold answer (backends (lb s) ! i) (lb s)\<rparr> else s)"

text \<open>References are valid, and every state counts the live guards that refer to it.\<close>

definition lb_inv :: "lb_system \<Rightarrow> bool" where
  "lb_inv s \<longleftrightarrow>
     distinct (backends (lb s)) \<and>
     (\<forall>b \<in> set (backends (lb s)). b < length (lb_store (lb s))) \<and>
     (\<forall>g \<in> set (live_guards s). guard_state g < length (lb_store (lb s))) \<and>
     (\<forall>r < length (lb_store (lb s)).
        active_connections (deref (lb s) r) = of_nat (length (filter (\<lambda>g. guard_state g = r) (live_guards s))))"

lemma lb_inv_modify:
  assumes "lb_inv s" "\<And>st. active_connections (f st) = active_connections st"
  shows "lb_inv (s\<lparr>lb := modify r f (lb s)\<rparr>)"
  using assms
  by (cases "r < length (lb_store (lb s))")
     (auto simp: lb_inv_def modify_def list_update_beyond deref_def nth_list_update)

lemma lb_inv_select:
  assumes "lb_inv s"
  shows "lb_inv (lb_apply (SelectBackend checks gen_range) s)"
proof (cases "backends (lb s) = [] \<or> healthy_backends (lb s) = []")
  case True
  then show ?thesis using assms by (auto simp: LoadBalancer_select_def)
next
  case False
  obtain c l where choose: "LoadBalancer_choose checks gen_range (healthy_backends (lb s)) (lb s) = (c, l)"
    by fastforce
  note frame = choose_frame [OF choose]
  then have l: "lb_inv (s\<lparr>lb := l\<rparr>)" using assms by (simp add: lb_inv_def deref_def)
  show ?thesis
  proof (cases "\<exists>b. c = Returned (Some b)")
    case False
    with \<open>\<not> (_ \<or> _)\<close> choose l show ?thesis
      by (auto simp: LoadBalancer_select_def split: run.splits option.splits)
  next
    case True
    then obtain b where b: "c = Returned (Some b)" by blast
    then have "b \<in> set (healthy_backends (lb s))" using choose choose_mem by blast
    then have "b < length (lb_store l)" using assms frame by (auto simp: lb_inv_def healthy_backends_def)
    with \<open>\<not> (_ \<or> _)\<close> choose b l show ?thesis
      by (auto simp: LoadBalancer_select_def lb_inv_def connect_backend_def deref_modify)
  qed
qed

lemma length_filter_remove1:
  "x \<in> set xs \<Longrightarrow> length (filter P xs) = length (filter P (remove1 x xs)) + (if P x then 1 else 0)"
  by (induction xs) auto

lemma lb_inv_drop:
  assumes "lb_inv s"
  shows "lb_inv (lb_apply (DropGuard i) s)"
proof (cases "i < length (live_guards s)")
  case True
  let ?g = "live_guards s ! i"
  have g: "?g \<in> set (live_guards s)" using True by simp
  then have valid: "guard_state ?g < length (lb_store (lb s))" using assms by (simp add: lb_inv_def)
  have "length (filter P (live_guards s)) = length (filter P (remove1 ?g (live_guards s))) + (if P ?g then 1 else 0)" for P
    by (rule length_filter_remove1 [OF g])
  then show ?thesis
    using assms True valid
    by (auto simp: lb_inv_def BackendGuard_drop_def deref_modify dest: notin_set_remove1)
qed (use assms in simp)

lemma lb_apply_inv:
  assumes "lb_inv s"
  shows "lb_inv (lb_apply e s)"
proof (cases e)
  case (SelectBackend checks gen_range)
  then show ?thesis using lb_inv_select [OF assms] by simp
next
  case (DropGuard i)
  then show ?thesis using lb_inv_drop [OF assms] by simp
next
  case (RecordRequest i success)
  then show ?thesis
    using assms
    by (auto simp: BackendGuard_record_success_def BackendGuard_record_failure_def BackendState_record_request_def
          Let_def intro!: lb_inv_modify)
next
  case (AddBackend now b)
  have "filter (\<lambda>g. guard_state g = length (lb_store (lb s))) (live_guards s) = []"
    using assms by (auto simp: lb_inv_def filter_empty_conv)
  with AddBackend show ?thesis
    using assms
    by (auto simp: lb_inv_def LoadBalancer_add_backend_def deref_def nth_append BackendState_new_def less_Suc_eq)
next
  case (RemoveBackend addr)
  then show ?thesis using assms by (auto simp: lb_inv_def LoadBalancer_remove_backend_def deref_def)
next
  case (SetHealth now addr h)
  then show ?thesis
    using assms
    by (auto simp: LoadBalancer_set_backend_health_def BackendState_mark_healthy_def BackendState_mark_unhealthy_def
          intro!: lb_inv_modify split: option.splits)
next
  case (Probe now threshold answer i)
  then show ?thesis
    using assms
    by (auto simp: health_probe_def BackendState_mark_healthy_def BackendState_mark_unhealthy_def intro!: lb_inv_modify)
qed

interpretation lbs: event_system lb_apply lb_inv
  by unfold_locales (rule lb_apply_inv)

subsection \<open>Health checks\<close>

text \<open>No failure is on record and every backend is healthy.\<close>

definition no_failures :: "LoadBalancerConfig \<Rightarrow> nat \<Rightarrow> LoadBalancer \<Rightarrow> bool" where
  "no_failures config n l \<longleftrightarrow>
     lb_config l = config \<and> backends l = [0..<n] \<and> length (lb_store l) = n \<and>
     (\<forall>r < n. healthy (deref l r) \<and> consecutive_failures (deref l r) = 0)"

lemma probe_no_failures:
  assumes "no_failures config n l" "b < n" "0 < threshold"
  shows "no_failures config n (health_probe now threshold answer b l)"
  using assms
  by (auto simp: no_failures_def health_probe_def deref_modify BackendState_mark_healthy_def not_le [symmetric])

lemma tick_no_failures:
  assumes "health_check config = Some hc" "0 < unhealthy_threshold hc" "no_failures config n l"
  shows "no_failures config n (LoadBalancer_health_check_tick now check_fn l)"
proof -
  let ?probe = "\<lambda>b l. health_probe now (unhealthy_threshold hc) (check_fn (backend (deref l b))) b l"
  have "set bs \<subseteq> {0..<n} \<Longrightarrow> no_failures config n m \<Longrightarrow> no_failures config n (fold ?probe bs m)" for bs m
    by (induction bs arbitrary: m) (auto intro!: probe_no_failures assms(2))
  from this [of "[0..<n]" l] assms show ?thesis
    by (simp add: LoadBalancer_health_check_tick_def no_failures_def)
qed

interpretation lb_ticks: event_system "\<lambda>(now, check_fn). LoadBalancer_health_check_tick now check_fn"
  "\<lambda>l. (\<exists>hc. health_check config = Some hc \<and> 0 < unhealthy_threshold hc) \<longrightarrow> no_failures config n l"
  by unfold_locales (auto intro: tick_no_failures)

section \<open>Properties\<close>

text \<open>
  C32. Round robin is fair: with a fixed set of \<open>n\<close> healthy backends, \<open>k * n\<close> selections in
  a row give every healthy backend exactly \<open>k\<close> connections, wherever the shared index
  stands, as long as it does not wrap at 2^64 in between.
\<close>

theorem lb_round_robin_fair:
  assumes "strategy (lb_config l) = RoundRobin" "healthy_backends l \<noteq> []" "distinct (backends l)"
    and "unat (round_robin_index l) + k * length (healthy_backends l) \<le> 2 ^ 64"
    and "b \<in> set (healthy_backends l)"
  shows "count_list (map selected_ref
      (fst (repeat_op (LoadBalancer_select checks gen_range) (k * length (healthy_backends l)) l))) (Some b) = k"
proof -
  have "distinct (healthy_backends l)" using assms(3) by (simp add: healthy_backends_def)
  with assms rr.select_fair [of l "healthy_backends l" k checks gen_range "Some b"] show ?thesis
    by (simp add: count_list_Some count_list_distinct)
qed

definition three_backends :: "Strategy \<Rightarrow> LoadBalancer" where
  "three_backends s = LoadBalancer_new 0 (LoadBalancerConfig_new s)
     [Backend_with_weight ''a:1'' 3, Backend_with_weight ''b:1'' 1, Backend_with_weight ''c:1'' 2]"

lemma three_backends_facts:
  "healthy_backends (three_backends s) = [0, 1, 2]" "backends (three_backends s) = [0, 1, 2]"
  "round_robin_index (three_backends s) = 0" "strategy (lb_config (three_backends s)) = s"
  "length (lb_store (three_backends s)) = 3"
  by (simp_all add: three_backends_def LoadBalancer_new_def healthy_backends_def deref_def BackendState_new_def
        BackendState_is_healthy_def LoadBalancerConfig_new_def upt_rec)

theorem lb_round_robin_fair_witness:
  "count_list (map selected_ref
     (fst (repeat_op (LoadBalancer_select True id) (5 * 3) (three_backends RoundRobin)))) (Some 1) = 5"
  using lb_round_robin_fair [of "three_backends RoundRobin" 5 1 True id] by (simp add: three_backends_facts)

text \<open>
  C31. Weighted round robin is proportional: when the weights of the healthy backends add up
  to \<open>W\<close>, not zero and less than 2^32, then \<open>k * W\<close> selections in a row give each of them
  exactly \<open>k\<close> times its weight, as long as the low half of the shared index does not wrap
  at 2^32 in between.
\<close>

theorem lb_weighted_proportional:
  assumes "strategy (lb_config l) = WeightedRoundRobin" "distinct (backends l)"
    and "W = sum_list (map (\<lambda>b. unat (weight (backend (deref l b)))) (healthy_backends l))"
    and "0 < W" "W < 2 ^ 32" "unat (round_robin_index l) mod 2 ^ 32 + k * W \<le> 2 ^ 32"
    and "b \<in> set (healthy_backends l)"
  shows "count_list (map selected_ref (fst (repeat_op (LoadBalancer_select checks gen_range) (k * W) l))) (Some b) =
    k * unat (weight (backend (deref l b)))"
proof -
  let ?table = "weight_table (weight_of l) (healthy_backends l)"
  have W: "length ?table = W" using assms(3) by (simp add: length_weight_table weight_of_def)
  have "healthy_backends l \<noteq> []" using assms(7) by auto
  then have ok: "weighted_ok (healthy_backends l) ?table l"
    using assms(1,4,5) W by (simp add: weighted_ok_def) (metis length_0_conv less_not_refl)
  have "?table \<noteq> []" using W assms(4) by auto
  moreover have "distinct (healthy_backends l)" using assms(2) by (simp add: healthy_backends_def)
  ultimately show ?thesis
    using wrr.select_fair [OF ok, of k checks gen_range "Some b"] assms(6,7) W
    by (simp add: count_list_Some count_weight_table weight_of_def)
qed

theorem lb_weighted_proportional_witness:
  "count_list (map selected_ref
     (fst (repeat_op (LoadBalancer_select True id) (2 * 6) (three_backends WeightedRoundRobin)))) (Some 0) = 2 * 3"
proof -
  have w: "map (\<lambda>b. unat (weight (backend (deref (three_backends WeightedRoundRobin) b)))) [0, 1, 2] = [3, 1, 2]"
    by (simp add: three_backends_def LoadBalancer_new_def deref_def BackendState_new_def Backend_with_weight_def)
  then have "sum_list (map (\<lambda>b. unat (weight (backend (deref (three_backends WeightedRoundRobin) b)))) [0, 1, 2]) = 6"
    by simp
  with w lb_weighted_proportional [of "three_backends WeightedRoundRobin" 6 2 0 True id] show ?thesis
    by (simp add: three_backends_facts)
qed

text \<open>
  Weighted selection panics on a remainder by zero exactly when the weights of the
  healthy backends add up to zero at their width: the balancer has no check for it.
\<close>

theorem lb_weighted_zero_panics:
  assumes "strategy (lb_config l) = WeightedRoundRobin" "healthy_backends l \<noteq> []"
  shows "fst (LoadBalancer_select False gen_range l) =
      Panicked ''attempt to calculate the remainder with a divisor of zero'' \<longleftrightarrow>
    sum_list (map (\<lambda>b. weight (backend (deref l b))) (healthy_backends l)) = 0"
proof -
  have "backends l \<noteq> []" using assms(2) by (auto simp: healthy_backends_def)
  then show ?thesis
    using assms
    by (auto simp: LoadBalancer_select_def LoadBalancer_choose_def LoadBalancer_select_weighted_round_robin_def
          sum_weights_def Let_def split: option.splits)
qed

theorem lb_weighted_zero_panics_witness:
  "fst (LoadBalancer_select False id
     (LoadBalancer_new 0 (LoadBalancerConfig_new WeightedRoundRobin) [Backend_with_weight ''a:1'' 0])) =
   Panicked ''attempt to calculate the remainder with a divisor of zero''"
  using lb_weighted_zero_panics [of "LoadBalancer_new 0 (LoadBalancerConfig_new WeightedRoundRobin)
      [Backend_with_weight ''a:1'' 0]" id]
  by (simp add: LoadBalancer_new_def LoadBalancerConfig_new_def healthy_backends_def deref_def BackendState_new_def
        BackendState_is_healthy_def Backend_with_weight_def)

text \<open>
  Least connections balances: it selects a healthy backend with the fewest connections,
  and after any number of selections on a new balancer (fewer than 2^64) the numbers of
  connections of any two backends differ by at most one.
\<close>

theorem lb_least_connections_balances:
  assumes "n < 2 ^ 64"
    and "l = snd (repeat_op (LoadBalancer_select checks gen_range) n (LoadBalancer_least_connections now bs))"
    and "b \<in> set (healthy_backends l)" "c \<in> set (healthy_backends l)"
  shows "unat (active_connections (deref l b)) \<le> Suc (unat (active_connections (deref l c))) \<and>
    (\<exists>g. fst (LoadBalancer_select checks gen_range l) = Returned (Some g) \<and>
       active_connections (deref l (guard_state g)) \<le> active_connections (deref l c))"
proof -
  have "lb_balanced 0 (LoadBalancer_least_connections now bs)"
    by (auto simp: lb_balanced_def LoadBalancer_least_connections_def LoadBalancer_new_def LoadBalancerConfig_new_def
          healthy_backends_def deref_def BackendState_new_def)
  then have bal: "lb_balanced n l" using repeat_balanced [of 0 _ n] assms(1,2) by simp
  then have "strategy (lb_config l) = LeastConnections" by (simp add: lb_balanced_def)
  moreover have "healthy_backends l \<noteq> []" using assms(3) by auto
  ultimately show ?thesis
    using select_least_connections [of l checks gen_range] bal assms(3,4) by (fastforce simp: lb_balanced_def)
qed

theorem lb_least_connections_balances_witness:
  "(let l = snd (repeat_op (LoadBalancer_select True id) 1
              (LoadBalancer_least_connections 0 [Backend_new ''a:1'', Backend_new ''b:1'']))
    in unat (active_connections (deref l 0)) \<le> Suc (unat (active_connections (deref l 1))))"
proof -
  let ?l = "snd (repeat_op (LoadBalancer_select True id) 1
              (LoadBalancer_least_connections 0 [Backend_new ''a:1'', Backend_new ''b:1'']))"
  have "healthy_backends ?l = [0, 1]"
    by (simp add: LoadBalancer_least_connections_def LoadBalancer_new_def LoadBalancerConfig_new_def
          LoadBalancer_select_def LoadBalancer_choose_def LoadBalancer_select_least_connections_def
          healthy_backends_def deref_def BackendState_new_def BackendState_is_healthy_def connect_backend_def
          modify_def upt_rec)
  with lb_least_connections_balances [of 1 ?l True id 0 "[Backend_new ''a:1'', Backend_new ''b:1'']" 0 1]
  show ?thesis unfolding Let_def by simp
qed

text \<open>
  C15. Connection counts follow the guards. After any sequence of selections, guard drops,
  recorded requests, additions and removals of backends, health changes and probes on a new
  balancer, every backend's counter is the number of its live guards (modulo 2^64), also
  for guards of a backend that was removed; a selection only yields backends that are
  listed and healthy, and yields none only if no listed backend is healthy.
\<close>

theorem lb_counts_guards:
  assumes "s = fold lb_apply es \<lparr>lb = LoadBalancer_new now config bs, live_guards = []\<rparr>"
    and "r < length (lb_store (lb s))" "\<And>n. 0 < n \<Longrightarrow> gen_range n < n"
  shows "active_connections (deref (lb s) r) = of_nat (length (filter (\<lambda>g. guard_state g = r) (live_guards s))) \<and>
    (fst (LoadBalancer_select checks gen_range (lb s)) = Returned (Some g) \<longrightarrow>
       guard_state g \<in> set (backends (lb s)) \<and> healthy (deref (lb s) (guard_state g)) \<and>
       guard_backend g = backend (deref (lb s) (guard_state g))) \<and>
    (fst (LoadBalancer_select checks gen_range (lb s)) = Returned None \<longleftrightarrow> healthy_backends (lb s) = [])"
proof -
  have "lb_inv \<lparr>lb = LoadBalancer_new now config bs, live_guards = []\<rparr>"
    by (auto simp: lb_inv_def LoadBalancer_new_def deref_def BackendState_new_def)
  then have "lb_inv s" unfolding assms(1) by (rule lbs.run_inv)
  with assms(2) select_healthy [of checks gen_range "lb s" g] select_none [OF assms(3), of checks "lb s"] show ?thesis
    by (simp add: lb_inv_def)
qed

theorem lb_counts_guards_witness:
  "(let s = fold lb_apply [SelectBackend True id, RemoveBackend ''a:1'']
              \<lparr>lb = LoadBalancer_new 0 LoadBalancerConfig_default [Backend_new ''a:1''], live_guards = []\<rparr>
    in active_connections (deref (lb s) 0) = of_nat (length (filter (\<lambda>g. guard_state g = 0) (live_guards s))))"
proof -
  let ?s = "fold lb_apply [SelectBackend True id, RemoveBackend ''a:1'']
              \<lparr>lb = LoadBalancer_new 0 LoadBalancerConfig_default [Backend_new ''a:1''], live_guards = []\<rparr>"
  have "0 < length (lb_store (lb ?s))"
    by (simp add: LoadBalancer_new_def config_defs LoadBalancer_select_def LoadBalancer_choose_def
          LoadBalancer_select_round_robin_def healthy_backends_def deref_def BackendState_new_def
          BackendState_is_healthy_def connect_backend_def modify_def slice_get_def LoadBalancer_remove_backend_def Let_def)
  with lb_counts_guards [of ?s, OF refl, of 0 "\<lambda>n. 0"] show ?thesis unfolding Let_def by blast
qed

text \<open>
  Health checks alone never take a backend out of service. With an unhealthy threshold
  above zero, any number of health-check rounds on a new balancer, whatever the probes
  answer, leaves every backend healthy: a failing probe does not count as a failure, only
  a failed request recorded through a guard does. Once enough failed requests have been
  recorded in a row, one failing probe takes the backend out.
\<close>

theorem lb_probes_never_evict:
  assumes "health_check config = Some hc" "0 < unhealthy_threshold hc"
  shows "healthy_backends (fold (\<lambda>(now, check_fn). LoadBalancer_health_check_tick now check_fn) rounds
      (LoadBalancer_new t config bs)) = [0..<length bs] \<and>
    (b < length (lb_store l) \<and> unhealthy_threshold hc \<le> consecutive_failures (deref l b) \<longrightarrow>
       b \<notin> set (healthy_backends (health_probe now (unhealthy_threshold hc) False b l)))"
proof -
  let ?l = "fold (\<lambda>(now, check_fn). LoadBalancer_health_check_tick now check_fn) rounds (LoadBalancer_new t config bs)"
  have "no_failures config (length bs) (LoadBalancer_new t config bs)"
    by (simp add: no_failures_def LoadBalancer_new_def deref_def BackendState_new_def)
  then have "no_failures config (length bs) ?l"
    using lb_ticks.run_inv [of config "length bs" "LoadBalancer_new t config bs" rounds] assms by blast
  then show ?thesis
    by (auto simp: no_failures_def healthy_backends_def BackendState_is_healthy_def filter_id_conv
          health_probe_def deref_modify BackendState_mark_unhealthy_def)
qed

theorem lb_probes_never_evict_witness:
  "healthy_backends (fold (\<lambda>(now, check_fn). LoadBalancer_health_check_tick now check_fn)
     [(1, \<lambda>_. False), (2, \<lambda>_. False), (3, \<lambda>_. False), (4, \<lambda>_. False)]
     (LoadBalancer_new 0 LoadBalancerConfig_default [Backend_new ''a:1'', Backend_new ''b:1''])) = [0, 1]"
proof -
  have "health_check LoadBalancerConfig_default = Some HealthCheckConfig_default"
    "0 < unhealthy_threshold HealthCheckConfig_default"
    by (simp_all add: config_defs)
  from lb_probes_never_evict [OF this, of "[(1, \<lambda>_. False), (2, \<lambda>_. False), (3, \<lambda>_. False), (4, \<lambda>_. False)]" 0
      "[Backend_new ''a:1'', Backend_new ''b:1'']"] show ?thesis
    by (simp add: upt_rec)
qed

end
