(* ===== verification/Connection_Pool.thy ===== *)
theory Connection_Pool
  imports Tokio_Sync
begin

text \<open>
  The generic connection pool (\<open>src/pooling/connection_pool.rs\<close>). A semaphore bounds the
  connections that are lent out; idle connections wait in a queue behind a lock. The pooled
  type is a parameter: \<open>valid\<close> is the answer of \<open>is_valid\<close> and \<open>created\<close> the outcome of
  \<open>create\<close>, both given per call; the connections on which \<open>close\<close> is called are returned.
  The methods are composed of their lock sections and await points, so that \<open>pool_step\<close>
  can interleave them.
\<close>

section \<open>Model\<close>

record PoolConfig =
  min_size :: nat
  pool_max_size :: nat
  acquire_timeout :: duration
  pool_idle_timeout :: duration
  max_lifetime :: "duration option"

definition PoolConfig_default :: PoolConfig where
  "PoolConfig_default =
     \<lparr>min_size = 2, pool_max_size = 10, acquire_timeout = from_secs 5, pool_idle_timeout = from_secs 600,
      max_lifetime = Some (from_secs 3600)\<rparr>"

definition PoolConfig_new :: PoolConfig where
  "PoolConfig_new = PoolConfig_default"

definition PoolConfig_with_min_size :: "nat \<Rightarrow> PoolConfig \<Rightarrow> PoolConfig" where
  "PoolConfig_with_min_size n c = c\<lparr>min_size := n\<rparr>"

definition PoolConfig_with_max_size :: "nat \<Rightarrow> PoolConfig \<Rightarrow> PoolConfig" where
  "PoolConfig_with_max_size n c = c\<lparr>pool_max_size := n\<rparr>"

definition PoolConfig_with_acquire_timeout :: "duration \<Rightarrow> PoolConfig \<Rightarrow> PoolConfig" where
  "PoolConfig_with_acquire_timeout d c = c\<lparr>acquire_timeout := d\<rparr>"

definition PoolConfig_with_idle_timeout :: "duration \<Rightarrow> PoolConfig \<Rightarrow> PoolConfig" where
  "PoolConfig_with_idle_timeout d c = c\<lparr>pool_idle_timeout := d\<rparr>"

definition PoolConfig_with_max_lifetime :: "duration option \<Rightarrow> PoolConfig \<Rightarrow> PoolConfig" where
  "PoolConfig_with_max_lifetime d c = c\<lparr>max_lifetime := d\<rparr>"

lemmas PoolConfig_defs [config_defs] =
  PoolConfig_default_def PoolConfig_new_def PoolConfig_with_min_size_def PoolConfig_with_max_size_def
  PoolConfig_with_acquire_timeout_def PoolConfig_with_idle_timeout_def PoolConfig_with_max_lifetime_def

record 't PooledConnection =
  pooled_connection :: 't
  pooled_created_at :: instant
  last_used :: instant

definition PooledConnection_new :: "instant \<Rightarrow> 't \<Rightarrow> 't PooledConnection" where
  "PooledConnection_new now conn = \<lparr>pooled_connection = conn, pooled_created_at = now, last_used = now\<rparr>"

definition PooledConnection_is_expired :: "instant \<Rightarrow> PoolConfig \<Rightarrow> 't PooledConnection \<Rightarrow> bool" where
  "PooledConnection_is_expired now config p =
     (if elapsed now (last_used p) > pool_idle_timeout config then True
      else
        (case max_lifetime config of
           Some lifetime \<Rightarrow> elapsed now (pooled_created_at p) > lifetime
         | None \<Rightarrow> False))"

definition PooledConnection_touch :: "instant \<Rightarrow> 't PooledConnection \<Rightarrow> 't PooledConnection" where
  "PooledConnection_touch now p = p\<lparr>last_used := now\<rparr>"

record 't PoolState =
  available :: "'t PooledConnection list"
  total_connections :: usize

record ('s, 't) ConnectionPool =
  pool_config :: PoolConfig
  pool_state :: "'t PoolState"
  pool_sem :: 's

definition ConnectionPool_new :: "'s semaphore_ops \<Rightarrow> PoolConfig \<Rightarrow> ('s, 't) ConnectionPool" where
  "ConnectionPool_new S config =
     \<lparr>pool_config = config, pool_state = \<lparr>available = [], total_connections = 0\<rparr>,
      pool_sem = sem_new S (pool_max_size config)\<rparr>"

definition ConnectionPool_with_default_config :: "'s semaphore_ops \<Rightarrow> ('s, 't) ConnectionPool" where
  "ConnectionPool_with_default_config S = ConnectionPool_new S PoolConfig_default"

record PoolStats =
  stats_available :: nat
  stats_total :: usize
  stats_max_size :: nat

definition ConnectionPool_stats :: "('s, 't) ConnectionPool \<Rightarrow> PoolStats" where
  "ConnectionPool_stats p =
     \<lparr>stats_available = length (available (pool_state p)), stats_total = total_connections (pool_state p),
      stats_max_size = pool_max_size (pool_config p)\<rparr>"

datatype 'e PoolError = Create 'e | Timeout | Closed

definition PoolError_source :: "'e PoolError \<Rightarrow> 'e option" where
  "PoolError_source e = (case e of Create err \<Rightarrow> Some err | _ \<Rightarrow> None)"

definition PoolError_to_string :: "('e \<Rightarrow> string) \<Rightarrow> 'e PoolError \<Rightarrow> string" where
  "PoolError_to_string show_err e =
     (case e of
        Create err \<Rightarrow> ''Failed to create connection: '' @ show_err err
      | Timeout \<Rightarrow> ''Timeout waiting for connection''
      | Closed \<Rightarrow> ''Pool is closed'')"

text \<open>\<open>VecDeque::remove(idx)\<close>, and the loop over the indices collected before, from the back.\<close>

definition vecdeque_remove :: "nat \<Rightarrow> 'a list \<Rightarrow> ('a \<times> 'a list) option" where
  "vecdeque_remove i xs = (if i < length xs then Some (xs ! i, take i xs @ drop (Suc i) xs) else None)"

fun remove_indices :: "nat list \<Rightarrow> 't PoolState \<Rightarrow> 't list \<Rightarrow> 't list \<times> 't PoolState" where
  "remove_indices [] st expired = (expired, st)"
| "remove_indices (idx # idxs) st expired =
     (case vecdeque_remove idx (available st) of
        Some (p, rest) \<Rightarrow>
          remove_indices idxs
            (st\<lparr>available := rest, total_connections := total_connections st - 1\<rparr>)
            (expired @ [pooled_connection p])
      | None \<Rightarrow> remove_indices idxs st expired)"

definition ConnectionPool_remove_expired :: "instant \<Rightarrow> PoolConfig \<Rightarrow> 't PoolState \<Rightarrow> 't list \<times> 't PoolState" where
  "ConnectionPool_remove_expired now config st =
     (let to_remove =
        filter (\<lambda>idx. PooledConnection_is_expired now config (available st ! idx)) [0..<length (available st)]
      in remove_indices (rev to_remove) st [])"

text \<open>The lock section of \<open>acquire\<close>: drop expired connections, then reuse the first idle one.\<close>

definition ConnectionPool_take ::
  "instant \<Rightarrow> ('s, 't) ConnectionPool \<Rightarrow> 't option \<times> 't list \<times> ('s, 't) ConnectionPool" where
  "ConnectionPool_take now p =
     (let (expired, st) = ConnectionPool_remove_expired now (pool_config p) (pool_state p) in
      case available st of
        pooled # rest \<Rightarrow>
          (Some (pooled_connection (PooledConnection_touch now pooled)), expired,
           p\<lparr>pool_state := st\<lparr>available := rest\<rparr>\<rparr>)
      | [] \<Rightarrow> (None, expired, p\<lparr>pool_state := st\<rparr>))"

definition ConnectionPool_create_connection ::
  "'e + 't \<Rightarrow> ('s, 't) ConnectionPool \<Rightarrow> ('e PoolError + 't) \<times> ('s, 't) ConnectionPool" where
  "ConnectionPool_create_connection created p =
     (case created of
        Inl e \<Rightarrow> (Inl (Create e), p)
      | Inr conn \<Rightarrow>
          (Inr conn, p\<lparr>pool_state := (pool_state p)\<lparr>total_connections := total_connections (pool_state p) + 1\<rparr>\<rparr>))"

definition release_permit :: "'s semaphore_ops \<Rightarrow> ('s, 't) ConnectionPool \<Rightarrow> ('s, 't) ConnectionPool" where
  "release_permit S p = p\<lparr>pool_sem := sem_add_permits S 1 (pool_sem p)\<rparr>"

text \<open>
  The permit of \<open>acquire\<close>: without one in time, the error is \<open>Timeout\<close>. A call that fails
  later drops its permit.
\<close>

definition ConnectionPool_permit ::
  "'s semaphore_ops \<Rightarrow> ('s, 't) ConnectionPool \<Rightarrow> ('e PoolError + unit) \<times> ('s, 't) ConnectionPool" where
  "ConnectionPool_permit S p =
     (case sem_try_acquire S (pool_sem p) of
        Acquired sem \<Rightarrow> (Inr (), p\<lparr>pool_sem := sem\<rparr>)
      | NoPermits \<Rightarrow> (Inl Timeout, p)
      | SemClosed \<Rightarrow> (Inl Closed, p))"

definition ConnectionPool_acquire ::
  "'s semaphore_ops \<Rightarrow> instant \<Rightarrow> ('t \<Rightarrow> bool) \<Rightarrow> 'e + 't \<Rightarrow> ('s, 't) ConnectionPool \<Rightarrow>
     ('e PoolError + 't) \<times> 't list \<times> ('s, 't) ConnectionPool" where
  "ConnectionPool_acquire S now valid created p =
     (case ConnectionPool_permit S p of
        (Inl e, p) \<Rightarrow> (Inl e, [], p)
      | (Inr _, p) \<Rightarrow>
          (let (reused, expired, p) = ConnectionPool_take now p;
               (r, p) =
                 (case reused of
                    Some conn \<Rightarrow>
                      if valid conn then (Inr conn, p) else ConnectionPool_create_connection created p
                  | None \<Rightarrow> ConnectionPool_create_connection created p)
           in (r, expired, case r of Inl e \<Rightarrow> release_permit S p | Inr _ \<Rightarrow> p)))"

text \<open>\<open>needed\<close> is computed under the lock; every creation then takes the lock again.\<close>

definition ConnectionPool_prune_lock ::
  "instant \<Rightarrow> ('s, 't) ConnectionPool \<Rightarrow> nat \<times> 't list \<times> ('s, 't) ConnectionPool" where
  "ConnectionPool_prune_lock now p =
     (let (expired, st) = ConnectionPool_remove_expired now (pool_config p) (pool_state p);
          needed = min_size (pool_config p) - unat (total_connections st)
      in (needed, expired, p\<lparr>pool_state := st\<rparr>))"

definition ConnectionPool_prune_create :: "instant \<Rightarrow> 'e + 't \<Rightarrow> ('s, 't) ConnectionPool \<Rightarrow> ('s, 't) ConnectionPool" where
  "ConnectionPool_prune_create now created p =
     (case created of
        Inr conn \<Rightarrow>
          p\<lparr>pool_state := (pool_state p)
              \<lparr>available := available (pool_state p) @ [PooledConnection_new now conn],
               total_connections := total_connections (pool_state p) + 1\<rparr>\<rparr>
      | Inl _ \<Rightarrow> p)"

definition ConnectionPool_prune_idle ::
  "instant \<Rightarrow> (nat \<Rightarrow> 'e + 't) \<Rightarrow> ('s, 't) ConnectionPool \<Rightarrow> 't list \<times> ('s, 't) ConnectionPool" where
  "ConnectionPool_prune_idle now created p =
     (let (needed, expired, p) = ConnectionPool_prune_lock now p in
      (expired, fold (\<lambda>i. ConnectionPool_prune_create now (created i)) [0..<needed] p))"

text \<open>
  The background task of \<open>start_maintenance\<close> after some passes, each with its clock reading and
  what creating connections gives; the connections it has closed are collected.
\<close>

definition ConnectionPool_start_maintenance ::
  "duration \<Rightarrow> (instant \<times> (nat \<Rightarrow> 'e + 't)) list \<Rightarrow> ('s, 't) ConnectionPool \<Rightarrow> ('t list \<times> ('s, 't) ConnectionPool) run" where
  "ConnectionPool_start_maintenance interval passes p =
     (if interval = 0 then Panicked ''`period` must be non-zero.''
      else Returned (fold (\<lambda>(now, created) (closed, p).
        let (expired, p) = ConnectionPool_prune_idle now created p in (closed @ expired, p)) passes ([], p)))"

fun drain_available :: "'t PoolState \<Rightarrow> 't PooledConnection list \<Rightarrow> 't list \<Rightarrow> 't list \<times> 't PoolState" where
  "drain_available st [] conns = (conns, st\<lparr>available := []\<rparr>)"
| "drain_available st (pooled # rest) conns =
     drain_available (st\<lparr>total_connections := total_connections st - 1\<rparr>) rest (conns @ [pooled_connection pooled])"

definition ConnectionPool_shutdown :: "('s, 't) ConnectionPool \<Rightarrow> 't list \<times> ('s, 't) ConnectionPool" where
  "ConnectionPool_shutdown p =
     (let (conns, st) = drain_available (pool_state p) (available (pool_state p)) [] in
      (conns, p\<lparr>pool_state := st\<rparr>))"

text \<open>The drop of a guard puts the connection back, wrapped anew; then its permit is dropped.\<close>

definition PooledGuard_return :: "instant \<Rightarrow> 't \<Rightarrow> ('s, 't) ConnectionPool \<Rightarrow> ('s, 't) ConnectionPool" where
  "PooledGuard_return now conn p =
     p\<lparr>pool_state := (pool_state p)\<lparr>available := available (pool_state p) @ [PooledConnection_new now conn]\<rparr>\<rparr>"

definition PooledGuard_drop :: "'s semaphore_ops \<Rightarrow> instant \<Rightarrow> 't \<Rightarrow> ('s, 't) ConnectionPool \<Rightarrow> ('s, 't) ConnectionPool" where
  "PooledGuard_drop S now conn p = release_permit S (PooledGuard_return now conn p)"

text \<open>
  What a guard lets its owner do with the connection: read it and change it. The guard that
  \<open>acquire\<close> builds holds \<open>Some\<close>; the pool and the permit it also holds are those of the
  pool above.
\<close>

record 't PooledGuard =
  guard_connection :: "'t option"

definition guard_of :: "'t \<Rightarrow> 't PooledGuard" where
  "guard_of conn = \<lparr>guard_connection = Some conn\<rparr>"

definition PooledGuard_as_ref :: "'t PooledGuard \<Rightarrow> 't run" where
  "PooledGuard_as_ref g =
     (case guard_connection g of
        Some conn \<Rightarrow> Returned conn
      | None \<Rightarrow> Panicked ''PooledGuard invariant violated: connection is None before Drop'')"

definition PooledGuard_deref :: "'t PooledGuard \<Rightarrow> 't run" where
  "PooledGuard_deref g =
     (case guard_connection g of
        Some conn \<Rightarrow> Returned conn
      | None \<Rightarrow> Panicked ''PooledGuard invariant violated: connection is None before Drop'')"

text \<open>The mutable references, with the change \<open>f\<close> that is made through them.\<close>

definition PooledGuard_as_mut :: "('t \<Rightarrow> 't) \<Rightarrow> 't PooledGuard \<Rightarrow> 't PooledGuard run" where
  "PooledGuard_as_mut f g =
     (case guard_connection g of
        Some conn \<Rightarrow> Returned (g\<lparr>guard_connection := Some (f conn)\<rparr>)
      | None \<Rightarrow> Panicked ''PooledGuard invariant violated: connection is None before Drop'')"

definition PooledGuard_deref_mut :: "('t \<Rightarrow> 't) \<Rightarrow> 't PooledGuard \<Rightarrow> 't PooledGuard run" where
  "PooledGuard_deref_mut f g =
     (case guard_connection g of
        Some conn \<Rightarrow> Returned (g\<lparr>guard_connection := Some (f conn)\<rparr>)
      | None \<Rightarrow> Panicked ''PooledGuard invariant violated: connection is None before Drop'')"

fun use_guard :: "('t \<Rightarrow> 't) list \<Rightarrow> 't PooledGuard \<Rightarrow> 't PooledGuard run" where
  "use_guard [] g = Returned g"
| "use_guard (f # fs) g = (case PooledGuard_deref_mut f g of Panicked e \<Rightarrow> Panicked e | Returned g \<Rightarrow> use_guard fs g)"

text \<open>The message that dropping the pool logs, if any.\<close>

definition ConnectionPool_drop :: "('s, 't) ConnectionPool \<Rightarrow> string option" where
  "ConnectionPool_drop p =
     (if total_connections (pool_state p) > 0
      then Some (''ConnectionPool dropped with '' @ show_nat (unat (total_connections (pool_state p))) @
        '' connections still active. Call shutdown() before dropping to properly close connections.'')
      else None)"

text \<open>
  The invariant the code states: between \<open>acquire\<close> and the drop no use of a guard panics, and
  what it holds is the connection with the changes made so far.
\<close>

lemma guard_holds_connection:
  "\<exists>g. use_guard fs (guard_of conn) = Returned g \<and> PooledGuard_as_ref g = Returned (fold (\<lambda>f. f) fs conn) \<and>
     PooledGuard_deref g = PooledGuard_as_ref g \<and> PooledGuard_as_mut f g = PooledGuard_deref_mut f g \<and>
     guard_connection g \<noteq> None"
  by (induction fs arbitrary: conn)
     (simp_all add: guard_of_def PooledGuard_as_ref_def PooledGuard_deref_def PooledGuard_as_mut_def PooledGuard_deref_mut_def)

section \<open>Expired connections\<close>

lemma remove_indices_filter:
  "available st = xs @ zs \<Longrightarrow>
   remove_indices (rev (filter (\<lambda>i. P (xs ! i)) [0..<length xs])) st acc =
     (acc @ rev (map pooled_connection (filter P xs)),
      st\<lparr>available := filter (\<lambda>p. \<not> P p) xs @ zs,
         total_connections := total_connections st - of_nat (length (filter P xs))\<rparr>)"
proof (induction xs arbitrary: zs st acc rule: rev_induct)
  case Nil
  then show ?case by simp
next
  case (snoc x xs)
  have idxs: "filter (\<lambda>i. P ((xs @ [x]) ! i)) [0..<length (xs @ [x])] =
      filter (\<lambda>i. P (xs ! i)) [0..<length xs] @ (if P x then [length xs] else [])"
    by (auto simp: nth_append intro: filter_cong)
  show ?case
  proof (cases "P x")
    case True
    have "vecdeque_remove (length xs) (available st) = Some (x, xs @ zs)"
      using snoc.prems by (simp add: vecdeque_remove_def)
    with True snoc.IH [of "st\<lparr>available := xs @ zs, total_connections := total_connections st - 1\<rparr>" zs
        "acc @ [pooled_connection x]"] show ?thesis
      unfolding idxs by (simp add: algebra_simps)
  next
    case False
    with snoc.IH [of st "x # zs" acc] snoc.prems show ?thesis unfolding idxs by simp
  qed
qed

lemma remove_expired_eq:
  "ConnectionPool_remove_expired now config st =
     (rev (map pooled_connection (filter (PooledConnection_is_expired now config) (available st))),
      st\<lparr>available := filter (\<lambda>p. \<not> PooledConnection_is_expired now config p) (available st),
         total_connections := total_connections st -
           of_nat (length (filter (PooledConnection_is_expired now config) (available st)))\<rparr>)"
  using remove_indices_filter [of st "available st" "[]" "PooledConnection_is_expired now config" "[]"]
  by (simp add: ConnectionPool_remove_expired_def)

lemma drain_available_eq:
  "drain_available st xs conns =
     (conns @ map pooled_connection xs,
      st\<lparr>available := [], total_connections := total_connections st - of_nat (length xs)\<rparr>)"
  by (induction xs arbitrary: st conns) (simp_all add: algebra_simps)

section \<open>Interleavings\<close>

text \<open>
  The pool with the calls under way: callers that hold a permit and have not entered the
  lock section, connections that are being validated, callers that are creating a
  connection, connections lent out, guards that have put their connection back and not yet
  dropped the permit, and creations that a running \<open>prune_idle\<close> still has to do. The
  error of a failed creation is not observed here. \<open>lost\<close>
  counts the connections that were taken from the queue and never put back: those found
  invalid, and those of calls cancelled while they validated; \<open>pruned\<close> counts those that
  \<open>prune_idle\<close> has created.
\<close>

record ('s, 't) pool_system =
  pool :: "('s, 't) ConnectionPool"
  permitted :: nat
  validating :: "'t list"
  creating :: nat
  lent :: "'t list"
  returning :: nat
  pruning :: nat
  pruned :: nat
  lost :: nat

definition pool_start :: "('s, 't) ConnectionPool \<Rightarrow> ('s, 't) pool_system" where
  "pool_start p =
     \<lparr>pool = p, permitted = 0, validating = [], creating = 0, lent = [], returning = 0, pruning = 0,
      pruned = 0, lost = 0\<rparr>"

inductive pool_step :: "'s semaphore_ops \<Rightarrow> ('s, 't) pool_system \<Rightarrow> ('s, 't) pool_system \<Rightarrow> bool" for S where
  permit: "ConnectionPool_permit S (pool s) = (Inr () :: unit PoolError + unit, p) \<Longrightarrow>
     pool_step S s (s\<lparr>pool := p, permitted := Suc (permitted s)\<rparr>)"
| take_idle: "permitted s = Suc n \<Longrightarrow> ConnectionPool_take now (pool s) = (Some c, expired, p) \<Longrightarrow>
     pool_step S s (s\<lparr>pool := p, permitted := n, validating := c # validating s\<rparr>)"
| take_none: "permitted s = Suc n \<Longrightarrow> ConnectionPool_take now (pool s) = (None, expired, p) \<Longrightarrow>
     pool_step S s (s\<lparr>pool := p, permitted := n, creating := Suc (creating s)\<rparr>)"
| valid: "c \<in> set (validating s) \<Longrightarrow>
     pool_step S s (s\<lparr>validating := remove1 c (validating s), lent := c # lent s\<rparr>)"
| invalid: "c \<in> set (validating s) \<Longrightarrow>
     pool_step S s (s\<lparr>validating := remove1 c (validating s), creating := Suc (creating s), lost := Suc (lost s)\<rparr>)"
| created: "creating s = Suc n \<Longrightarrow> ConnectionPool_create_connection (Inr c) (pool s) = (Inr c :: unit PoolError + 't, p) \<Longrightarrow>
     pool_step S s (s\<lparr>pool := p, creating := n, lent := c # lent s\<rparr>)"
| create_fails: "creating s = Suc n \<Longrightarrow>
     pool_step S s (s\<lparr>pool := release_permit S (pool s), creating := n\<rparr>)"
| cancel_permitted: "permitted s = Suc n \<Longrightarrow>
     pool_step S s (s\<lparr>pool := release_permit S (pool s), permitted := n\<rparr>)"
| cancel_validating: "c \<in> set (validating s) \<Longrightarrow>
     pool_step S s (s\<lparr>pool := release_permit S (pool s), validating := remove1 c (validating s),
       lost := Suc (lost s)\<rparr>)"
| return: "c \<in> set (lent s) \<Longrightarrow>
     pool_step S s (s\<lparr>pool := PooledGuard_return now c (pool s), lent := remove1 c (lent s),
       returning := Suc (returning s)\<rparr>)"
| release: "returning s = Suc n \<Longrightarrow>
     pool_step S s (s\<lparr>pool := release_permit S (pool s), returning := n\<rparr>)"
| prune: "ConnectionPool_prune_lock now (pool s) = (needed, expired, p) \<Longrightarrow>
     pool_step S s (s\<lparr>pool := p, pruning := pruning s + needed\<rparr>)"
| prune_create: "pruning s = Suc n \<Longrightarrow>
     pool_step S s (s\<lparr>pool := ConnectionPool_prune_create now (created :: unit + 't) (pool s), pruning := n,
       pruned := pruned s + (case created of Inr _ \<Rightarrow> 1 | Inl _ \<Rightarrow> 0)\<rparr>)"
| shutdown: "ConnectionPool_shutdown (pool s) = (closed, p) \<Longrightarrow> pool_step S s (s\<lparr>pool := p\<rparr>)"

text \<open>
  Every permit is accounted for, and the total counts the idle connections, those in use
  and those that were lost.
\<close>

definition in_use :: "('s, 't) pool_system \<Rightarrow> nat" where
  "in_use s = length (validating s) + length (lent s)"

definition counted_out :: "('s, 't) ConnectionPool \<Rightarrow> usize" where
  "counted_out p = total_connections (pool_state p) - of_nat (length (available (pool_state p)))"

definition pool_inv :: "PoolConfig \<Rightarrow> 's semaphore_ops \<Rightarrow> ('s, 't) pool_system \<Rightarrow> bool" where
  "pool_inv config S s \<longleftrightarrow>
     pool_config (pool s) = config \<and> pool_max_size config \<le> MAX_PERMITS \<and>
     sem_available S (pool_sem (pool s)) + permitted s + creating s + in_use s + returning s = pool_max_size config \<and>
     counted_out (pool s) = of_nat (in_use s + lost s) \<and>
     length (available (pool_state (pool s))) + in_use s + creating s \<le> pool_max_size config + pruned s"

lemma length_filter_split: "length xs = length (filter P xs) + length (filter (\<lambda>x. \<not> P x) xs)"
  by (simp add: sum_length_filter_compl)

lemma of_nat_length_split:
  "(of_nat (length xs) :: usize) = of_nat (length (filter P xs)) + of_nat (length (filter (\<lambda>x. \<not> P x) xs))"
  by (metis length_filter_split of_nat_add)

lemma take_frame:
  assumes "ConnectionPool_take now p = (c, expired, p')"
  shows "pool_config p' = pool_config p \<and> pool_sem p' = pool_sem p \<and>
    counted_out p' = counted_out p + (if c = None then 0 else 1) \<and>
    (if c = None then available (pool_state p') = []
     else Suc (length (available (pool_state p'))) \<le> length (available (pool_state p)))"
proof -
  let ?live = "filter (\<lambda>q. \<not> PooledConnection_is_expired now (pool_config p) q) (available (pool_state p))"
  have "Suc (length xs) \<le> length (available (pool_state p))" if "?live = x # xs" for x xs
    using that by (metis length_Cons length_filter_le)
  then show ?thesis
    using assms of_nat_length_split [of "available (pool_state p)" "PooledConnection_is_expired now (pool_config p)"]
    by (auto simp: ConnectionPool_take_def remove_expired_eq counted_out_def algebra_simps split: list.splits)
qed

lemma prune_lock_frame:
  assumes "ConnectionPool_prune_lock now p = (needed, expired, p')"
  shows "pool_config p' = pool_config p \<and> pool_sem p' = pool_sem p \<and> counted_out p' = counted_out p \<and>
    length (available (pool_state p')) \<le> length (available (pool_state p))"
  using assms of_nat_length_split [of "available (pool_state p)" "PooledConnection_is_expired now (pool_config p)"]
  by (auto simp: ConnectionPool_prune_lock_def remove_expired_eq counted_out_def algebra_simps)

lemma counted_out_simps [simp]:
  "counted_out (release_permit S p) = counted_out p"
  "counted_out (PooledGuard_return now c p) = counted_out p - 1"
  "counted_out (ConnectionPool_prune_create now created p) = counted_out p"
  "counted_out (snd (ConnectionPool_shutdown p)) = counted_out p"
  "counted_out (p\<lparr>pool_sem := sem\<rparr>) = counted_out p"
  by (simp_all add: counted_out_def release_permit_def PooledGuard_return_def ConnectionPool_prune_create_def
        ConnectionPool_shutdown_def drain_available_eq split: sum.splits)

lemma available_simps [simp]:
  "available (pool_state (release_permit S p)) = available (pool_state p)"
  "length (available (pool_state (PooledGuard_return now c p))) = Suc (length (available (pool_state p)))"
  "available (pool_state (snd (ConnectionPool_shutdown p))) = []"
  by (simp_all add: release_permit_def PooledGuard_return_def ConnectionPool_shutdown_def drain_available_eq)

lemma pool_frame_simps [simp]:
  "pool_config (release_permit S p) = pool_config p"
  "pool_config (PooledGuard_return now c p) = pool_config p"
  "pool_config (ConnectionPool_prune_create now created p) = pool_config p"
  "pool_config (snd (ConnectionPool_shutdown p)) = pool_config p"
  "pool_sem (PooledGuard_return now c p) = pool_sem p"
  "pool_sem (ConnectionPool_prune_create now created p) = pool_sem p"
  "pool_sem (snd (ConnectionPool_shutdown p)) = pool_sem p"
  by (simp_all add: release_permit_def PooledGuard_return_def ConnectionPool_prune_create_def
        ConnectionPool_shutdown_def drain_available_eq split: sum.splits)

lemma length_remove1_Suc: "x \<in> set xs \<Longrightarrow> length xs = Suc (length (remove1 x xs))"
  using length_pos_if_in_set [of x xs] by (simp add: length_remove1)

context semaphore
begin

lemma release_available:
  assumes "sem_available S (pool_sem p) < MAX_PERMITS"
  shows "sem_available S (pool_sem (release_permit S p)) = Suc (sem_available S (pool_sem p))"
  using assms available_add [of "pool_sem p" 1] by (simp add: release_permit_def)

lemma pool_inv_released:
  assumes "pool_inv config S s"
    and "Suc (permitted t + creating t + in_use t + returning t) = permitted s + creating s + in_use s + returning s"
    and "in_use t + lost t = in_use s + lost s" "in_use t + creating t \<le> in_use s + creating s" "pruned t = pruned s"
    and "pool t = release_permit S (pool s)"
  shows "pool_inv config S t"
proof -
  have "sem_available S (pool_sem (pool s)) < MAX_PERMITS" using assms(1,2) by (simp add: pool_inv_def)
  from release_available [OF this] assms show ?thesis by (simp add: pool_inv_def del: of_nat_add)
qed

lemma pool_step_inv:
  assumes "pool_step S s t" "pool_inv config S s"
  shows "pool_inv config S t"
  using assms(1)
proof (cases rule: pool_step.cases)
  case (permit p)
  then show ?thesis
    using assms(2) acquired_available [of "pool_sem (pool s)"]
    by (auto simp: pool_inv_def ConnectionPool_permit_def in_use_def split: try_acquire.splits)
next
  case (take_idle n now c expired p)
  then show ?thesis using assms(2) take_frame [OF take_idle(3)] by (auto simp: pool_inv_def in_use_def)
next
  case (take_none n now expired p)
  then show ?thesis using assms(2) take_frame [OF take_none(3)] by (auto simp: pool_inv_def in_use_def)
next
  case (valid c)
  then show ?thesis using assms(2) length_remove1_Suc [OF valid(2)] by (auto simp: pool_inv_def in_use_def)
next
  case (invalid c)
  then show ?thesis using assms(2) length_remove1_Suc [OF invalid(2)] by (auto simp: pool_inv_def in_use_def)
next
  case (created n c p)
  then show ?thesis
    using assms(2) by (auto simp: pool_inv_def in_use_def ConnectionPool_create_connection_def counted_out_def)
next
  case (create_fails n)
  then show ?thesis using pool_inv_released [OF assms(2), of t] by (simp add: in_use_def)
next
  case (cancel_permitted n)
  then show ?thesis using pool_inv_released [OF assms(2), of t] by (simp add: in_use_def)
next
  case (cancel_validating c)
  then show ?thesis
    using pool_inv_released [OF assms(2), of t] length_remove1_Suc [OF cancel_validating(2)] by (simp add: in_use_def)
next
  case (return c now)
  then show ?thesis using assms(2) length_remove1_Suc [OF return(2)] by (auto simp: pool_inv_def in_use_def)
next
  case (release n)
  then show ?thesis using pool_inv_released [OF assms(2), of t] by (simp add: in_use_def)
next
  case (prune now needed expired p)
  then show ?thesis using assms(2) prune_lock_frame [OF prune(2)] by (auto simp: pool_inv_def in_use_def)
next
  case (prune_create n created now)
  then show ?thesis
    using assms(2) by (cases created) (auto simp: pool_inv_def in_use_def ConnectionPool_prune_create_def counted_out_def)
next
  case (shutdown closed p)
  then have "counted_out p = counted_out (pool s)" "pool_config p = pool_config (pool s)" "pool_sem p = pool_sem (pool s)"
    "available (pool_state p) = []"
    by (metis counted_out_simps(4) snd_conv, metis pool_frame_simps(4) snd_conv, metis pool_frame_simps(7) snd_conv,
        metis available_simps(3) snd_conv)
  with shutdown(1) show ?thesis using assms(2) by (simp add: pool_inv_def in_use_def)
qed

lemma pool_start_inv:
  "pool_max_size config \<le> MAX_PERMITS \<Longrightarrow> pool_inv config S (pool_start (ConnectionPool_new S config))"
  using available_new by (simp add: pool_inv_def pool_start_def ConnectionPool_new_def in_use_def counted_out_def)

end

interpretation pool_conc: step_system "pool_step S" "\<lambda>s. semaphore S \<longrightarrow> pool_inv config S s"
  by unfold_locales (blast intro: semaphore.pool_step_inv)

section \<open>Properties\<close>

text \<open>
  C16. The pool under concurrency. However calls, guards, pruning and shutdowns interleave:
  at most \<open>max_size\<close> connections are lent out; permits are not lost, so that when no call is
  under way and no guard is alive all \<open>max_size\<close> permits are available again; the live
  connections, idle, in use or being created, never exceed \<open>max_size\<close> by more than the
  number that pruning created; and the reported total is the number of idle connections and
  connections in use, plus one for every connection that was found invalid or was dropped
  by a cancelled call (such a connection is never subtracted).
\<close>

theorem pool_concurrent:
  assumes "semaphore S" "pool_max_size config \<le> MAX_PERMITS"
    and "(pool_step S)\<^sup>*\<^sup>* (pool_start (ConnectionPool_new S config)) s"
  shows "length (lent s) \<le> pool_max_size config \<and>
    (permitted s = 0 \<and> creating s = 0 \<and> in_use s = 0 \<and> returning s = 0 \<longrightarrow>
       sem_available S (pool_sem (pool s)) = pool_max_size config) \<and>
    stats_available (ConnectionPool_stats (pool s)) + in_use s + creating s \<le> pool_max_size config + pruned s \<and>
    stats_total (ConnectionPool_stats (pool s)) =
      of_nat (stats_available (ConnectionPool_stats (pool s)) + in_use s + lost s)"
proof -
  have "pool_inv config S s"
    using pool_conc.steps_inv [OF assms(3)] semaphore.pool_start_inv [OF assms(1,2)] assms(1) by blast
  then show ?thesis
    by (auto simp: pool_inv_def in_use_def ConnectionPool_stats_def counted_out_def algebra_simps)
qed

definition tiny_pool :: PoolConfig where
  "tiny_pool = PoolConfig_with_min_size 1 (PoolConfig_with_max_size 1 PoolConfig_new)"

abbreviation tiny_state :: "nat \<Rightarrow> nat PooledConnection list \<Rightarrow> usize \<Rightarrow> (nat, nat) ConnectionPool" where
  "tiny_state sem idle n \<equiv>
     \<lparr>pool_config = tiny_pool, pool_state = \<lparr>available = idle, total_connections = n\<rparr>, pool_sem = sem\<rparr>"

lemmas tiny_defs =
  tiny_pool_def config_defs pool_start_def ConnectionPool_new_def counter_semaphore_def ConnectionPool_permit_def
  ConnectionPool_take_def remove_expired_eq ConnectionPool_create_connection_def ConnectionPool_prune_lock_def
  ConnectionPool_prune_create_def

lemma tiny_start: "pool_start (ConnectionPool_new counter_semaphore tiny_pool) = pool_start (tiny_state 1 [] 0)"
  by (simp add: tiny_defs)

theorem pool_concurrent_witness:
  "\<exists>s :: (nat, nat) pool_system.
     (pool_step counter_semaphore)\<^sup>*\<^sup>* (pool_start (ConnectionPool_new counter_semaphore tiny_pool)) s \<and>
     permitted s = 1 \<and> length (lent s) \<le> 1 \<and>
     stats_available (ConnectionPool_stats (pool s)) + in_use s + creating s \<le> 1 + pruned s"
proof -
  define s where "s = (pool_start (tiny_state 0 [] 0))\<lparr>permitted := 1\<rparr>"
  have "pool_step counter_semaphore (pool_start (tiny_state 1 [] 0)) s"
    using pool_step.permit [of counter_semaphore "pool_start (tiny_state 1 [] 0)" "tiny_state 0 [] 0"]
    by (simp add: s_def tiny_defs)
  then have reach: "(pool_step counter_semaphore)\<^sup>*\<^sup>* (pool_start (ConnectionPool_new counter_semaphore tiny_pool)) s"
    unfolding tiny_start by blast
  have max: "pool_max_size tiny_pool = 1" "pool_max_size tiny_pool \<le> MAX_PERMITS"
    by (simp_all add: tiny_pool_def config_defs MAX_PERMITS_def)
  have "permitted s = 1" by (simp add: s_def)
  with pool_concurrent [OF counter.semaphore_axioms max(2) reach] reach show ?thesis unfolding max(1) by blast
qed

text \<open>
  \<open>max_size\<close> can be exceeded. A \<open>prune_idle\<close> that has computed how many connections are
  missing, and creates them after an \<open>acquire\<close> has created one as well, leaves a pool of
  \<open>max_size\<close> one with one connection lent out and one idle.
\<close>

theorem pool_prune_exceeds_max:
  "\<exists>s. (pool_step counter_semaphore)\<^sup>*\<^sup>* (pool_start (ConnectionPool_new counter_semaphore tiny_pool)) s \<and>
     pool_max_size tiny_pool = 1 \<and> lent s = [7 :: nat] \<and>
     map pooled_connection (available (pool_state (pool s))) = [8]"
proof -
  let ?c = "PooledConnection_new 0 8"
  let ?s0 = "pool_start (tiny_state 1 [] 0)"
  let ?s1 = "?s0\<lparr>pruning := 1\<rparr>"
  let ?s2 = "?s1\<lparr>pool := tiny_state 0 [] 0, permitted := 1\<rparr>"
  let ?s3 = "?s1\<lparr>pool := tiny_state 0 [] 0, creating := 1\<rparr>"
  let ?s4 = "?s1\<lparr>pool := tiny_state 0 [] 1, lent := [7]\<rparr>"
  let ?s5 = "?s4\<lparr>pool := tiny_state 0 [?c] 2, pruning := 0, pruned := 1\<rparr>"
  have 1: "pool_step counter_semaphore ?s0 ?s1"
    using pool_step.prune [of 0 ?s0 1 "[]" "tiny_state 1 [] 0" counter_semaphore] by (simp add: tiny_defs)
  have 2: "pool_step counter_semaphore ?s1 ?s2"
    using pool_step.permit [of counter_semaphore ?s1 "tiny_state 0 [] 0"] by (simp add: tiny_defs)
  have 3: "pool_step counter_semaphore ?s2 ?s3"
    using pool_step.take_none [of ?s2 0 0 "[]" "tiny_state 0 [] 0" counter_semaphore] by (simp add: tiny_defs)
  have 4: "pool_step counter_semaphore ?s3 ?s4"
    using pool_step.created [of ?s3 0 7 "tiny_state 0 [] 1" counter_semaphore] by (simp add: tiny_defs)
  have 5: "pool_step counter_semaphore ?s4 ?s5"
    using pool_step.prune_create [of ?s4 0 counter_semaphore "Inr 8" 0] by (simp add: tiny_defs)
  from rtranclp_trans [OF rtranclp_2 [of "pool_step counter_semaphore", OF 1 2]
      rtranclp_2 [of "pool_step counter_semaphore", OF 3 4]] 5
  have "(pool_step counter_semaphore)\<^sup>*\<^sup>* (pool_start (ConnectionPool_new counter_semaphore tiny_pool)) ?s5"
    unfolding tiny_start by (rule rtranclp.rtrancl_into_rtrancl)
  then show ?thesis
    by (intro exI [of _ ?s5]) (simp add: tiny_pool_def config_defs PooledConnection_new_def)
qed

text \<open>What \<open>acquire\<close> does once it has a permit, in one equation.\<close>

lemma acquire_permitted:
  assumes "sem_try_acquire S (pool_sem p) = Acquired sem"
    and "live = filter (\<lambda>q. \<not> PooledConnection_is_expired now (pool_config p) q) (available (pool_state p))"
    and "expired = filter (PooledConnection_is_expired now (pool_config p)) (available (pool_state p))"
    and "p1 = p\<lparr>pool_sem := sem, pool_state := (pool_state p)
       \<lparr>available := drop 1 live, total_connections := total_connections (pool_state p) - of_nat (length expired)\<rparr>\<rparr>"
  shows "ConnectionPool_acquire S now valid created p =
    (let (r, p2) = (if live \<noteq> [] \<and> valid (pooled_connection (hd live)) then (Inr (pooled_connection (hd live)), p1)
                    else ConnectionPool_create_connection created p1)
     in (r, rev (map pooled_connection expired), case r of Inl _ \<Rightarrow> release_permit S p2 | Inr _ \<Rightarrow> p2))"
  using assms(1)
  by (cases live; cases created)
     (simp_all add: assms(3,4) assms(2) [symmetric] ConnectionPool_acquire_def ConnectionPool_permit_def
        ConnectionPool_take_def remove_expired_eq PooledConnection_touch_def ConnectionPool_create_connection_def
        release_permit_def)

text \<open>
  C33. What \<open>acquire\<close> hands out and what it closes. With a permit available it closes exactly
  the idle connections that have expired; it hands out the connection that has been idle
  longest among the others when that one is valid, and otherwise a newly created one; if the
  creation fails, the error is passed on and the permit is given back. Without a permit the
  call fails with a timeout and changes nothing.
\<close>

theorem pool_acquire_outcome:
  assumes "semaphore S" "\<not> sem_is_closed S (pool_sem p)" "sem_available S (pool_sem p) \<le> MAX_PERMITS"
    and "live = filter (\<lambda>q. \<not> PooledConnection_is_expired now (pool_config p) q) (available (pool_state p))"
    and "ConnectionPool_acquire S now valid created p = (r, closed, p')"
  shows "if sem_available S (pool_sem p) = 0 then r = Inl Timeout \<and> closed = [] \<and> p' = p
    else
      set closed = pooled_connection ` {q \<in> set (available (pool_state p)). PooledConnection_is_expired now (pool_config p) q} \<and>
      available (pool_state p') = drop 1 live \<and>
      r = (if live \<noteq> [] \<and> valid (pooled_connection (hd live)) then Inr (pooled_connection (hd live))
           else case created of Inl e \<Rightarrow> Inl (Create e) | Inr c \<Rightarrow> Inr c) \<and>
      sem_available S (pool_sem p') =
        (if isl r then sem_available S (pool_sem p) else sem_available S (pool_sem p) - 1)"
proof (cases "sem_available S (pool_sem p) = 0")
  case True
  then show ?thesis
    using assms(2,5) semaphore.no_permits [OF assms(1), of "pool_sem p"]
    by (simp add: ConnectionPool_acquire_def ConnectionPool_permit_def)
next
  case False
  then obtain sem where sem: "sem_try_acquire S (pool_sem p) = Acquired sem"
    using assms(2) semaphore.permits [OF assms(1), of "pool_sem p"] by blast
  then have avail: "sem_available S (pool_sem p) = Suc (sem_available S sem)"
    by (rule semaphore.acquired_available [OF assms(1)])
  then have "sem_available S (sem_add_permits S 1 sem) = sem_available S (pool_sem p)"
    using semaphore.available_add [OF assms(1), of sem 1] assms(3) by simp
  moreover define expired where "expired = filter (PooledConnection_is_expired now (pool_config p)) (available (pool_state p))"
  moreover define p1 where "p1 = p\<lparr>pool_sem := sem, pool_state := (pool_state p)
    \<lparr>available := drop 1 live, total_connections := total_connections (pool_state p) - of_nat (length expired)\<rparr>\<rparr>"
  moreover have "(r, closed, p') =
    (let (r, p2) = (if live \<noteq> [] \<and> valid (pooled_connection (hd live)) then (Inr (pooled_connection (hd live)), p1)
                    else ConnectionPool_create_connection created p1)
     in (r, rev (map pooled_connection expired), case r of Inl _ \<Rightarrow> release_permit S p2 | Inr _ \<Rightarrow> p2))"
    unfolding assms(5) [symmetric] by (rule acquire_permitted [OF sem assms(4) expired_def p1_def])
  moreover have "set (rev (map pooled_connection expired)) =
      pooled_connection ` {q \<in> set (available (pool_state p)). PooledConnection_is_expired now (pool_config p) q}"
    by (simp add: expired_def)
  ultimately show ?thesis
    using False avail
    by (cases "live = []"; cases "valid (pooled_connection (hd live))"; cases created)
       (simp_all add: ConnectionPool_create_connection_def release_permit_def)
qed

theorem pool_acquire_outcome_witness:
  "fst (ConnectionPool_acquire counter_semaphore 0 (\<lambda>_. True) (Inl ()) (tiny_state 1 [PooledConnection_new 0 5] 1)) = Inr 5"
proof -
  obtain r closed p' where acq: "ConnectionPool_acquire counter_semaphore 0 (\<lambda>_. True) (Inl ())
      (tiny_state 1 [PooledConnection_new 0 5] 1) = (r, closed, p')"
    using prod_cases3 by blast
  have "r = Inr 5"
    using pool_acquire_outcome [OF counter.semaphore_axioms _ _ refl acq]
    by (simp add: counter_semaphore_def MAX_PERMITS_def PooledConnection_new_def PooledConnection_is_expired_def
          tiny_pool_def config_defs elapsed_def)
  with acq show ?thesis by simp
qed

text \<open>The pool after \<open>n\<close> rounds in which the connection is acquired and dropped every \<open>d\<close>.\<close>

fun reuse_every :: "'s semaphore_ops \<Rightarrow> duration \<Rightarrow> nat \<Rightarrow> ('s, 't) ConnectionPool \<Rightarrow> ('s, 't) ConnectionPool" where
  "reuse_every S d 0 p = p"
| "reuse_every S d (Suc n) p =
     (let p = reuse_every S d n p;
          now = Suc n * d
      in case ConnectionPool_acquire S now (\<lambda>_. True) (Inl () :: unit + 't) p of
           (Inr conn, _, p) \<Rightarrow> PooledGuard_drop S now conn p
         | (Inl _, _, p) \<Rightarrow> p)"

lemma reuse_round:
  assumes "semaphore S" "\<not> sem_is_closed S (pool_sem p)" "0 < sem_available S (pool_sem p)"
    and "sem_available S (pool_sem p) \<le> MAX_PERMITS" "pool_config p = config"
    and "d \<le> pool_idle_timeout config" "\<forall>lifetime. max_lifetime config = Some lifetime \<longrightarrow> d \<le> lifetime"
    and "available (pool_state p) = [PooledConnection_new t c]"
  shows "\<exists>p'. ConnectionPool_acquire S (t + d) (\<lambda>_. True) created p = (Inr c, [], p') \<and>
    (let q = PooledGuard_drop S (t + d) c p' in
     \<not> sem_is_closed S (pool_sem q) \<and> sem_available S (pool_sem q) = sem_available S (pool_sem p) \<and>
     pool_config q = config \<and> available (pool_state q) = [PooledConnection_new (t + d) c])"
proof -
  obtain sem where sem: "sem_try_acquire S (pool_sem p) = Acquired sem"
    using assms(2,3) semaphore.permits [OF assms(1), of "pool_sem p"] by blast
  have fresh: "\<not> PooledConnection_is_expired (t + d) config (PooledConnection_new t c)"
    using assms(6,7) by (auto simp: PooledConnection_is_expired_def PooledConnection_new_def elapsed_def split: option.splits)
  have "sem_available S (pool_sem p) = Suc (sem_available S sem)" "\<not> sem_is_closed S sem"
    using semaphore.acquired_available [OF assms(1) sem] semaphore.acquired_open [OF assms(1) sem] assms(2) by auto
  moreover from this have "sem_available S (sem_add_permits S 1 sem) = sem_available S (pool_sem p)"
    "\<not> sem_is_closed S (sem_add_permits S 1 sem)"
    using assms(4) semaphore.available_add [OF assms(1), of sem 1] semaphore.open_add [OF assms(1), of sem 1] by auto
  moreover have "filter (\<lambda>q. \<not> PooledConnection_is_expired (t + d) (pool_config p) q) (available (pool_state p)) =
      [PooledConnection_new t c]"
    "filter (PooledConnection_is_expired (t + d) (pool_config p)) (available (pool_state p)) = []"
    using fresh assms(5,8) by simp_all
  ultimately show ?thesis
    using acquire_permitted [OF sem refl refl refl, of "t + d" "\<lambda>_. True" created] assms(5)
    by (simp add: PooledGuard_drop_def PooledGuard_return_def release_permit_def Let_def) (simp add: PooledConnection_new_def)
qed

text \<open>
  The maximal lifetime of a connection is not enforced. A connection that is acquired
  and dropped again every \<open>d\<close>, with \<open>d\<close> within the idle timeout and the maximal lifetime, is
  handed out at time \<open>n * d\<close> for every \<open>n\<close>: dropping the guard wraps the connection anew, so
  its recorded creation time is that of the last use.
\<close>

theorem pool_lifetime_not_enforced:
  assumes "semaphore S" "\<not> sem_is_closed S (pool_sem p)" "0 < sem_available S (pool_sem p)"
    and "sem_available S (pool_sem p) \<le> MAX_PERMITS" "pool_config p = config"
    and "d \<le> pool_idle_timeout config" "\<forall>lifetime. max_lifetime config = Some lifetime \<longrightarrow> d \<le> lifetime"
    and "available (pool_state p) = [PooledConnection_new 0 c]"
  shows "fst (ConnectionPool_acquire S (Suc n * d) (\<lambda>_. True) created (reuse_every S d n p)) = Inr c"
proof -
  have "\<not> sem_is_closed S (pool_sem (reuse_every S d n p)) \<and>
    sem_available S (pool_sem (reuse_every S d n p)) = sem_available S (pool_sem p) \<and>
    pool_config (reuse_every S d n p) = config \<and>
    available (pool_state (reuse_every S d n p)) = [PooledConnection_new (n * d) c]"
  proof (induction n)
    case (Suc n)
    then show ?case
      using reuse_round [OF assms(1), of "reuse_every S d n p" config d "n * d" c "Inl ()"] assms(3,4,6,7)
      by (auto simp: Let_def add.commute)
  qed (use assms in simp)
  with reuse_round [OF assms(1), of "reuse_every S d n p" config d "n * d" c created] assms(3,4,6,7) show ?thesis
    by (auto simp: Let_def add.commute)
qed

theorem pool_lifetime_not_enforced_witness:
  "fst (ConnectionPool_acquire counter_semaphore (Suc 100 * from_secs 60) (\<lambda>_. True) (Inl ())
     (reuse_every counter_semaphore (from_secs 60) 100 (tiny_state 1 [PooledConnection_new 0 5] 1))) = Inr 5 \<and>
   max_lifetime tiny_pool = Some (from_secs 3600) \<and> from_secs 3600 < Suc 100 * from_secs 60"
proof -
  have "fst (ConnectionPool_acquire counter_semaphore (Suc 100 * from_secs 60) (\<lambda>_. True) (Inl () :: unit + nat)
     (reuse_every counter_semaphore (from_secs 60) 100 (tiny_state 1 [PooledConnection_new 0 5] 1))) = Inr 5"
    by (rule pool_lifetime_not_enforced [OF counter.semaphore_axioms, where config = tiny_pool])
       (simp_all add: counter_semaphore_def MAX_PERMITS_def tiny_pool_def config_defs from_secs_def)
  then show ?thesis by (simp add: tiny_pool_def config_defs from_secs_def)
qed

end
