(* ===== verification/Cache.thy ===== *)
theory Cache
  imports Float64 "HOL-Library.AList"
begin

text \<open>
  The cache with expiry and least-recently-used eviction, and the tiered cache on top of
  it (\<open>src/pooling/cache.rs\<close>). Every method but \<open>clear\<close> runs under the lock of the entries, so a
  cache is a machine whose events are the method calls. \<open>clear\<close> gives the lock back before it
  empties the order: run with nothing in between it is one event too (\<open>Cache_clear\<close>), and
  \<open>cache_clear_race\<close> shows what an \<open>insert\<close> between its two halves leaves.

  The hash map is an association list with distinct keys. Its iteration order is not
  specified, so the key that \<open>keys().next()\<close> yields is given by the argument \<open>next_key\<close>,
  a function of the keys.
\<close>

section \<open>Model\<close>

record CacheConfig =
  cache_capacity :: nat
  cache_ttl :: "duration option"
  enable_lru :: bool

definition CacheConfig_default :: CacheConfig where
  "CacheConfig_default = \<lparr>cache_capacity = 1000, cache_ttl = Some (from_secs 300), enable_lru = True\<rparr>"

definition CacheConfig_new :: CacheConfig where
  "CacheConfig_new = CacheConfig_default"

definition CacheConfig_with_capacity :: "nat \<Rightarrow> CacheConfig \<Rightarrow> CacheConfig" where
  "CacheConfig_with_capacity capacity c = c\<lparr>cache_capacity := capacity\<rparr>"

definition CacheConfig_with_ttl :: "duration option \<Rightarrow> CacheConfig \<Rightarrow> CacheConfig" where
  "CacheConfig_with_ttl ttl c = c\<lparr>cache_ttl := ttl\<rparr>"

definition CacheConfig_with_lru :: "bool \<Rightarrow> CacheConfig \<Rightarrow> CacheConfig" where
  "CacheConfig_with_lru enable c = c\<lparr>enable_lru := enable\<rparr>"

lemmas CacheConfig_defs [config_defs] =
  CacheConfig_default_def CacheConfig_new_def CacheConfig_with_capacity_def
  CacheConfig_with_ttl_def CacheConfig_with_lru_def

record 'v CacheEntry =
  entry_value :: 'v
  entry_created_at :: instant
  last_accessed :: instant
  access_count :: u64

definition CacheEntry_new :: "instant \<Rightarrow> 'v \<Rightarrow> 'v CacheEntry" where
  "CacheEntry_new now v =
     \<lparr>entry_value = v, entry_created_at = now, last_accessed = now, access_count = 0\<rparr>"

definition CacheEntry_is_expired :: "instant \<Rightarrow> duration \<Rightarrow> 'v CacheEntry \<Rightarrow> bool" where
  "CacheEntry_is_expired now ttl e \<longleftrightarrow> elapsed now (entry_created_at e) > ttl"

definition CacheEntry_touch :: "instant \<Rightarrow> 'v CacheEntry \<Rightarrow> 'v CacheEntry" where
  "CacheEntry_touch now e = e\<lparr>last_accessed := now, access_count := access_count e + 1\<rparr>"

record ('k, 'v) Cache =
  cache_config :: CacheConfig
  entries :: "('k \<times> 'v CacheEntry) list"
  lru_order :: "'k list"

definition Cache_new :: "CacheConfig \<Rightarrow> ('k, 'v) Cache" where
  "Cache_new config = \<lparr>cache_config = config, entries = [], lru_order = []\<rparr>"

definition Cache_with_default_config :: "('k, 'v) Cache" where
  "Cache_with_default_config = Cache_new CacheConfig_default"

text \<open>\<open>lru.iter().position(..)\<close> followed by \<open>lru.remove(pos)\<close> removes the first occurrence.\<close>

definition Cache_get :: "instant \<Rightarrow> 'k \<Rightarrow> ('k, 'v) Cache \<Rightarrow> 'v option \<times> ('k, 'v) Cache" where
  "Cache_get now key c =
     (case map_of (entries c) key of
        Some entry \<Rightarrow>
          if (case cache_ttl (cache_config c) of
                Some ttl \<Rightarrow> CacheEntry_is_expired now ttl entry
              | None \<Rightarrow> False)
          then (None, c\<lparr>entries := AList.delete key (entries c)\<rparr>)
          else
            let entry = CacheEntry_touch now entry;
                c = c\<lparr>entries := AList.update key entry (entries c)\<rparr>;
                c = (if enable_lru (cache_config c) \<and> key \<in> set (lru_order c)
                     then c\<lparr>lru_order := remove1 key (lru_order c) @ [key]\<rparr> else c)
            in (Some (entry_value entry), c)
      | None \<Rightarrow> (None, c))"

definition Cache_evict_one :: "('k list \<Rightarrow> 'k option) \<Rightarrow> ('k, 'v) Cache \<Rightarrow> ('k, 'v) Cache" where
  "Cache_evict_one next_key c =
     (if enable_lru (cache_config c)
      then
        (case lru_order c of
           key # rest \<Rightarrow> c\<lparr>lru_order := rest, entries := AList.delete key (entries c)\<rparr>
         | [] \<Rightarrow> c)
      else
        (case next_key (map fst (entries c)) of
           Some key \<Rightarrow> c\<lparr>entries := AList.delete key (entries c)\<rparr>
         | None \<Rightarrow> c))"

definition Cache_insert ::
  "('k list \<Rightarrow> 'k option) \<Rightarrow> instant \<Rightarrow> 'k \<Rightarrow> 'v \<Rightarrow> ('k, 'v) Cache \<Rightarrow> ('k, 'v) Cache" where
  "Cache_insert next_key now key value c =
     (let c = (if length (entries c) \<ge> cache_capacity (cache_config c) \<and> map_of (entries c) key = None
               then Cache_evict_one next_key c else c);
          c = c\<lparr>entries := AList.update key (CacheEntry_new now value) (entries c)\<rparr>
      in if enable_lru (cache_config c) then c\<lparr>lru_order := lru_order c @ [key]\<rparr> else c)"

definition Cache_remove :: "'k \<Rightarrow> ('k, 'v) Cache \<Rightarrow> 'v option \<times> ('k, 'v) Cache" where
  "Cache_remove key c =
     (let removed = map_option entry_value (map_of (entries c) key);
          c = c\<lparr>entries := AList.delete key (entries c)\<rparr>
      in (removed,
          if removed \<noteq> None \<and> enable_lru (cache_config c)
          then c\<lparr>lru_order := remove1 key (lru_order c)\<rparr> else c))"

definition Cache_clear_entries :: "('k, 'v) Cache \<Rightarrow> ('k, 'v) Cache" where
  "Cache_clear_entries c = c\<lparr>entries := []\<rparr>"

definition Cache_clear_order :: "('k, 'v) Cache \<Rightarrow> ('k, 'v) Cache" where
  "Cache_clear_order c = (if enable_lru (cache_config c) then c\<lparr>lru_order := []\<rparr> else c)"

definition Cache_clear :: "('k, 'v) Cache \<Rightarrow> ('k, 'v) Cache" where
  "Cache_clear c = Cache_clear_order (Cache_clear_entries c)"

lemma Cache_clear_alt:
  "Cache_clear c = (if enable_lru (cache_config c) then c\<lparr>entries := [], lru_order := []\<rparr> else c\<lparr>entries := []\<rparr>)"
  by (simp add: Cache_clear_def Cache_clear_order_def Cache_clear_entries_def)

record CacheStats =
  stats_size :: nat
  stats_capacity :: nat
  total_accesses :: u64

definition Cache_stats :: "('k, 'v) Cache \<Rightarrow> CacheStats" where
  "Cache_stats c =
     \<lparr>stats_size = length (entries c), stats_capacity = cache_capacity (cache_config c),
      total_accesses = sum_list (map (\<lambda>(_, e). access_count e) (entries c))\<rparr>"

definition CacheStats_usage_percentage :: "CacheStats \<Rightarrow> f64" where
  "CacheStats_usage_percentage st =
     f64_mul (f64_div (f64_of_nat (stats_size st)) (f64_of_nat (stats_capacity st))) (Fin 100)"

definition Cache_prune_expired :: "instant \<Rightarrow> ('k, 'v) Cache \<Rightarrow> nat \<times> ('k, 'v) Cache" where
  "Cache_prune_expired now c =
     (case cache_ttl (cache_config c) of
        Some ttl \<Rightarrow>
          let expired_keys = map fst (filter (\<lambda>(_, e). CacheEntry_is_expired now ttl e) (entries c)) in
          (length expired_keys,
           fold (\<lambda>key c.
              let c = c\<lparr>entries := AList.delete key (entries c)\<rparr> in
              if enable_lru (cache_config c) then c\<lparr>lru_order := remove1 key (lru_order c)\<rparr> else c)
             expired_keys c)
      | None \<Rightarrow> (0, c))"

text \<open>
  The background task of \<open>start_cleanup\<close> after some ticks, with the clock reading of each:
  \<open>tokio::time::interval\<close> panics for a zero period.
\<close>

definition Cache_start_cleanup :: "duration \<Rightarrow> instant list \<Rightarrow> ('k, 'v) Cache \<Rightarrow> ('k, 'v) Cache run" where
  "Cache_start_cleanup interval ticks c =
     (if interval = 0 then Panicked ''`period` must be non-zero.''
      else Returned (fold (\<lambda>now c. snd (Cache_prune_expired now c)) ticks c))"

text \<open>
  The function given to \<open>get_or_insert_with\<close> runs only on a miss, and outside the lock: what
  other tasks do to the cache between the look-up and the insertion is an argument.
\<close>

definition Cache_get_or_insert_with ::
  "('k list \<Rightarrow> 'k option) \<Rightarrow> instant \<Rightarrow> (('k, 'v) Cache \<Rightarrow> ('k, 'v) Cache) \<Rightarrow> instant \<Rightarrow> 'k \<Rightarrow> (unit \<Rightarrow> 'v) \<Rightarrow>
     ('k, 'v) Cache \<Rightarrow> 'v \<times> ('k, 'v) Cache" where
  "Cache_get_or_insert_with next_key now others now' key f c =
     (case Cache_get now key c of
        (Some value, c) \<Rightarrow> (value, c)
      | (None, c) \<Rightarrow> (let value = f () in (value, Cache_insert next_key now' key value (others c))))"

record ('k, 'v) TieredCache =
  l1 :: "('k, 'v) Cache"
  l1_capacity :: nat

definition TieredCache_new :: "nat \<Rightarrow> duration option \<Rightarrow> ('k, 'v) TieredCache" where
  "TieredCache_new capacity ttl =
     \<lparr>l1 = Cache_new (CacheConfig_with_ttl ttl (CacheConfig_with_capacity capacity CacheConfig_new)),
      l1_capacity = capacity\<rparr>"

definition TieredCache_get :: "instant \<Rightarrow> 'k \<Rightarrow> ('k, 'v) TieredCache \<Rightarrow> 'v option \<times> ('k, 'v) TieredCache" where
  "TieredCache_get now key t = (let (v, c) = Cache_get now key (l1 t) in (v, t\<lparr>l1 := c\<rparr>))"

definition TieredCache_insert ::
  "('k list \<Rightarrow> 'k option) \<Rightarrow> instant \<Rightarrow> 'k \<Rightarrow> 'v \<Rightarrow> ('k, 'v) TieredCache \<Rightarrow> ('k, 'v) TieredCache" where
  "TieredCache_insert next_key now key value t = t\<lparr>l1 := Cache_insert next_key now key value (l1 t)\<rparr>"

definition TieredCache_stats :: "('k, 'v) TieredCache \<Rightarrow> CacheStats" where
  "TieredCache_stats t = Cache_stats (l1 t)"

definition TieredCache_clear :: "('k, 'v) TieredCache \<Rightarrow> ('k, 'v) TieredCache" where
  "TieredCache_clear t = t\<lparr>l1 := Cache_clear (l1 t)\<rparr>"

section \<open>Well-formed caches\<close>

datatype ('k, 'v) cache_event =
    Get instant 'k
  | Insert instant 'k 'v
  | Remove 'k
  | Clear
  | Prune instant

fun cache_apply :: "('k list \<Rightarrow> 'k option) \<Rightarrow> ('k, 'v) cache_event \<Rightarrow> ('k, 'v) Cache \<Rightarrow> ('k, 'v) Cache" where
  "cache_apply next_key (Get now k) c = snd (Cache_get now k c)"
| "cache_apply next_key (Insert now k v) c = Cache_insert next_key now k v c"
| "cache_apply next_key (Remove k) c = snd (Cache_remove k c)"
| "cache_apply next_key Clear c = Cache_clear c"
| "cache_apply next_key (Prune now) c = snd (Cache_prune_expired now c)"

text \<open>Keys are distinct and, with eviction order enabled, every key is in the order.\<close>

definition cache_wf :: "('k, 'v) Cache \<Rightarrow> bool" where
  "cache_wf c \<longleftrightarrow>
     distinct (map fst (entries c)) \<and>
     (enable_lru (cache_config c) \<longrightarrow> fst ` set (entries c) \<subseteq> set (lru_order c))"

lemmas cache_defs =
  Cache_get_def Cache_insert_def Cache_evict_one_def Cache_remove_def Cache_clear_alt
  Cache_prune_expired_def

definition prune_key :: "'k \<Rightarrow> ('k, 'v) Cache \<Rightarrow> ('k, 'v) Cache" where
  "prune_key key c =
     (let c = c\<lparr>entries := AList.delete key (entries c)\<rparr> in
      if enable_lru (cache_config c) then c\<lparr>lru_order := remove1 key (lru_order c)\<rparr> else c)"

lemma keys_delete: "fst ` set (AList.delete k xs) = fst ` set xs - {k}"
  by (induction xs) auto

lemma keys_update: "fst ` set (AList.update k v xs) = insert k (fst ` set xs)"
  by (induction xs) auto

lemma distinct_keys_delete: "distinct (map fst xs) \<Longrightarrow> distinct (map fst (AList.delete k xs))"
  by (simp add: distinct_delete)

lemma distinct_keys_update: "distinct (map fst xs) \<Longrightarrow> distinct (map fst (AList.update k v xs))"
  by (simp add: distinct_update)

lemma map_of_delete: "map_of (AList.delete k xs) = (map_of xs)(k := None)"
  by (rule ext) (simp add: delete_conv')

lemma map_of_update: "map_of (AList.update k v xs) = (map_of xs)(k \<mapsto> v)"
  by (rule ext) (simp add: update_conv')

lemmas alist_simps = keys_delete keys_update distinct_keys_delete distinct_keys_update map_of_delete map_of_update

lemma subset_remove1: "A \<subseteq> set xs \<Longrightarrow> A - {k} \<subseteq> set (remove1 k xs)"
  by (metis Diff_iff in_set_remove1 insertCI subsetD subsetI)

lemma subset_move_back: "A \<subseteq> set xs \<Longrightarrow> A \<subseteq> insert k (set (remove1 k xs))"
  using subset_remove1 [of A xs k] by blast

lemma prune_key_wf: "cache_wf c \<Longrightarrow> cache_wf (prune_key k c)"
  by (simp add: cache_wf_def prune_key_def Let_def alist_simps subset_remove1)

lemma fold_prune_key_wf: "cache_wf c \<Longrightarrow> cache_wf (fold prune_key ks c)"
  by (induction ks arbitrary: c) (auto intro: prune_key_wf)

lemma Cache_prune_expired_alt:
  "Cache_prune_expired now c =
     (case cache_ttl (cache_config c) of
        Some ttl \<Rightarrow>
          let ks = map fst (filter (\<lambda>(_, e). CacheEntry_is_expired now ttl e) (entries c)) in
          (length ks, fold prune_key ks c)
      | None \<Rightarrow> (0, c))"
  unfolding Cache_prune_expired_def prune_key_def [abs_def] by (rule refl)

lemma Cache_evict_one_wf: "cache_wf c \<Longrightarrow> cache_wf (Cache_evict_one next_key c)"
  by (auto simp: cache_wf_def Cache_evict_one_def alist_simps split: list.splits option.splits)

text \<open>\<open>insert\<close> evicts if it must, then stores the entry at the back of the order.\<close>

definition put_entry :: "'k \<Rightarrow> 'v CacheEntry \<Rightarrow> ('k, 'v) Cache \<Rightarrow> ('k, 'v) Cache" where
  "put_entry k e c =
     (let c = c\<lparr>entries := AList.update k e (entries c)\<rparr> in
      if enable_lru (cache_config c) then c\<lparr>lru_order := lru_order c @ [k]\<rparr> else c)"

lemma Cache_insert_put:
  "Cache_insert next_key now k v c =
     put_entry k (CacheEntry_new now v)
       (if length (entries c) \<ge> cache_capacity (cache_config c) \<and> map_of (entries c) k = None
        then Cache_evict_one next_key c else c)"
  by (simp add: Cache_insert_def put_entry_def Let_def)

lemma put_entry_wf: "cache_wf c \<Longrightarrow> cache_wf (put_entry k e c)"
  by (simp add: cache_wf_def put_entry_def Let_def alist_simps) blast

lemma cache_apply_wf:
  assumes "cache_wf c"
  shows "cache_wf (cache_apply next_key e c)"
proof (cases e)
  case (Get now k)
  show ?thesis
    using assms
    by (simp add: Get Cache_get_def cache_wf_def Let_def alist_simps subset_move_back split: option.splits)
       (auto dest: map_of_SomeD)
next
  case (Insert now k v)
  show ?thesis
    using assms Cache_evict_one_wf [OF assms, of next_key]
    by (simp add: Insert Cache_insert_put put_entry_wf)
next
  case (Remove k)
  show ?thesis
    using assms
    by (simp add: Remove Cache_remove_def cache_wf_def Let_def alist_simps subset_remove1) blast
next
  case Clear
  show ?thesis by (simp add: Clear Cache_clear_alt cache_wf_def Let_def)
next
  case (Prune now)
  show ?thesis
    using assms fold_prune_key_wf by (auto simp: Prune Cache_prune_expired_alt Let_def split: option.splits)
qed

interpretation cache: event_system "cache_apply next_key" cache_wf
  by unfold_locales (rule cache_apply_wf)

lemma fold_prune_key_config: "cache_config (fold prune_key ks c) = cache_config c"
  by (induction ks arbitrary: c) (simp_all add: prune_key_def Let_def)

lemma cache_apply_config: "cache_config (cache_apply next_key e c) = cache_config c"
  by (cases e)
     (simp_all add: Cache_get_def Cache_insert_def Cache_evict_one_def Cache_remove_def Cache_clear_alt Let_def
        Cache_prune_expired_alt fold_prune_key_config split: option.splits list.splits)

interpretation cache_cfg: event_system "cache_apply next_key" "\<lambda>c. cache_config c = config"
  by unfold_locales (simp add: cache_apply_config)

section \<open>Reading back what was inserted\<close>

text \<open>
  The contract of a store whose entries expire: what a client may rely on between inserting
  a value and reading it. The cache and the tiered cache both provide it.
\<close>

locale expiring_store =
  fixes get :: "instant \<Rightarrow> 'k \<Rightarrow> 's \<Rightarrow> 'v option \<times> 's"
    and insert :: "instant \<Rightarrow> 'k \<Rightarrow> 'v \<Rightarrow> 's \<Rightarrow> 's"
    and holds :: "'k \<Rightarrow> 'v \<Rightarrow> instant \<Rightarrow> 's \<Rightarrow> bool"
    and fresh :: "'s \<Rightarrow> instant \<Rightarrow> instant \<Rightarrow> bool"
  assumes insert_holds: "holds k v t (insert t k v s)"
    and fresh_insert: "fresh (insert t k v s) = fresh s"
    and get_value: "holds k v t s \<Longrightarrow> fst (get now k s) = (if fresh s t now then Some v else None)"
    and get_keeps: "holds k v t s \<Longrightarrow> j = k \<longrightarrow> fresh s t now \<Longrightarrow> holds k v t (snd (get now j s))"
    and fresh_get: "fresh (snd (get now j s)) = fresh s"
begin

lemma holds_reads:
  assumes "holds k v t s" "\<forall>(now, j) \<in> set reads. j = k \<longrightarrow> fresh s t now"
  shows "holds k v t (fold (\<lambda>(now, j) s. snd (get now j s)) reads s) \<and>
    fresh (fold (\<lambda>(now, j) s. snd (get now j s)) reads s) = fresh s"
  using assms
proof (induction reads arbitrary: s)
  case (Cons r reads)
  then show ?case
    using Cons.IH [of "snd (get (fst r) (snd r) s)"] get_keeps [of k v t s "snd r" "fst r"]
    by (auto simp: fresh_get split: prod.splits)
qed simp

lemma read_after_insert:
  assumes "\<forall>(now, j) \<in> set reads. j = k \<longrightarrow> fresh s t now"
  shows "fst (get now k (fold (\<lambda>(now, j) s. snd (get now j s)) reads (insert t k v s))) =
    (if fresh s t now then Some v else None)"
proof -
  let ?s = "fold (\<lambda>(now, j) s. snd (get now j s)) reads (insert t k v s)"
  have "holds k v t ?s \<and> fresh ?s = fresh s"
    using holds_reads [OF insert_holds [of k v t s], of reads] assms by (simp add: fresh_insert)
  then show ?thesis using get_value [of k v t ?s now] by simp
qed

end

definition Cache_holds :: "'k \<Rightarrow> 'v \<Rightarrow> instant \<Rightarrow> ('k, 'v) Cache \<Rightarrow> bool" where
  "Cache_holds k v t c \<longleftrightarrow>
     (\<exists>e. map_of (entries c) k = Some e \<and> entry_value e = v \<and> entry_created_at e = t)"

definition Cache_fresh :: "('k, 'v) Cache \<Rightarrow> instant \<Rightarrow> instant \<Rightarrow> bool" where
  "Cache_fresh c t now \<longleftrightarrow>
     (case cache_ttl (cache_config c) of Some ttl \<Rightarrow> elapsed now t \<le> ttl | None \<Rightarrow> True)"

lemmas entry_defs = CacheEntry_new_def CacheEntry_is_expired_def CacheEntry_touch_def

lemma evict_config [simp]: "cache_config (Cache_evict_one next_key c) = cache_config c"
  by (simp add: Cache_evict_one_def split: list.splits option.splits)

lemma put_config [simp]: "cache_config (put_entry k e c) = cache_config c"
  by (simp add: put_entry_def Let_def)

lemma get_config [simp]: "cache_config (snd (Cache_get now k c)) = cache_config c"
  by (simp add: Cache_get_def Let_def split: option.splits)

lemma put_entries [simp]: "entries (put_entry k e c) = AList.update k e (entries c)"
  by (simp add: put_entry_def Let_def)

interpretation cache_store: expiring_store Cache_get "Cache_insert next_key" Cache_holds Cache_fresh
  by unfold_locales
     (auto simp: Cache_insert_put Cache_holds_def Cache_fresh_def Cache_get_def Let_def alist_simps entry_defs
        fun_eq_iff not_le split: option.splits)

interpretation tiered_store: expiring_store TieredCache_get "TieredCache_insert next_key"
  "\<lambda>k v t c. Cache_holds k v t (l1 c)" "\<lambda>c. Cache_fresh (l1 c)"
  by unfold_locales
     (simp_all add: TieredCache_get_def TieredCache_insert_def case_prod_beta Let_def cache_store.insert_holds
        cache_store.fresh_insert cache_store.get_value cache_store.get_keeps cache_store.fresh_get)

text \<open>
  \<open>get_or_insert_with\<close> returns a cached value without running the function, and after a miss
  the value it computes is the one that later reads find.
\<close>

lemma get_or_insert_with_memoizes:
  assumes "Cache_get_or_insert_with next_key now others now' k f c = (v, c')"
  shows "case fst (Cache_get now k c) of
      Some cached \<Rightarrow> v = cached \<and> c' = snd (Cache_get now k c)
    | None \<Rightarrow> v = f () \<and> fst (Cache_get u k c') = (if Cache_fresh c' now' u then Some v else None)"
  using assms
  by (auto simp: Cache_get_or_insert_with_def Let_def cache_store.get_value [OF cache_store.insert_holds]
      split: prod.splits option.splits)

section \<open>Expiry\<close>

lemma map_of_fold_prune:
  "map_of (entries (fold prune_key ks c)) = (\<lambda>k. if k \<in> set ks then None else map_of (entries c) k)"
proof (induction ks arbitrary: c)
  case (Cons k ks)
  then show ?case by (simp add: prune_key_def Let_def alist_simps fun_eq_iff)
qed simp

lemma map_of_distinct_filter:
  "distinct (map fst xs) \<Longrightarrow> k \<in> fst ` set (filter P xs) \<longleftrightarrow> (\<exists>e. map_of xs k = Some e \<and> P (k, e))"
  by (force simp: map_of_eq_Some_iff image_iff)

section \<open>Least-recently-used eviction\<close>

text \<open>
  The order is exact when it lists every key once. Keys are then listed from the least to
  the most recently used one.
\<close>

definition access_time :: "('k, 'v) Cache \<Rightarrow> 'k \<Rightarrow> instant" where
  "access_time c k = (case map_of (entries c) k of Some e \<Rightarrow> last_accessed e | None \<Rightarrow> 0)"

definition lru_exact :: "instant \<Rightarrow> ('k, 'v) Cache \<Rightarrow> bool" where
  "lru_exact now c \<longleftrightarrow>
     enable_lru (cache_config c) \<and> distinct (map fst (entries c)) \<and> distinct (lru_order c) \<and>
     set (lru_order c) = fst ` set (entries c) \<and>
     sorted_wrt (\<lambda>a b. access_time c a \<le> access_time c b) (lru_order c) \<and>
     (\<forall>k. access_time c k \<le> now) \<and>
     length (entries c) \<le> max 1 (cache_capacity (cache_config c))"

text \<open>
  Calls that keep the order exact: the clock does not go back, an inserted key is not
  already present, and a key that is looked up is absent or not expired.
\<close>

fun disciplined :: "instant \<Rightarrow> ('k, 'v) cache_event \<Rightarrow> ('k, 'v) Cache \<Rightarrow> bool" where
  "disciplined t (Insert now k v) c \<longleftrightarrow> t \<le> now \<and> map_of (entries c) k = None"
| "disciplined t (Get now k) c \<longleftrightarrow>
     t \<le> now \<and> (\<forall>e. map_of (entries c) k = Some e \<longrightarrow> Cache_fresh c (entry_created_at e) now)"
| "disciplined t _ c \<longleftrightarrow> True"

fun event_clock :: "instant \<Rightarrow> ('k, 'v) cache_event \<Rightarrow> instant" where
  "event_clock t (Insert now k v) = now"
| "event_clock t (Get now k) = now"
| "event_clock t _ = t"

fun disciplined_run ::
  "('k list \<Rightarrow> 'k option) \<Rightarrow> instant \<Rightarrow> ('k, 'v) cache_event list \<Rightarrow> ('k, 'v) Cache \<Rightarrow> bool" where
  "disciplined_run next_key t [] c \<longleftrightarrow> True"
| "disciplined_run next_key t (e # es) c \<longleftrightarrow>
     disciplined t e c \<and> disciplined_run next_key (event_clock t e) es (cache_apply next_key e c)"

lemma sorted_wrt_remove1:
  assumes "distinct xs" "sorted_wrt (\<lambda>a b. f a \<le> (f b :: nat)) xs" "\<And>x. x \<noteq> k \<Longrightarrow> g x = f x"
  shows "sorted_wrt (\<lambda>a b. g a \<le> g b) (remove1 k xs)"
proof -
  have "sorted_wrt (\<lambda>a b. f a \<le> f b) (filter (\<lambda>x. k \<noteq> x) xs)"
    by (rule sorted_wrt_filter [OF assms(2)])
  then have "sorted_wrt (\<lambda>a b. g a \<le> g b) (filter (\<lambda>x. k \<noteq> x) xs)"
    by (rule sorted_wrt_mono_rel [rotated]) (auto simp: assms(3))
  then show ?thesis
    using assms(1) by (simp add: distinct_remove1_removeAll removeAll_filter_not_eq)
qed

lemma length_delete_present:
  "distinct (map fst xs) \<Longrightarrow> k \<in> fst ` set xs \<Longrightarrow> Suc (length (AList.delete k xs)) = length xs"
  by (induction xs) (auto simp: rev_image_eqI)

lemma length_delete_le: "length (AList.delete k xs) \<le> length xs"
  by (induction xs) auto

lemma length_update_absent: "k \<notin> fst ` set xs \<Longrightarrow> length (AList.update k v xs) = Suc (length xs)"
  by (induction xs) auto

lemma length_update_present: "k \<in> fst ` set xs \<Longrightarrow> length (AList.update k v xs) = length xs"
  by (induction xs) auto

lemma lru_exact_prune_key:
  assumes "lru_exact now c"
  shows "lru_exact now (prune_key k c)"
proof -
  have "access_time (prune_key k c) j = (if j = k then 0 else access_time c j)" for j
    by (simp add: access_time_def prune_key_def Let_def alist_simps)
  then show ?thesis
    using assms sorted_wrt_remove1 [of "lru_order c" "access_time c" k "access_time (prune_key k c)"]
      length_delete_le [of k "entries c"]
    by (auto simp: lru_exact_def prune_key_def Let_def alist_simps)
qed

lemma lru_exact_fold_prune: "lru_exact now c \<Longrightarrow> lru_exact now (fold prune_key ks c)"
  by (induction ks arbitrary: c) (auto intro: lru_exact_prune_key)

lemma evict_is_prune_key:
  "enable_lru (cache_config c) \<Longrightarrow> lru_order c = k # rest \<Longrightarrow> Cache_evict_one next_key c = prune_key k c"
  by (simp add: Cache_evict_one_def prune_key_def Let_def)

lemma lru_exact_put_absent:
  assumes "lru_exact t c" "t \<le> now" "map_of (entries c) k = None"
    and "length (entries c) < max 1 (cache_capacity (cache_config c))"
  shows "lru_exact now (put_entry k (CacheEntry_new now v) c)"
proof -
  let ?c = "put_entry k (CacheEntry_new now v) c"
  have acc: "access_time ?c j = (if j = k then now else access_time c j)" for j
    by (simp add: access_time_def alist_simps entry_defs)
  have k: "k \<notin> fst ` set (entries c)" using assms(3) by (simp add: map_of_eq_None_iff)
  then have new: "k \<notin> set (lru_order c)" using assms(1) by (simp add: lru_exact_def)
  have le: "access_time c j \<le> now" for j using assms(1,2) by (meson le_trans lru_exact_def)
  have "sorted_wrt (\<lambda>a b. access_time c a \<le> access_time c b) (lru_order c)"
    using assms(1) by (simp add: lru_exact_def)
  then have "sorted_wrt (\<lambda>a b. access_time ?c a \<le> access_time ?c b) (lru_order c)"
    by (rule sorted_wrt_mono_rel [rotated]) (use new in \<open>auto simp: acc\<close>)
  then have "sorted_wrt (\<lambda>a b. access_time ?c a \<le> access_time ?c b) (lru_order c @ [k])"
    by (simp add: sorted_wrt_append acc le)
  moreover have "lru_order ?c = lru_order c @ [k]"
    using assms(1) by (simp add: put_entry_def Let_def lru_exact_def)
  moreover have "\<forall>j. access_time ?c j \<le> now" by (simp add: acc le)
  ultimately show ?thesis
    using assms(1,4) k new
    by (simp add: lru_exact_def alist_simps length_update_absent)
qed

lemma lru_exact_touch:
  assumes "lru_exact t c" "t \<le> now" "map_of (entries c) k = Some e"
  shows "lru_exact now (c\<lparr>entries := AList.update k (CacheEntry_touch now e) (entries c),
    lru_order := remove1 k (lru_order c) @ [k]\<rparr>)" (is "lru_exact now ?c")
proof -
  have acc: "access_time ?c j = (if j = k then now else access_time c j)" for j
    by (simp add: access_time_def alist_simps entry_defs)
  have k: "k \<in> fst ` set (entries c)" using assms(3) by (metis map_of_eq_None_iff option.distinct(1))
  have "sorted_wrt (\<lambda>a b. access_time ?c a \<le> access_time ?c b) (remove1 k (lru_order c))"
    using assms(1) sorted_wrt_remove1 [of "lru_order c" "access_time c" k "access_time ?c"]
    by (simp add: lru_exact_def acc)
  moreover have "access_time c j \<le> now" for j using assms(1,2) by (meson le_trans lru_exact_def)
  ultimately show ?thesis
    using assms(1) k
    by (auto simp: lru_exact_def acc sorted_wrt_append alist_simps length_update_present)
qed

lemma lru_exact_apply:
  assumes "lru_exact t c" "disciplined t e c"
  shows "lru_exact (event_clock t e) (cache_apply next_key e c)"
proof (cases e)
  case (Get now k)
  show ?thesis
  proof (cases "map_of (entries c) k")
    case None
    with assms Get show ?thesis by (auto simp: Cache_get_def lru_exact_def intro: le_trans)
  next
    case (Some entry)
    then have "k \<in> set (lru_order c)" "enable_lru (cache_config c)"
      using assms(1) by (auto simp: lru_exact_def dest: map_of_SomeD intro: rev_image_eqI)
    with Some assms Get lru_exact_touch [OF assms(1), of now k entry] show ?thesis
      by (auto simp: Cache_get_def Let_def Cache_fresh_def CacheEntry_is_expired_def not_less
            split: option.splits)
  qed
next
  case (Insert now k v)
  let ?evict = "length (entries c) \<ge> cache_capacity (cache_config c)"
  let ?c = "if ?evict then Cache_evict_one next_key c else c"
  have "lru_exact t ?c \<and> map_of (entries ?c) k = None \<and>
    length (entries ?c) < max 1 (cache_capacity (cache_config c))"
  proof (cases "?evict \<and> lru_order c \<noteq> []")
    case True
    then obtain j rest where j: "lru_order c = j # rest" by (cases "lru_order c") auto
    then have "Cache_evict_one next_key c = prune_key j c"
      using assms(1) by (intro evict_is_prune_key [OF _ j]) (simp add: lru_exact_def)
    moreover have "Suc (length (AList.delete j (entries c))) = length (entries c)"
      using assms(1) j by (intro length_delete_present) (auto simp: lru_exact_def)
    ultimately show ?thesis
      using True assms Insert lru_exact_prune_key [OF assms(1), of j]
      by (auto simp: prune_key_def Let_def alist_simps lru_exact_def)
  next
    case False
    with assms Insert show ?thesis
      by (auto simp: lru_exact_def Cache_evict_one_def split: list.splits)
  qed
  then show ?thesis
    using assms(2) Insert lru_exact_put_absent [of t ?c now k v] by (cases ?evict) (simp_all add: Cache_insert_put)
next
  case (Remove k)
  have "snd (Cache_remove k c) = prune_key k c"
  proof (cases "map_of (entries c) k")
    case None
    then have "k \<notin> set (lru_order c)" using assms(1) by (simp add: lru_exact_def map_of_eq_None_iff)
    with None show ?thesis by (simp add: Cache_remove_def prune_key_def Let_def remove1_idem)
  qed (simp add: Cache_remove_def prune_key_def Let_def)
  with Remove show ?thesis using lru_exact_prune_key [OF assms(1)] by simp
next
  case Clear
  then show ?thesis using assms(1) by (auto simp: Cache_clear_alt Let_def lru_exact_def access_time_def)
next
  case (Prune now)
  then show ?thesis
    using assms(1) lru_exact_fold_prune by (auto simp: Cache_prune_expired_alt Let_def split: option.splits)
qed

lemma lru_exact_run:
  "lru_exact t c \<Longrightarrow> disciplined_run next_key t es c \<Longrightarrow>
   lru_exact (fold (\<lambda>e t. event_clock t e) es t) (fold (cache_apply next_key) es c)"
  by (induction es arbitrary: t c) (auto intro: lru_exact_apply)

lemma lru_exact_new:
  "enable_lru config \<Longrightarrow> lru_exact t (Cache_new config)"
  by (simp add: lru_exact_def Cache_new_def access_time_def)

lemma insert_evicts_oldest:
  assumes "lru_exact t c" "map_of (entries c) k = None" "entries c \<noteq> []"
    and "length (entries c) \<ge> cache_capacity (cache_config c)"
  shows "\<exists>victim \<in> fst ` set (entries c).
    (\<forall>j \<in> fst ` set (entries c). access_time c victim \<le> access_time c j) \<and>
    map_of (entries (Cache_insert next_key now k v c)) =
      (map_of (entries c))(victim := None, k \<mapsto> CacheEntry_new now v)"
proof -
  have "lru_order c \<noteq> []" using assms(1,3) by (auto simp: lru_exact_def)
  then obtain x rest where x: "lru_order c = x # rest" by (cases "lru_order c") auto
  then have "Cache_evict_one next_key c = prune_key x c"
    using assms(1) by (intro evict_is_prune_key [OF _ x]) (simp add: lru_exact_def)
  then have "map_of (entries (Cache_insert next_key now k v c)) =
      (map_of (entries c))(x := None, k \<mapsto> CacheEntry_new now v)"
    using assms(2,4) by (simp add: Cache_insert_put alist_simps prune_key_def Let_def)
  moreover have "insert x (set rest) = fst ` set (entries c)"
    using assms(1) x by (simp add: lru_exact_def)
  ultimately show ?thesis
    using assms(1) x by (intro bexI [of _ x]) (auto simp: lru_exact_def)
qed

section \<open>Properties\<close>

text \<open>
  What was inserted can be read back: after \<open>insert(k, v)\<close> at time \<open>t\<close> and any number
  of further reads, \<open>get(k)\<close> at time \<open>now\<close> returns \<open>v\<close> when the entry has not outlived the
  configured time to live, and nothing when it has. The reads of \<open>k\<close> in between must not
  come after the expiry, since such a read removes the entry.
\<close>

theorem cache_read_after_insert:
  assumes "\<forall>(u, j) \<in> set reads. j = k \<longrightarrow> Cache_fresh c t u"
  shows "fst (Cache_get now k
      (fold (\<lambda>(u, j) c. snd (Cache_get u j c)) reads (Cache_insert next_key t k v c))) =
    (if Cache_fresh c t now then Some v else None)"
  using assms by (rule cache_store.read_after_insert)

definition example_cache :: "(nat, string) Cache" where
  "example_cache =
     Cache_new (CacheConfig_with_ttl (Some (from_secs 1)) (CacheConfig_with_capacity 2 CacheConfig_new))"

theorem cache_read_after_insert_witness:
  "(let c = fold (\<lambda>(u, j) c. snd (Cache_get u j c)) [(10, 1), (20, 7)]
              (Cache_insert (\<lambda>_. None) 5 7 ''v'' example_cache)
    in fst (Cache_get 30 7 c) = Some ''v'' \<and> fst (Cache_get (from_secs 2) 7 c) = None)"
proof -
  have "\<forall>(u, j) \<in> set [(10, 1), (20, 7)]. j = 7 \<longrightarrow> Cache_fresh example_cache 5 u"
    by (simp add: Cache_fresh_def example_cache_def config_defs Cache_new_def elapsed_def from_secs_def)
  from cache_read_after_insert [OF this] show ?thesis
    unfolding Let_def
    by (simp add: Cache_fresh_def example_cache_def config_defs Cache_new_def elapsed_def from_secs_def)
qed

text \<open>
  \<open>prune_expired\<close> is exact after any sequence of calls: it removes the entries that
  have outlived the time to live and no other entry, and returns how many they were.
\<close>

theorem cache_prune_exact:
  assumes "cache_ttl config = Some ttl"
    and "c = fold (cache_apply next_key) es (Cache_new config)"
  shows "map_of (entries (snd (Cache_prune_expired now c))) k =
      (case map_of (entries c) k of
         Some e \<Rightarrow> if CacheEntry_is_expired now ttl e then None else Some e
       | None \<Rightarrow> None) \<and>
    fst (Cache_prune_expired now c) =
      card {k. \<exists>e. map_of (entries c) k = Some e \<and> CacheEntry_is_expired now ttl e}"
proof -
  let ?ex = "\<lambda>(k, e). CacheEntry_is_expired now ttl e"
  let ?ks = "map fst (filter ?ex (entries c))"
  have d: "distinct (map fst (entries c))"
    using cache.run_inv [of "Cache_new config" next_key es] assms(2) by (simp add: cache_wf_def Cache_new_def)
  have "cache_config c = config"
    using cache_cfg.run_inv [of "Cache_new config" config next_key es] assms(2) by (simp add: Cache_new_def)
  then have eq: "Cache_prune_expired now c = (length ?ks, fold prune_key ?ks c)"
    using assms(1) by (simp add: Cache_prune_expired_alt Let_def)
  have mem: "j \<in> set ?ks \<longleftrightarrow> (\<exists>e. map_of (entries c) j = Some e \<and> CacheEntry_is_expired now ttl e)" for j
    using map_of_distinct_filter [OF d, of j ?ex] by simp
  have "length ?ks = card (set ?ks)"
    by (rule distinct_card [symmetric]) (rule distinct_map_filter [OF d])
  moreover have "set ?ks = {j. \<exists>e. map_of (entries c) j = Some e \<and> CacheEntry_is_expired now ttl e}"
    using mem by blast
  ultimately show ?thesis
    unfolding eq snd_conv fst_conv map_of_fold_prune mem by (simp split: option.splits)
qed

theorem cache_prune_exact_witness:
  "(let c = fold (cache_apply (\<lambda>_. None)) [Insert 0 1 ''a'', Insert (from_secs 1) 2 ''b''] example_cache
    in map_of (entries (snd (Cache_prune_expired (from_secs 2) c))) 1 = None \<and>
       map_of (entries (snd (Cache_prune_expired (from_secs 2) c))) 2 = map_of (entries c) 2)"
proof -
  let ?c = "fold (cache_apply (\<lambda>_. None)) [Insert 0 1 ''a'', Insert (from_secs 1) 2 ''b''] example_cache"
  have ttl: "cache_ttl (CacheConfig_with_ttl (Some (from_secs 1)) (CacheConfig_with_capacity 2 CacheConfig_new)) =
      Some (from_secs 1)"
    by (simp add: config_defs)
  have "?c = fold (cache_apply (\<lambda>_. None)) [Insert 0 1 ''a'', Insert (from_secs 1) 2 ''b'']
      (Cache_new (CacheConfig_with_ttl (Some (from_secs 1)) (CacheConfig_with_capacity 2 CacheConfig_new)))"
    by (simp add: example_cache_def)
  note prune = cache_prune_exact [OF ttl this, of "from_secs 2"]
  have "map_of (entries ?c) 1 = Some (CacheEntry_new 0 ''a'')"
    "map_of (entries ?c) 2 = Some (CacheEntry_new (from_secs 1) ''b'')"
    by (simp_all add: example_cache_def config_defs Cache_new_def Cache_insert_def Let_def)
  then show ?thesis
    using prune [of 1] prune [of 2]
    by (simp add: Let_def entry_defs elapsed_def from_secs_def)
qed

text \<open>
  C20. Eviction is least-recently-used on disciplined use. Take a cache with eviction order
  enabled and any sequence of calls in which time does not go back, no key is inserted
  while it is present, and no key is looked up after it expired. Then the cache holds at
  most \<open>capacity\<close> entries (one, for capacity zero), and inserting a new key into a full
  cache replaces exactly one entry, one whose last access is the oldest of all.
\<close>

theorem cache_evicts_least_recently_used:
  assumes "enable_lru config" "disciplined_run next_key 0 es (Cache_new config)"
    and "c = fold (cache_apply next_key) es (Cache_new config)"
    and "map_of (entries c) k = None" "entries c \<noteq> []" "length (entries c) \<ge> cache_capacity config"
  shows "length (entries c) \<le> max 1 (cache_capacity config) \<and>
    (\<exists>victim \<in> fst ` set (entries c).
      (\<forall>j \<in> fst ` set (entries c). access_time c victim \<le> access_time c j) \<and>
      map_of (entries (Cache_insert next_key now k v c)) =
        (map_of (entries c))(victim := None, k \<mapsto> CacheEntry_new now v))"
proof -
  have cfg: "cache_config c = config"
    using cache_cfg.run_inv [of "Cache_new config" config next_key es] assms(3) by (simp add: Cache_new_def)
  have lru: "lru_exact (fold (\<lambda>e t. event_clock t e) es 0) c"
    unfolding assms(3) by (rule lru_exact_run [OF lru_exact_new [OF assms(1)] assms(2)])
  with cfg have "length (entries c) \<le> max 1 (cache_capacity config)" by (simp add: lru_exact_def)
  with insert_evicts_oldest [OF lru assms(4,5)] assms(6) cfg show ?thesis by simp
qed

theorem cache_evicts_least_recently_used_witness:
  "(let c = fold (cache_apply (\<lambda>_. None)) [Insert 1 1 ''a'', Insert 2 2 ''b'', Get 3 1] example_cache
    in \<exists>victim \<in> {1, 2}. access_time c victim \<le> access_time c 1 \<and> access_time c victim \<le> access_time c 2 \<and>
         map_of (entries (Cache_insert (\<lambda>_. None) 4 3 ''c'' c)) =
           (map_of (entries c))(victim := None, 3 \<mapsto> CacheEntry_new 4 ''c''))"
proof -
  let ?cfg = "CacheConfig_with_ttl (Some (from_secs 1)) (CacheConfig_with_capacity 2 CacheConfig_new)"
  let ?es = "[Insert 1 1 ''a'', Insert 2 2 ''b'', Get 3 1] :: (nat, string) cache_event list"
  let ?c = "fold (cache_apply (\<lambda>_. None)) ?es (Cache_new ?cfg)"
  have c: "map fst (entries ?c) = [1, 2]"
    by (simp add: config_defs Cache_new_def Cache_insert_def Cache_get_def Let_def entry_defs elapsed_def
          from_secs_def)
  then have keys: "fst ` set (entries ?c) = {1, 2}" by (metis list.set_map list.simps(15) empty_set)
  have len: "length (entries ?c) = 2" using c by (metis length_map length_Cons list.size(3) One_nat_def numeral_2_eq_2)
  then have ne: "entries ?c \<noteq> []" by (metis list.size(3) zero_neq_numeral)
  have full: "length (entries ?c) \<ge> cache_capacity ?cfg" unfolding len by (simp add: config_defs)
  have new: "map_of (entries ?c) 3 = None" unfolding map_of_eq_None_iff keys by simp
  have disc: "disciplined_run (\<lambda>_. None) 0 ?es (Cache_new ?cfg)"
    by (simp add: config_defs Cache_new_def Cache_insert_def Let_def entry_defs elapsed_def from_secs_def
          Cache_fresh_def)
  have "enable_lru ?cfg" by (simp add: config_defs)
  from cache_evicts_least_recently_used [OF this disc refl new ne full, of 4 "''c''"] show ?thesis
    unfolding Let_def example_cache_def keys by blast
qed

text \<open>
  An entry inserted between the two halves of \<open>clear\<close> is in the cache and not in the order,
  so the next eviction removes nothing.
\<close>

lemma cache_clear_race:
  assumes "enable_lru (cache_config c)"
  shows "let c' = Cache_clear_order (Cache_insert next_key now key value (Cache_clear_entries c)) in
    map_of (entries c') key = Some (CacheEntry_new now value) \<and> lru_order c' = [] \<and> Cache_evict_one next_key c' = c'"
  using assms
  by (auto simp: Cache_clear_order_def Cache_clear_entries_def Cache_insert_def Cache_evict_one_def Let_def split: list.split)

text \<open>
  Without that discipline the bound fails, since a second \<open>insert\<close> of a present key lists
  the key twice in the order: the later evictions pop the stale duplicates and remove
  nothing. A cache of capacity one in which one key was inserted again and again takes
  that many further keys, for every number \<open>n\<close>.
\<close>

abbreviation overfill_config :: CacheConfig where
  "overfill_config \<equiv> CacheConfig_with_capacity 1 CacheConfig_new"

abbreviation overfilled :: "nat list \<Rightarrow> nat list \<Rightarrow> (nat, unit) Cache" where
  "overfilled ks order \<equiv>
     \<lparr>cache_config = overfill_config, entries = map (\<lambda>k. (k, CacheEntry_new 0 ())) ks, lru_order = order\<rparr>"

lemma overfill_reinsert_step:
  "Cache_insert next_key 0 0 () (overfilled [0] order) = overfilled [0] (order @ [0])"
  by (simp add: config_defs Cache_insert_def Let_def)

lemma overfill_reinsert:
  "fold (cache_apply next_key) (replicate (Suc n) (Insert 0 0 ())) (Cache_new overfill_config) =
     overfilled [0] (replicate (Suc n) 0)"
proof (induction n)
  case 0
  show ?case by (simp add: config_defs Cache_new_def Cache_insert_def Cache_evict_one_def Let_def)
next
  case (Suc n)
  have "replicate (Suc (Suc n)) x = replicate (Suc n) x @ [x]" for x :: 'a
    by (simp add: replicate_append_same)
  then have "fold (cache_apply next_key) (replicate (Suc (Suc n)) (Insert 0 0 ())) (Cache_new overfill_config) =
      cache_apply next_key (Insert 0 0 ())
        (fold (cache_apply next_key) (replicate (Suc n) (Insert 0 0 ())) (Cache_new overfill_config))"
    by (metis fold_append fold_simps comp_apply replicate_append_same replicate_Suc)
  also have "\<dots> = overfilled [0] (replicate (Suc n) 0 @ [0])"
    unfolding Suc cache_apply.simps by (rule overfill_reinsert_step)
  finally show ?case by (simp add: replicate_append_same)
qed

lemma overfill_fresh_step:
  assumes "k \<notin> set ks" "ks \<noteq> []"
  shows "Cache_insert next_key 0 k () (overfilled ks (x # order)) =
    overfilled (filter (\<lambda>j. j \<noteq> x) ks @ [k]) (order @ [k])"
proof -
  have "map_of (map (\<lambda>k. (k, e)) ks) k = None" for e :: "unit CacheEntry"
    using assms(1) by (auto simp: map_of_eq_None_iff)
  moreover have "AList.delete x (map (\<lambda>k. (k, e)) ks) = map (\<lambda>k. (k, e)) (filter (\<lambda>j. j \<noteq> x) ks)"
    for e :: "unit CacheEntry" by (induction ks) auto
  moreover have "AList.update k e (map (\<lambda>k. (k, e)) js) = map (\<lambda>k. (k, e)) (js @ [k])" if "k \<notin> set js"
    for e :: "unit CacheEntry" and js using that by (induction js) auto
  moreover have "Suc 0 \<le> length ks" using assms(2) by (cases ks) auto
  ultimately show ?thesis
    using assms by (simp add: config_defs Cache_insert_def Cache_evict_one_def Let_def)
qed

lemma overfill_fresh:
  "i < n \<Longrightarrow>
   fold (cache_apply next_key) (map (\<lambda>j. Insert 0 (Suc j) ()) [0..<Suc i]) (overfilled [0] (replicate n 0)) =
   overfilled (map Suc [0..<Suc i]) (replicate (n - Suc i) 0 @ map Suc [0..<Suc i])"
proof (induction i)
  case 0
  then obtain m where n: "n = Suc m" by (cases n) auto
  show ?case using overfill_fresh_step [of 1 "[0]" next_key 0 "replicate m 0"] by (simp add: n)
next
  case (Suc i)
  then have "replicate (n - Suc i) (0 :: nat) = 0 # replicate (n - Suc (Suc i)) 0"
    by (metis Suc_diff_Suc replicate_Suc)
  moreover have "filter (\<lambda>j. j \<noteq> 0) (map Suc xs) = map Suc xs" for xs by (induction xs) auto
  ultimately show ?case
    using Suc overfill_fresh_step [of "Suc (Suc i)" "map Suc [0..<Suc i]" next_key 0
        "replicate (n - Suc (Suc i)) 0 @ map Suc [0..<Suc i]"]
    by (auto simp del: replicate.simps)
qed

text \<open>
  The capacity is not a bound on the number of entries. For every \<open>n\<close>, a cache of
  capacity one holds \<open>n + 1\<close> entries after one key was inserted \<open>n + 2\<close> times and \<open>n + 1\<close>
  other keys were inserted once each: the duplicates of the first key in the order are
  evicted instead of entries.
\<close>

theorem cache_exceeds_capacity:
  "length (entries
     (fold (cache_apply next_key)
       (replicate (Suc (Suc n)) (Insert 0 0 ()) @ map (\<lambda>j. Insert 0 (Suc j) ()) [0..<Suc n])
       (Cache_new (CacheConfig_with_capacity 1 CacheConfig_new)))) = Suc n"
  using overfill_fresh [of n "Suc (Suc n)" next_key]
  unfolding fold_append comp_apply overfill_reinsert by simp

end
