(* ===== verification/Cache_Refinement.thy ===== *)
theory Cache_Refinement
  imports Cache
begin

text \<open>
  The cache (\<open>src/pooling/cache.rs\<close>) as an implementation of its specification: a list of
  keys with their values and insertion times, from the least to the most recently used
  one. The specification says for which calls it is meant; for these the answers of the
  hash map with its separate order are those of the list.
\<close>

section \<open>Specification\<close>

type_synonym ('k, 'v) recency = "('k \<times> 'v \<times> instant) list"

datatype 'v cache_answer = Looked_up "'v option" | Stored | Cleared | Pruned nat

text \<open>The calls of the code, with their answers.\<close>

fun cache_call ::
  "('k list \<Rightarrow> 'k option) \<Rightarrow> ('k, 'v) cache_event \<Rightarrow> ('k, 'v) Cache \<Rightarrow> 'v cache_answer \<times> ('k, 'v) Cache" where
  "cache_call next_key (Get now k) c = map_prod Looked_up id (Cache_get now k c)"
| "cache_call next_key (Insert now k v) c = (Stored, Cache_insert next_key now k v c)"
| "cache_call next_key (Remove k) c = map_prod Looked_up id (Cache_remove k c)"
| "cache_call next_key Clear c = (Cleared, Cache_clear c)"
| "cache_call next_key (Prune now) c = map_prod Pruned id (Cache_prune_expired now c)"

text \<open>An entry that has outlived the time to live, if there is one.\<close>

definition outlived :: "CacheConfig \<Rightarrow> instant \<Rightarrow> 'k \<times> 'v \<times> instant \<Rightarrow> bool" where
  "outlived config now = (\<lambda>(k, v, t). case cache_ttl config of Some ttl \<Rightarrow> elapsed now t > ttl | None \<Rightarrow> False)"

fun lru_call :: "CacheConfig \<Rightarrow> ('k, 'v) cache_event \<Rightarrow> ('k, 'v) recency \<Rightarrow> 'v cache_answer \<times> ('k, 'v) recency" where
  "lru_call config (Get now k) r =
     (case map_of r k of
        Some (v, t) \<Rightarrow> (Looked_up (Some v), AList.delete k r @ [(k, v, t)])
      | None \<Rightarrow> (Looked_up None, r))"
| "lru_call config (Insert now k v) r =
     (Stored, (if length r < cache_capacity config then r else tl r) @ [(k, v, now)])"
| "lru_call config (Remove k) r = (Looked_up (map_option fst (map_of r k)), AList.delete k r)"
| "lru_call config Clear r = (Cleared, [])"
| "lru_call config (Prune now) r =
     (Pruned (length (filter (outlived config now) r)), filter (\<lambda>x. \<not> outlived config now x) r)"

text \<open>The calls it is meant for: no insertion of a present key, no look-up of an expired entry.\<close>

fun lru_pre :: "CacheConfig \<Rightarrow> ('k, 'v) cache_event \<Rightarrow> ('k, 'v) recency \<Rightarrow> bool" where
  "lru_pre config (Get now k) r \<longleftrightarrow>
     (case map_of r k of Some (v, t) \<Rightarrow> \<not> outlived config now (k, v, t) | None \<Rightarrow> True)"
| "lru_pre config (Insert now k v) r \<longleftrightarrow> map_of r k = None"
| "lru_pre config _ r \<longleftrightarrow> True"

section \<open>Implementation relation\<close>

definition entry_data :: "'v CacheEntry \<Rightarrow> 'v \<times> instant" where
  "entry_data e = (entry_value e, entry_created_at e)"

definition implements :: "CacheConfig \<Rightarrow> ('k, 'v) Cache \<Rightarrow> ('k, 'v) recency \<Rightarrow> bool" where
  "implements config c r \<longleftrightarrow>
     cache_config c = config \<and> enable_lru config \<and>
     distinct (map fst (entries c)) \<and> distinct (map fst r) \<and>
     lru_order c = map fst r \<and> map_of r = map_option entry_data \<circ> map_of (entries c)"

lemma implements_config: "implements config c r \<Longrightarrow> cache_config c = config \<and> enable_lru config"
  by (simp add: implements_def)

lemma implements_lookup: "implements config c r \<Longrightarrow> map_of r k = map_option entry_data (map_of (entries c) k)"
  by (simp add: implements_def)

lemma implements_order:
  assumes "implements config c r"
  shows "k \<in> set (lru_order c) \<longleftrightarrow> map_of (entries c) k \<noteq> None"
proof -
  have "lru_order c = map fst r" using assms by (simp add: implements_def)
  then have "k \<in> set (lru_order c) \<longleftrightarrow> map_of r k \<noteq> None" by (simp add: map_of_eq_None_iff)
  then show ?thesis unfolding implements_lookup [OF assms] by simp
qed

lemma distinct_same_map_length:
  assumes "distinct (map fst xs)" "distinct (map fst ys)" "dom (map_of xs) = dom (map_of ys)"
  shows "length xs = length ys"
proof -
  have "set (map fst xs) = set (map fst ys)" using assms(3) by (simp add: dom_map_of_conv_image_fst)
  then show ?thesis using assms(1,2) by (metis distinct_card length_map)
qed

lemma implements_length:
  assumes "implements config c r"
  shows "length (entries c) = length r"
  using assms by (intro distinct_same_map_length) (auto simp: implements_def dom_def)

lemma map_fst_delete: "distinct (map fst r) \<Longrightarrow> map fst (AList.delete k r) = remove1 k (map fst r)"
proof (induction r)
  case (Cons x r)
  then show ?case by (cases "fst x = k") (auto simp: delete_idem)
qed simp

lemma implements_new: "enable_lru config \<Longrightarrow> implements config (Cache_new config) []"
  by (simp add: implements_def Cache_new_def fun_eq_iff)

lemma implements_prune_key:
  assumes "implements config c r"
  shows "implements config (prune_key k c) (AList.delete k r)"
  using assms
  by (simp add: implements_def prune_key_def Let_def alist_simps map_fst_delete fun_eq_iff)

lemma implements_append:
  assumes "implements config c r" "map_of r k = None"
  shows "implements config (put_entry k (CacheEntry_new now v) c) (r @ [(k, v, now)])"
proof -
  have "k \<notin> fst ` set r" using assms(2) by (simp add: map_of_eq_None_iff)
  then show ?thesis
    using assms
    by (auto simp: implements_def put_entry_def Let_def alist_simps entry_data_def entry_defs
          map_add_def fun_eq_iff split: option.splits)
qed

lemma implements_touch:
  assumes "implements config c r" "map_of (entries c) k = Some e"
  shows "implements config
    (c\<lparr>entries := AList.update k (CacheEntry_touch now e) (entries c), lru_order := remove1 k (lru_order c) @ [k]\<rparr>)
    (AList.delete k r @ [(k, entry_value e, entry_created_at e)])"
  using assms
  by (auto simp: implements_def alist_simps map_fst_delete entry_data_def entry_defs keys_delete
        map_add_def fun_eq_iff split: option.splits)

lemma implements_fold_prune:
  "implements config c r \<Longrightarrow> implements config (fold prune_key ks c) (fold AList.delete ks r)"
  by (induction ks arbitrary: c r) (auto intro: implements_prune_key)

lemma fold_delete: "fold AList.delete ks r = filter (\<lambda>x. fst x \<notin> set ks) r"
proof (induction ks arbitrary: r)
  case (Cons k ks)
  have "AList.delete k r = filter (\<lambda>x. fst x \<noteq> k) r" by (induction r) auto
  then show ?case by (simp add: Cons.IH conj_commute)
qed simp

text \<open>\<open>prune_expired\<close> finds the entries that the specification finds.\<close>

lemma implements_expired:
  fixes now :: instant
  assumes "implements config c r" "cache_ttl config = Some ttl"
  defines "ks \<equiv> map fst (filter (\<lambda>(_, e). CacheEntry_is_expired now ttl e) (entries c))"
  shows "length ks = length (filter (outlived config now) r) \<and>
    fold AList.delete ks r = filter (\<lambda>x. \<not> outlived config now x) r"
proof -
  let ?out = "map fst (filter (outlived config now) r)"
  note d = assms(1) [unfolded implements_def]
  have "k \<in> set ks \<longleftrightarrow> k \<in> set ?out" for k
    using map_of_distinct_filter [of "entries c" k "\<lambda>(_, e). CacheEntry_is_expired now ttl e"]
      map_of_distinct_filter [of r k "outlived config now"] d assms(2)
    by (auto simp: ks_def outlived_def entry_data_def CacheEntry_is_expired_def)
  then have eq: "set ks = set ?out" by blast
  have "distinct ks" "distinct ?out" using d by (simp_all add: ks_def distinct_map_filter)
  then have "length ks = length ?out" using eq by (metis distinct_card)
  moreover have "fst x \<in> set ?out \<longleftrightarrow> outlived config now x" if "x \<in> set r" for x
  proof -
    have "map_of r (fst x) = Some (snd x)" using that d by (intro map_of_is_SomeI) auto
    then show ?thesis using d by (simp only: set_map map_of_distinct_filter) simp
  qed
  then have "fold AList.delete ks r = filter (\<lambda>x. \<not> outlived config now x) r"
    unfolding fold_delete eq by (intro filter_cong) auto
  ultimately show ?thesis by simp
qed

section \<open>Every call implements its specification\<close>

lemma get_implements:
  assumes "implements config c r" "lru_pre config (Get now k) r"
  shows "rel_prod (=) (implements config) (cache_call next_key (Get now k) c) (lru_call config (Get now k) r)"
proof (cases "map_of (entries c) k")
  case None
  with assms show ?thesis by (simp add: Cache_get_def implements_lookup)
next
  case (Some e)
  have r: "map_of r k = Some (entry_value e, entry_created_at e)"
    using implements_lookup [OF assms(1), of k] Some by (simp add: entry_data_def)
  have "k \<in> set (lru_order c)"
    using implements_order [OF assms(1)] Some by simp
  moreover have "\<not> (case cache_ttl (cache_config c) of Some ttl \<Rightarrow> CacheEntry_is_expired now ttl e | None \<Rightarrow> False)"
    using assms(2) r implements_config [OF assms(1)]
    by (auto simp: outlived_def CacheEntry_is_expired_def split: option.splits)
  ultimately show ?thesis
    using implements_touch [OF assms(1) Some, of now] implements_config [OF assms(1)]
    by (simp add: Cache_get_def Some r Let_def CacheEntry_touch_def)
qed

lemma insert_implements:
  assumes "implements config c r" "map_of r k = None"
  shows "implements config (Cache_insert next_key now k v c)
    ((if length r < cache_capacity config then r else tl r) @ [(k, v, now)])"
proof -
  have absent: "map_of (entries c) k = None" using assms implements_lookup [of config c r k] by simp
  have full: "length (entries c) \<ge> cache_capacity (cache_config c) \<longleftrightarrow> \<not> length r < cache_capacity config"
    using implements_length [OF assms(1)] implements_config [OF assms(1)] by auto
  have "implements config (Cache_evict_one next_key c) (tl r)"
  proof (cases r)
    case Nil
    then show ?thesis using assms(1) by (simp add: Cache_evict_one_def implements_def)
  next
    case (Cons x rest)
    then have "lru_order c = fst x # map fst rest" using assms(1) by (simp add: implements_def)
    with implements_config [OF assms(1)] have "Cache_evict_one next_key c = prune_key (fst x) c"
      by (intro evict_is_prune_key) auto
    moreover have "AList.delete (fst x) r = rest"
      using Cons assms(1) by (cases x) (simp add: implements_def delete_idem)
    ultimately show ?thesis using implements_prune_key [OF assms(1), of "fst x"] Cons by simp
  qed
  moreover have "map_of (tl r) k = None" using assms(2) by (cases r) (auto split: if_splits)
  ultimately show ?thesis
    using implements_append [OF assms, of now v] implements_append [of config "Cache_evict_one next_key c" "tl r" k now v]
    by (simp add: Cache_insert_put absent full)
qed

lemma remove_implements:
  assumes "implements config c r"
  shows "rel_prod (=) (implements config) (cache_call next_key (Remove k) c) (lru_call config (Remove k) r)"
proof -
  have "snd (Cache_remove k c) = prune_key k c"
    using implements_order [OF assms, of k] implements_config [OF assms]
    by (simp add: Cache_remove_def prune_key_def Let_def remove1_idem)
  moreover have "fst (Cache_remove k c) = map_option fst (map_of r k)"
    using implements_lookup [OF assms, of k] by (simp add: Cache_remove_def Let_def option.map_comp comp_def entry_data_def)
  ultimately show ?thesis using implements_prune_key [OF assms, of k] by (simp add: rel_prod_sel)
qed

lemma prune_implements:
  assumes "implements config c r"
  shows "rel_prod (=) (implements config) (cache_call next_key (Prune now) c) (lru_call config (Prune now) r)"
proof (cases "cache_ttl config")
  case None
  then show ?thesis
    using assms implements_config [OF assms] by (simp add: Cache_prune_expired_alt outlived_def split_beta)
next
  case (Some ttl)
  then show ?thesis
    using implements_fold_prune [OF assms] implements_expired [OF assms Some] implements_config [OF assms]
    by (simp add: Cache_prune_expired_alt Let_def) (metis (no_types, lifting))
qed

interpretation lru: simulation "cache_call next_key" "lru_call config" "lru_pre config" "implements config"
proof
  fix c :: "('a, 'b) Cache" and r x
  assume "implements config c r" "lru_pre config x r"
  then show "rel_prod (=) (implements config) (cache_call next_key x c) (lru_call config x r)"
  proof (cases x)
    case (Get now k)
    with \<open>implements config c r\<close> \<open>lru_pre config x r\<close> show ?thesis by (simp only: get_implements)
  next
    case (Insert now k v)
    with \<open>implements config c r\<close> \<open>lru_pre config x r\<close> show ?thesis by (simp add: insert_implements)
  next
    case (Remove k)
    with \<open>implements config c r\<close> show ?thesis by (simp only: remove_implements)
  next
    case Clear
    with \<open>implements config c r\<close> show ?thesis
      by (simp add: Cache_clear_alt implements_def Let_def fun_eq_iff)
  next
    case (Prune now)
    with \<open>implements config c r\<close> show ?thesis by (simp only: prune_implements)
  qed
qed

section \<open>Property\<close>

text \<open>
  C10. The cache with eviction order enabled implements a list of its keys from the least to
  the most recently used one. For every sequence of calls in which no key is inserted while
  it is present and no expired entry is looked up, the answers are those of the list: a
  look-up finds the value and moves the key to the back, an insertion into a full list
  drops the front, and pruning removes what has outlived the time to live and counts it.
  Afterwards the cache holds the keys of the list, in its order, each with the value and
  the insertion time of the list, and reports its length as the size.
\<close>

theorem cache_refines_lru:
  assumes "enable_lru config" "admits (lru_pre config) (lru_call config) calls []"
  shows "let (answers, c) = run_calls (cache_call next_key) calls (Cache_new config);
             (spec_answers, r) = run_calls (lru_call config) calls []
         in answers = spec_answers \<and> lru_order c = map fst r \<and>
            map_of r = map_option (\<lambda>e. (entry_value e, entry_created_at e)) \<circ> map_of (entries c) \<and>
            stats_size (Cache_stats c) = length r"
proof -
  have impl: "implements config (snd (run_calls (cache_call next_key) calls (Cache_new config)))
      (snd (run_calls (lru_call config) calls []))"
    and "fst (run_calls (cache_call next_key) calls (Cache_new config)) = fst (run_calls (lru_call config) calls [])"
    using lru.run_simulates [OF implements_new [OF assms(1)] assms(2), of next_key]
    by (simp_all add: rel_prod_sel)
  then show ?thesis
    using implements_length [OF impl] impl
    by (simp add: split_beta Let_def implements_def Cache_stats_def entry_data_def [abs_def])
qed

definition lru_example_calls :: "(nat, string) cache_event list" where
  "lru_example_calls =
     [Insert 1 1 ''a'', Insert 2 2 ''b'', Get 3 1, Insert 4 3 ''c'', Get 5 2, Get 6 1, Remove 7,
      Prune (from_secs 2)]"

theorem cache_refines_lru_witness:
  "fst (run_calls (cache_call (\<lambda>_. None)) lru_example_calls example_cache) =
     [Stored, Stored, Looked_up (Some ''a''), Stored, Looked_up None, Looked_up (Some ''a''), Looked_up None,
      Pruned 2]"
proof -
  let ?config = "CacheConfig_with_ttl (Some (from_secs 1)) (CacheConfig_with_capacity 2 CacheConfig_new)"
  note eval = lru_example_calls_def config_defs outlived_def elapsed_def from_secs_def
  have "enable_lru ?config" by (simp add: config_defs)
  moreover have "admits (lru_pre ?config) (lru_call ?config) lru_example_calls []" by (simp add: eval)
  moreover have "fst (run_calls (lru_call ?config) lru_example_calls []) =
      [Stored, Stored, Looked_up (Some ''a''), Stored, Looked_up None, Looked_up (Some ''a''), Looked_up None,
       Pruned 2]"
    by (simp add: eval)
  ultimately show ?thesis
    using cache_refines_lru [of ?config lru_example_calls "\<lambda>_. None"]
    by (simp add: split_beta Let_def example_cache_def)
qed

end
