(* ===== verification/Hex_Format.thy ===== *)
theory Hex_Format
  imports Prelude
begin

text \<open>
  Hexadecimal printing at a fixed width, \<open>format!("{:016x}", n)\<close> of a 64-bit integer and
  \<open>format!("{:02X}", b)\<close> of a byte: the widths are those of the type, so the text always
  has that many digits. It determines the number.
\<close>

definition hex_lower :: "nat \<Rightarrow> char" where
  "hex_lower d = digit_char d"

definition hex_upper :: "nat \<Rightarrow> char" where
  "hex_upper d = char_of (if d < 10 then 48 + d else 55 + d)"

primrec hex_fixed :: "(nat \<Rightarrow> char) \<Rightarrow> nat \<Rightarrow> nat \<Rightarrow> string" where
  "hex_fixed digit 0 n = []"
| "hex_fixed digit (Suc k) n = hex_fixed digit k (n div 16) @ [digit (n mod 16)]"

lemma length_hex_fixed [simp]: "length (hex_fixed digit k n) = k"
  by (induction k arbitrary: n) auto

text \<open>The contract of a digit function, and what it gives its clients.\<close>

locale hex_digits =
  fixes digit :: "nat \<Rightarrow> char"
  assumes digit_inj: "inj_on digit {..<16}"
begin

lemma fixed_eq_iff:
  "m < 16 ^ k \<Longrightarrow> n < 16 ^ k \<Longrightarrow> hex_fixed digit k m = hex_fixed digit k n \<longleftrightarrow> m = n"
proof (induction k arbitrary: m n)
  case (Suc k)
  have "m div 16 < 16 ^ k" "n div 16 < 16 ^ k" using Suc.prems by (auto simp: less_mult_imp_div_less ac_simps)
  moreover have "digit (m mod 16) = digit (n mod 16) \<longleftrightarrow> m mod 16 = n mod 16"
    using digit_inj by (auto simp: inj_on_eq_iff)
  moreover have "m = n \<longleftrightarrow> m div 16 = n div 16 \<and> m mod 16 = n mod 16" by (metis mult_div_mod_eq)
  ultimately show ?case using Suc.IH by simp
qed simp

lemma word_eq_iff:
  fixes v w :: "'a::len word"
  assumes "LENGTH('a) = 4 * k"
  shows "hex_fixed digit k (unat v) = hex_fixed digit k (unat w) \<longleftrightarrow> v = w"
proof -
  have "unat v < 2 ^ LENGTH('a)" "unat w < 2 ^ LENGTH('a)" by (rule unsigned_less)+
  then have "unat v < 16 ^ k" "unat w < 16 ^ k" by (simp_all add: assms power_mult)
  then show ?thesis by (simp add: fixed_eq_iff flip: word_eq_iff_unsigned)
qed

text \<open>The text of a list of bytes determines the bytes.\<close>

lemma bytes_eq_iff:
  "concat (map (\<lambda>b. hex_fixed digit 2 (unat (b::u8))) bs) = concat (map (\<lambda>b. hex_fixed digit 2 (unat b)) cs) \<longleftrightarrow> bs = cs"
proof (induction bs arbitrary: cs)
  case Nil
  then show ?case by (cases cs) (auto simp: numeral_2_eq_2)
next
  case (Cons b bs)
  have "hex_fixed digit 2 (unat b) \<noteq> []" by (metis length_hex_fixed list.size(3) zero_neq_numeral)
  then show ?case using Cons
    by (cases cs) (auto simp: append_eq_append_conv word_eq_iff [where 'a = 8 and k = 2])
qed

end

lemma char_of_inj: "m < 256 \<Longrightarrow> n < 256 \<Longrightarrow> char_of m = char_of n \<longleftrightarrow> m = (n::nat)"
  by (metis mod_less of_char_of)

interpretation lower: hex_digits hex_lower
  by unfold_locales (auto simp: inj_on_def hex_lower_def digit_char_def char_of_inj split: if_splits)

interpretation upper: hex_digits hex_upper
  by unfold_locales (auto simp: inj_on_def hex_upper_def char_of_inj split: if_splits)

end
