(* ===== verification/Tracing.thy ===== *)
theory Tracing
  imports Hex_Format
begin

text \<open>
  Distributed tracing (\<open>src/tracing/mod.rs\<close>): trace and span identifiers, trace contexts,
  spans and the collector. The global counter \<open>TRACE_COUNTER\<close> is the state that generating
  an identifier passes on. The system clock is an argument: the nanoseconds since the
  Unix epoch, or the error when the clock is before it. The JSON printer is an argument.
\<close>

section \<open>Model\<close>

definition TRACE_COUNTER :: u64 where
  "TRACE_COUNTER = 1"

definition generate_trace_id :: "u64 \<Rightarrow> string \<times> u64" where
  "generate_trace_id counter = (''trace-'' @ hex_fixed hex_lower 16 (unat counter), counter + 1)"

type_synonym system_time = "string + nat"

definition generate_span_id :: "system_time \<Rightarrow> u64 \<Rightarrow> string \<times> u64" where
  "generate_span_id time counter =
     (let (now, counter) =
        (case time of Inr nanos \<Rightarrow> (of_nat nanos :: u64, counter) | Inl e \<Rightarrow> (counter, counter + 1))
      in (''span-'' @ hex_fixed hex_lower 16 (unat now), counter))"

record TraceContext =
  tc_trace_id :: string
  tc_span_id :: string
  tc_parent_span_id :: "string option"
  tc_service_name :: string
  tc_operation :: string

definition TraceContext_new :: "system_time \<Rightarrow> string \<Rightarrow> string \<Rightarrow> u64 \<Rightarrow> TraceContext \<times> u64" where
  "TraceContext_new time service_name operation counter =
     (let (trace_id, counter) = generate_trace_id counter;
          (span_id, counter) = generate_span_id time counter
      in (\<lparr>tc_trace_id = trace_id, tc_span_id = span_id, tc_parent_span_id = None,
           tc_service_name = service_name, tc_operation = operation\<rparr>, counter))"

definition TraceContext_child_span :: "system_time \<Rightarrow> string \<Rightarrow> TraceContext \<Rightarrow> u64 \<Rightarrow> TraceContext \<times> u64" where
  "TraceContext_child_span time operation c counter =
     (let (span_id, counter) = generate_span_id time counter
      in (\<lparr>tc_trace_id = tc_trace_id c, tc_span_id = span_id, tc_parent_span_id = Some (tc_span_id c),
           tc_service_name = tc_service_name c, tc_operation = operation\<rparr>, counter))"

definition TraceContext_from_parent ::
  "system_time \<Rightarrow> string \<Rightarrow> string \<Rightarrow> string \<Rightarrow> string \<Rightarrow> u64 \<Rightarrow> TraceContext \<times> u64" where
  "TraceContext_from_parent time trace_id parent_span_id service_name operation counter =
     (let (span_id, counter) = generate_span_id time counter
      in (\<lparr>tc_trace_id = trace_id, tc_span_id = span_id, tc_parent_span_id = Some parent_span_id,
           tc_service_name = service_name, tc_operation = operation\<rparr>, counter))"

record Span =
  sp_context :: TraceContext
  sp_start_time :: instant
  sp_attributes :: "string \<rightharpoonup> string"

definition Span_new :: "instant \<Rightarrow> TraceContext \<Rightarrow> Span" where
  "Span_new now context = \<lparr>sp_context = context, sp_start_time = now, sp_attributes = Map.empty\<rparr>"

definition Span_set_attribute :: "string \<Rightarrow> string \<Rightarrow> Span \<Rightarrow> Span" where
  "Span_set_attribute key val s = s\<lparr>sp_attributes := (sp_attributes s)(key \<mapsto> val)\<rparr>"

definition Span_elapsed_ms :: "instant \<Rightarrow> Span \<Rightarrow> u64" where
  "Span_elapsed_ms now s = of_nat (elapsed now (sp_start_time s) div 1000000)"

record SpanSummary =
  ss_trace_id :: string
  ss_span_id :: string
  ss_parent_span_id :: "string option"
  ss_service_name :: string
  ss_operation :: string
  ss_duration_ms :: u64
  ss_attributes :: "string \<rightharpoonup> string"

definition Span_end :: "instant \<Rightarrow> Span \<Rightarrow> SpanSummary" where
  "Span_end now s =
     (let duration_ms = Span_elapsed_ms now s in
      \<lparr>ss_trace_id = tc_trace_id (sp_context s), ss_span_id = tc_span_id (sp_context s),
       ss_parent_span_id = tc_parent_span_id (sp_context s), ss_service_name = tc_service_name (sp_context s),
       ss_operation = tc_operation (sp_context s), ss_duration_ms = duration_ms,
       ss_attributes = sp_attributes s\<rparr>)"

record SpanCollector =
  sc_spans :: "SpanSummary list"

definition SpanCollector_new :: SpanCollector where
  "SpanCollector_new = \<lparr>sc_spans = []\<rparr>"

definition SpanCollector_default :: SpanCollector where
  "SpanCollector_default = SpanCollector_new"

definition SpanCollector_record :: "SpanSummary \<Rightarrow> SpanCollector \<Rightarrow> SpanCollector" where
  "SpanCollector_record span c = c\<lparr>sc_spans := sc_spans c @ [span]\<rparr>"

definition SpanCollector_get_spans :: "SpanCollector \<Rightarrow> SpanSummary list" where
  "SpanCollector_get_spans c = sc_spans c"

definition SpanCollector_clear :: "SpanCollector \<Rightarrow> SpanCollector" where
  "SpanCollector_clear c = c\<lparr>sc_spans := []\<rparr>"

record SpanExport =
  ex_trace_id :: string
  ex_span_id :: string
  ex_parent_span_id :: "string option"
  ex_service :: string
  ex_operation :: string
  ex_duration_ms :: u64
  ex_attributes :: "string \<rightharpoonup> string"

definition SpanCollector_export_json ::
  "(SpanExport list \<Rightarrow> string + string) \<Rightarrow> SpanCollector \<Rightarrow> string + string" where
  "SpanCollector_export_json to_string_pretty c =
     to_string_pretty (map (\<lambda>s.
       \<lparr>ex_trace_id = ss_trace_id s, ex_span_id = ss_span_id s, ex_parent_span_id = ss_parent_span_id s,
        ex_service = ss_service_name s, ex_operation = ss_operation s, ex_duration_ms = ss_duration_ms s,
        ex_attributes = ss_attributes s\<rparr>) (sc_spans c))"

section \<open>Creating contexts\<close>

text \<open>
  The requests that create contexts, and what a sequence of them creates: each context is
  kept, and a child refers to a context created before by its position.
\<close>

datatype trace_event =
    NewTrace system_time string string
  | ChildSpan system_time string nat
  | FromParent system_time string string string string

fun trace_apply :: "trace_event \<Rightarrow> TraceContext list \<times> u64 \<Rightarrow> TraceContext list \<times> u64" where
  "trace_apply (NewTrace time service operation) (cs, counter) =
     (let (c, counter) = TraceContext_new time service operation counter in (cs @ [c], counter))"
| "trace_apply (ChildSpan time operation i) (cs, counter) =
     (if i < length cs
      then let (c, counter) = TraceContext_child_span time operation (cs ! i) counter in (cs @ [c], counter)
      else (cs, counter))"
| "trace_apply (FromParent time trace_id parent service operation) (cs, counter) =
     (let (c, counter) = TraceContext_from_parent time trace_id parent service operation counter in (cs @ [c], counter))"

text \<open>
  The trace each context belongs to: the request that started it, numbered by the counter;
  \<open>None\<close> for a trace that came from outside.
\<close>

definition ticks :: "system_time \<Rightarrow> nat" where
  "ticks time = (case time of Inr _ \<Rightarrow> 0 | Inl _ \<Rightarrow> 1)"

fun origin_apply :: "trace_event \<Rightarrow> nat option list \<times> nat \<Rightarrow> nat option list \<times> nat" where
  "origin_apply (NewTrace time service operation) (os, k) = (os @ [Some k], k + 1 + ticks time)"
| "origin_apply (ChildSpan time operation i) (os, k) =
     (if i < length os then (os @ [os ! i], k + ticks time) else (os, k))"
| "origin_apply (FromParent time trace_id parent service operation) (os, k) = (os @ [None], k + ticks time)"

definition trace_text :: "nat \<Rightarrow> string" where
  "trace_text n = ''trace-'' @ hex_fixed hex_lower 16 (unat (TRACE_COUNTER + of_nat n))"

lemma trace_text_inj: "m < 2 ^ 64 \<Longrightarrow> n < 2 ^ 64 \<Longrightarrow> trace_text m = trace_text n \<longleftrightarrow> m = n"
proof -
  assume "m < 2 ^ 64" "n < 2 ^ 64"
  then have "(of_nat m :: u64) = of_nat n \<longleftrightarrow> m = n" by (metis unat_usize_of_nat)
  then show ?thesis
    by (simp add: trace_text_def lower.word_eq_iff [where 'a = 64 and k = 16])
qed

definition traces_ok :: "TraceContext list \<times> u64 \<Rightarrow> nat option list \<times> nat \<Rightarrow> bool" where
  "traces_ok st os_k \<longleftrightarrow>
     (case (st, os_k) of ((cs, counter), os, k) \<Rightarrow>
        length os = length cs \<and> counter = TRACE_COUNTER + of_nat k \<and>
        (\<forall>i < length cs. \<forall>n. os ! i = Some n \<longrightarrow> n < k \<and> tc_trace_id (cs ! i) = trace_text n))"

lemma span_id_counter: "snd (generate_span_id time counter) = counter + of_nat (ticks time)"
  by (simp add: generate_span_id_def ticks_def split: sum.splits)

lemma trace_apply_ok:
  assumes "traces_ok st os_k" shows "traces_ok (trace_apply e st) (origin_apply e os_k)"
proof -
  obtain cs counter os k where st: "st = (cs, counter)" "os_k = (os, k)" by (cases st, cases os_k)
  have inv: "length os = length cs" "counter = TRACE_COUNTER + of_nat k"
      "\<And>i n. i < length cs \<Longrightarrow> os ! i = Some n \<Longrightarrow> n < k \<and> tc_trace_id (cs ! i) = trace_text n"
    using assms by (auto simp: traces_ok_def st)
  show ?thesis
  proof (cases e)
    case (NewTrace time service operation)
    then show ?thesis using inv span_id_counter [of time "counter + 1"]
      by (auto simp: st traces_ok_def TraceContext_new_def generate_trace_id_def trace_text_def Let_def split_beta
          nth_append less_Suc_eq intro: less_trans trans_less_add1)
  next
    case (ChildSpan time operation i)
    then show ?thesis using inv span_id_counter [of time counter]
      by (auto simp: st traces_ok_def TraceContext_child_span_def Let_def split_beta
          nth_append less_Suc_eq intro: trans_less_add1)
  next
    case (FromParent time trace_id parent service operation)
    then show ?thesis using inv span_id_counter [of time counter]
      by (auto simp: st traces_ok_def TraceContext_from_parent_def Let_def split_beta
          nth_append less_Suc_eq intro: trans_less_add1)
  qed
qed

lemma traces_run_ok: "traces_ok st os_k \<Longrightarrow> traces_ok (fold trace_apply es st) (fold origin_apply es os_k)"
  by (induction es arbitrary: st os_k) (auto simp: trace_apply_ok)

lemma origin_run_ticks: "snd (fold origin_apply es (os, k)) \<le> k + 2 * length es"
proof (induction es arbitrary: os k)
  case (Cons e es)
  have "snd (origin_apply e (os, k)) \<le> k + 2"
    by (cases e) (auto simp: ticks_def split: sum.splits)
  then show ?case using Cons [of "fst (origin_apply e (os, k))" "snd (origin_apply e (os, k))"] by simp
qed simp

section \<open>Properties\<close>

text \<open>
  C39. Trace identifiers identify traces. After any \<open>2 ^ 63\<close> requests at most, with any clock
  readings and even a clock before the epoch, two contexts that descend from traces
  started here have the same trace identifier exactly when they descend from the same
  \<open>TraceContext::new\<close>.
\<close>

theorem trace_ids_identify_traces:
  assumes "fold trace_apply es ([], TRACE_COUNTER) = (cs, counter)" "fold origin_apply es ([], 0) = (os, k)"
    and "length es \<le> 2 ^ 63"
  shows "length os = length cs \<and>
    (\<forall>i < length cs. \<forall>j < length cs. os ! i \<noteq> None \<and> os ! j \<noteq> None \<longrightarrow>
       (tc_trace_id (cs ! i) = tc_trace_id (cs ! j) \<longleftrightarrow> os ! i = os ! j))"
proof -
  have "traces_ok ([], TRACE_COUNTER) ([], 0)" by (simp add: traces_ok_def)
  then have ok: "traces_ok (cs, counter) (os, k)" using traces_run_ok [of _ _ es] assms(1,2) by metis
  have "k \<le> 2 ^ 64" using origin_run_ticks [of es "[]" 0] assms(2,3) by simp
  then have bound: "n < 2 ^ 64 \<and> tc_trace_id (cs ! i) = trace_text n" if "i < length cs" "os ! i = Some n" for i n
    using ok that by (auto simp: traces_ok_def)
  have "tc_trace_id (cs ! i) = tc_trace_id (cs ! j) \<longleftrightarrow> os ! i = os ! j"
    if "i < length cs" "j < length cs" "os ! i \<noteq> None" "os ! j \<noteq> None" for i j
    using that bound [of i] bound [of j] trace_text_inj by auto
  then show ?thesis using ok by (auto simp: traces_ok_def)
qed

text \<open>Two traces, the first with a child and a grandchild.\<close>

theorem trace_ids_identify_traces_witness:
  "case fold trace_apply [NewTrace (Inr 5) ''net'' ''send'', ChildSpan (Inr 6) ''encode'' 0, NewTrace (Inl ''early'') ''net'' ''recv'',
      ChildSpan (Inr 7) ''write'' 1] ([], TRACE_COUNTER) of
     (cs, counter) \<Rightarrow> length cs = 4 \<and> tc_trace_id (cs ! 3) = tc_trace_id (cs ! 0) \<and> tc_trace_id (cs ! 2) \<noteq> tc_trace_id (cs ! 0)"
proof -
  let ?es = "[NewTrace (Inr 5) ''net'' ''send'', ChildSpan (Inr 6) ''encode'' 0, NewTrace (Inl ''early'') ''net'' ''recv'',
      ChildSpan (Inr 7) ''write'' 1]"
  obtain cs counter where cs: "fold trace_apply ?es ([], TRACE_COUNTER) = (cs, counter)" by fastforce
  define os :: "nat option list" where "os = [Some 0, Some 0, Some 1, Some 0]"
  have "fold origin_apply ?es ([], 0) = (os, 3)" by (simp add: ticks_def os_def)
  from trace_ids_identify_traces [OF cs this] have "length os = length cs"
    and ids: "\<And>i j. i < length cs \<Longrightarrow> j < length cs \<Longrightarrow> os ! i \<noteq> None \<Longrightarrow> os ! j \<noteq> None \<Longrightarrow>
      tc_trace_id (cs ! i) = tc_trace_id (cs ! j) \<longleftrightarrow> os ! i = os ! j"
    by simp_all
  then have len: "length cs = 4" by (simp add: os_def)
  from ids [of 3 0] ids [of 2 0] len show ?thesis unfolding cs by (simp add: os_def)
qed

text \<open>
  Span identifiers do not identify spans: they are the clock reading in hexadecimal, so
  two spans started at the same reading, or at readings that differ by a multiple of
  \<open>2 ^ 64\<close> nanoseconds, have the same identifier, and only those.
\<close>

theorem span_ids_collide:
  "fst (generate_span_id (Inr m) c) = fst (generate_span_id (Inr n) c') \<longleftrightarrow> m mod 2 ^ 64 = n mod 2 ^ 64"
proof -
  have "(of_nat m :: u64) = of_nat n \<longleftrightarrow> m mod 2 ^ 64 = n mod 2 ^ 64"
    by (simp add: word_of_nat_eq_iff take_bit_eq_mod)
  then show ?thesis by (simp add: generate_span_id_def lower.word_eq_iff [where 'a = 64 and k = 16])
qed

end
