(* ===== verification/Tls_Config.thy ===== *)
theory Tls_Config
  imports Network_Error Hex_Format
begin

text \<open>
  TLS configuration (\<open>src/tls/config.rs\<close>): loading certificates and keys, the client and
  server configurations, and the two certificate verifiers of the crate. The file system,
  the PEM parser, the certificate stores, the hash function and the signature checks come
  from other crates: they are fields of \<open>tls_ops\<close>, an argument of the definitions that use
  them. A DER certificate is its bytes.
\<close>

section \<open>Model\<close>

type_synonym cert = "u8 list"

text \<open>
  \<open>tls_upper\<close> is \<open>str::to_uppercase\<close>, which follows the Unicode tables; the model fixes it on
  ASCII strings only (\<open>ascii_upper_law\<close> below).
\<close>

record ('k, 'sc, 'rs, 'd) tls_ops =
  tls_upper :: "string \<Rightarrow> string"
  tls_sha256 :: "u8 list \<Rightarrow> u8 list"
  tls_open :: "string \<Rightarrow> string + u8 list"
  tls_pem_certs :: "u8 list \<Rightarrow> (string + cert) list"
  tls_pem_private_key :: "u8 list \<Rightarrow> string + 'k option"
  tls_single_cert :: "cert list \<Rightarrow> 'k \<Rightarrow> string + 'sc"
  tls_root_empty :: 'rs
  tls_root_add :: "cert \<Rightarrow> 'rs \<Rightarrow> string + 'rs"
  tls_native_certs :: "cert list"
  tls_root_verify :: "'rs \<Rightarrow> cert \<Rightarrow> cert list \<Rightarrow> string \<Rightarrow> string + unit"
  tls_verify_tls12 :: "u8 list \<Rightarrow> cert \<Rightarrow> 'd \<Rightarrow> string + unit"
  tls_verify_tls13 :: "u8 list \<Rightarrow> cert \<Rightarrow> 'd \<Rightarrow> string + unit"

subsection \<open>Certificate pins\<close>

record CertificatePins =
  fingerprints :: "string list"

definition CertificatePins_new :: CertificatePins where
  "CertificatePins_new = \<lparr>fingerprints = []\<rparr>"

definition CertificatePins_default :: CertificatePins where
  "CertificatePins_default = CertificatePins_new"

definition CertificatePins_add_fingerprint ::
  "('k, 'sc, 'rs, 'd) tls_ops \<Rightarrow> string \<Rightarrow> CertificatePins \<Rightarrow> CertificatePins" where
  "CertificatePins_add_fingerprint T fingerprint pins =
     (let fingerprint = tls_upper T (filter (\<lambda>c. c \<noteq> CHR '':'') fingerprint)
      in pins\<lparr>fingerprints := fingerprints pins @ [fingerprint]\<rparr>)"

definition CertificatePins_matches :: "('k, 'sc, 'rs, 'd) tls_ops \<Rightarrow> CertificatePins \<Rightarrow> cert \<Rightarrow> bool" where
  "CertificatePins_matches T pins c =
     (let cert_fingerprint = concat (map (\<lambda>b. hex_fixed hex_upper 2 (unat b)) (tls_sha256 T c))
      in list_ex (\<lambda>pin. pin = cert_fingerprint) (fingerprints pins))"

subsection \<open>Verifiers\<close>

datatype SignatureScheme =
    RSA_PKCS1_SHA256 | RSA_PKCS1_SHA384 | RSA_PKCS1_SHA512 | ECDSA_NISTP256_SHA256 | ECDSA_NISTP384_SHA384
  | RSA_PSS_SHA256 | RSA_PSS_SHA384 | RSA_PSS_SHA512 | ED25519

definition NoVerifier_verify_server_cert :: "cert \<Rightarrow> cert list \<Rightarrow> string \<Rightarrow> string + unit" where
  "NoVerifier_verify_server_cert end_entity intermediates server_name = Inr ()"

definition NoVerifier_verify_tls12_signature :: "u8 list \<Rightarrow> cert \<Rightarrow> 'd \<Rightarrow> string + unit" where
  "NoVerifier_verify_tls12_signature message c dss = Inr ()"

definition NoVerifier_verify_tls13_signature :: "u8 list \<Rightarrow> cert \<Rightarrow> 'd \<Rightarrow> string + unit" where
  "NoVerifier_verify_tls13_signature message c dss = Inr ()"

definition NoVerifier_supported_verify_schemes :: "SignatureScheme list" where
  "NoVerifier_supported_verify_schemes =
     [RSA_PKCS1_SHA256, RSA_PKCS1_SHA384, RSA_PKCS1_SHA512, ECDSA_NISTP256_SHA256, ECDSA_NISTP384_SHA384,
      RSA_PSS_SHA256, RSA_PSS_SHA384, RSA_PSS_SHA512, ED25519]"

record PinningVerifier =
  pv_pins :: CertificatePins

definition PinningVerifier_new :: "CertificatePins \<Rightarrow> PinningVerifier" where
  "PinningVerifier_new pins = \<lparr>pv_pins = pins\<rparr>"

definition PinningVerifier_verify_server_cert ::
  "('k, 'sc, 'rs, 'd) tls_ops \<Rightarrow> PinningVerifier \<Rightarrow> cert \<Rightarrow> cert list \<Rightarrow> string \<Rightarrow> string + unit" where
  "PinningVerifier_verify_server_cert T v end_entity intermediates server_name =
     (if CertificatePins_matches T (pv_pins v) end_entity then Inr ()
      else Inl ''Certificate does not match any pinned fingerprint'')"

definition PinningVerifier_verify_tls12_signature ::
  "('k, 'sc, 'rs, 'd) tls_ops \<Rightarrow> PinningVerifier \<Rightarrow> u8 list \<Rightarrow> cert \<Rightarrow> 'd \<Rightarrow> string + unit" where
  "PinningVerifier_verify_tls12_signature T v message c dss = tls_verify_tls12 T message c dss"

definition PinningVerifier_verify_tls13_signature ::
  "('k, 'sc, 'rs, 'd) tls_ops \<Rightarrow> PinningVerifier \<Rightarrow> u8 list \<Rightarrow> cert \<Rightarrow> 'd \<Rightarrow> string + unit" where
  "PinningVerifier_verify_tls13_signature T v message c dss = tls_verify_tls13 T message c dss"

definition PinningVerifier_supported_verify_schemes :: "SignatureScheme list" where
  "PinningVerifier_supported_verify_schemes =
     [RSA_PKCS1_SHA256, RSA_PKCS1_SHA384, RSA_PKCS1_SHA512, ECDSA_NISTP256_SHA256, ECDSA_NISTP384_SHA384,
      RSA_PSS_SHA256, RSA_PSS_SHA384, RSA_PSS_SHA512, ED25519]"

subsection \<open>Loading certificates and keys\<close>

text \<open>\<open>collect::<Result<Vec<_>, _>>()\<close>: the first error, or all values.\<close>

fun collect_results :: "(string + 'a) list \<Rightarrow> string + 'a list" where
  "collect_results [] = Inr []"
| "collect_results (r # rs) =
     (case r of
        Inl e \<Rightarrow> Inl e
      | Inr x \<Rightarrow> (case collect_results rs of Inl e \<Rightarrow> Inl e | Inr xs \<Rightarrow> Inr (x # xs)))"

definition TlsConfig_parse_certs :: "('k, 'sc, 'rs, 'd) tls_ops \<Rightarrow> u8 list \<Rightarrow> cert list net_result" where
  "TlsConfig_parse_certs T pem =
     (case collect_results (tls_pem_certs T pem) of
        Inl e \<Rightarrow> Inl (NetworkError_tls (''Failed to parse certificates: '' @ e))
      | Inr certs \<Rightarrow>
          if certs = [] then Inl (NetworkError_tls ''No certificates found in PEM data'') else Inr certs)"

definition TlsConfig_load_certs :: "('k, 'sc, 'rs, 'd) tls_ops \<Rightarrow> string \<Rightarrow> cert list net_result" where
  "TlsConfig_load_certs T path =
     (case tls_open T path of
        Inl e \<Rightarrow> Inl (NetworkError_tls (''Failed to open certificate file '' @ [CHR 0x27] @ path @ [CHR 0x27] @ '': '' @ e))
      | Inr file \<Rightarrow>
          (case collect_results (tls_pem_certs T file) of
             Inl e \<Rightarrow> Inl (NetworkError_tls (''Failed to parse certificates: '' @ e))
           | Inr certs \<Rightarrow>
               if certs = [] then Inl (NetworkError_tls ''No certificates found in file'') else Inr certs))"

definition TlsConfig_parse_private_key :: "('k, 'sc, 'rs, 'd) tls_ops \<Rightarrow> u8 list \<Rightarrow> 'k net_result" where
  "TlsConfig_parse_private_key T pem =
     (case tls_pem_private_key T pem of
        Inl e \<Rightarrow> Inl (NetworkError_tls (''Failed to parse private key: '' @ e))
      | Inr None \<Rightarrow> Inl (NetworkError_tls ''No private key found in PEM data'')
      | Inr (Some key) \<Rightarrow> Inr key)"

definition TlsConfig_load_private_key :: "('k, 'sc, 'rs, 'd) tls_ops \<Rightarrow> string \<Rightarrow> 'k net_result" where
  "TlsConfig_load_private_key T path =
     (case tls_open T path of
        Inl e \<Rightarrow> Inl (NetworkError_tls (''Failed to open key file '' @ [CHR 0x27] @ path @ [CHR 0x27] @ '': '' @ e))
      | Inr file \<Rightarrow>
          (case tls_pem_private_key T file of
             Inl e \<Rightarrow> Inl (NetworkError_tls (''Failed to parse private key: '' @ e))
           | Inr None \<Rightarrow> Inl (NetworkError_tls ''No private key found in file'')
           | Inr (Some key) \<Rightarrow> Inr key))"

text \<open>The loop that adds certificates to a root store; \<open>what\<close> is the text of its error.\<close>

fun add_roots :: "('k, 'sc, 'rs, 'd) tls_ops \<Rightarrow> string \<Rightarrow> cert list \<Rightarrow> 'rs \<Rightarrow> 'rs net_result" where
  "add_roots T what [] root_store = Inr root_store"
| "add_roots T what (c # cs) root_store =
     (case tls_root_add T c root_store of
        Inl e \<Rightarrow> Inl (NetworkError_tls (what @ e))
      | Inr root_store \<Rightarrow> add_roots T what cs root_store)"

subsection \<open>Configurations\<close>

text \<open>How a client configuration checks the server's certificate.\<close>

datatype 'rs client_verifier = RootCertificates 'rs | Insecure | Pinning PinningVerifier

record ('sc, 'rs) TlsConfig =
  server_config :: "'sc option"
  client_config :: "'rs client_verifier option"

definition TlsConfig_new :: "('sc, 'rs) TlsConfig" where
  "TlsConfig_new = \<lparr>server_config = None, client_config = None\<rparr>"

definition TlsConfig_default :: "('sc, 'rs) TlsConfig" where
  "TlsConfig_default = TlsConfig_new"

definition TlsConfig_with_server_cert_file ::
  "('k, 'sc, 'rs, 'd) tls_ops \<Rightarrow> string \<Rightarrow> string \<Rightarrow> ('sc, 'rs) TlsConfig \<Rightarrow> ('sc, 'rs) TlsConfig net_result" where
  "TlsConfig_with_server_cert_file T cert_path key_path c =
     (case TlsConfig_load_certs T cert_path of
        Inl e \<Rightarrow> Inl e
      | Inr certs \<Rightarrow>
          (case TlsConfig_load_private_key T key_path of
             Inl e \<Rightarrow> Inl e
           | Inr key \<Rightarrow>
               (case tls_single_cert T certs key of
                  Inl e \<Rightarrow> Inl (NetworkError_tls (''Invalid server certificate: '' @ e))
                | Inr config \<Rightarrow> Inr (c\<lparr>server_config := Some config\<rparr>))))"

definition TlsConfig_with_server_cert_pem ::
  "('k, 'sc, 'rs, 'd) tls_ops \<Rightarrow> u8 list \<Rightarrow> u8 list \<Rightarrow> ('sc, 'rs) TlsConfig \<Rightarrow> ('sc, 'rs) TlsConfig net_result" where
  "TlsConfig_with_server_cert_pem T cert_pem key_pem c =
     (case TlsConfig_parse_certs T cert_pem of
        Inl e \<Rightarrow> Inl e
      | Inr certs \<Rightarrow>
          (case TlsConfig_parse_private_key T key_pem of
             Inl e \<Rightarrow> Inl e
           | Inr key \<Rightarrow>
               (case tls_single_cert T certs key of
                  Inl e \<Rightarrow> Inl (NetworkError_tls (''Invalid server certificate: '' @ e))
                | Inr config \<Rightarrow> Inr (c\<lparr>server_config := Some config\<rparr>))))"

definition TlsConfig_with_client_insecure :: "('sc, 'rs) TlsConfig \<Rightarrow> ('sc, 'rs) TlsConfig" where
  "TlsConfig_with_client_insecure c = c\<lparr>client_config := Some Insecure\<rparr>"

definition TlsConfig_with_client_ca_file ::
  "('k, 'sc, 'rs, 'd) tls_ops \<Rightarrow> string \<Rightarrow> ('sc, 'rs) TlsConfig \<Rightarrow> ('sc, 'rs) TlsConfig net_result" where
  "TlsConfig_with_client_ca_file T ca_path c =
     (case TlsConfig_load_certs T ca_path of
        Inl e \<Rightarrow> Inl e
      | Inr ca_certs \<Rightarrow>
          (case add_roots T ''Invalid CA certificate: '' ca_certs (tls_root_empty T) of
             Inl e \<Rightarrow> Inl e
           | Inr root_store \<Rightarrow> Inr (c\<lparr>client_config := Some (RootCertificates root_store)\<rparr>)))"

definition TlsConfig_with_client_ca_pem ::
  "('k, 'sc, 'rs, 'd) tls_ops \<Rightarrow> u8 list \<Rightarrow> ('sc, 'rs) TlsConfig \<Rightarrow> ('sc, 'rs) TlsConfig net_result" where
  "TlsConfig_with_client_ca_pem T ca_pem c =
     (case TlsConfig_parse_certs T ca_pem of
        Inl e \<Rightarrow> Inl e
      | Inr ca_certs \<Rightarrow>
          (case add_roots T ''Invalid CA certificate: '' ca_certs (tls_root_empty T) of
             Inl e \<Rightarrow> Inl e
           | Inr root_store \<Rightarrow> Inr (c\<lparr>client_config := Some (RootCertificates root_store)\<rparr>)))"

definition TlsConfig_with_client_system_roots ::
  "('k, 'sc, 'rs, 'd) tls_ops \<Rightarrow> ('sc, 'rs) TlsConfig \<Rightarrow> ('sc, 'rs) TlsConfig net_result" where
  "TlsConfig_with_client_system_roots T c =
     (case add_roots T ''Invalid system certificate: '' (tls_native_certs T) (tls_root_empty T) of
        Inl e \<Rightarrow> Inl e
      | Inr root_store \<Rightarrow> Inr (c\<lparr>client_config := Some (RootCertificates root_store)\<rparr>))"

definition TlsConfig_with_client_certificate_pinning ::
  "CertificatePins \<Rightarrow> ('sc, 'rs) TlsConfig \<Rightarrow> ('sc, 'rs) TlsConfig" where
  "TlsConfig_with_client_certificate_pinning pins c =
     c\<lparr>client_config := Some (Pinning (PinningVerifier_new pins))\<rparr>"

definition TlsConfig_acceptor :: "('sc, 'rs) TlsConfig \<Rightarrow> 'sc option" where
  "TlsConfig_acceptor c = server_config c"

definition TlsConfig_connector :: "('sc, 'rs) TlsConfig \<Rightarrow> 'rs client_verifier option" where
  "TlsConfig_connector c = client_config c"

definition TlsConfig_has_server_config :: "('sc, 'rs) TlsConfig \<Rightarrow> bool" where
  "TlsConfig_has_server_config c \<longleftrightarrow> server_config c \<noteq> None"

definition TlsConfig_has_client_config :: "('sc, 'rs) TlsConfig \<Rightarrow> bool" where
  "TlsConfig_has_client_config c \<longleftrightarrow> client_config c \<noteq> None"

text \<open>The certificate check of a connector: rustls calls the verifier it was built with.\<close>

fun connector_verify ::
  "('k, 'sc, 'rs, 'd) tls_ops \<Rightarrow> 'rs client_verifier \<Rightarrow> cert \<Rightarrow> cert list \<Rightarrow> string \<Rightarrow> string + unit" where
  "connector_verify T (RootCertificates roots) end_entity intermediates server_name =
     tls_root_verify T roots end_entity intermediates server_name"
| "connector_verify T Insecure end_entity intermediates server_name =
     NoVerifier_verify_server_cert end_entity intermediates server_name"
| "connector_verify T (Pinning v) end_entity intermediates server_name =
     PinningVerifier_verify_server_cert T v end_entity intermediates server_name"

section \<open>What a fingerprint denotes\<close>

text \<open>
  The specification of the fingerprint syntax: hexadecimal digits in either case, two per
  byte, with colons anywhere.
\<close>

definition hex_value :: "char \<Rightarrow> nat option" where
  "hex_value c =
     (let n = of_char c :: nat in
      if 48 \<le> n \<and> n \<le> 57 then Some (n - 48)
      else if 65 \<le> n \<and> n \<le> 70 then Some (n - 55)
      else if 97 \<le> n \<and> n \<le> 102 then Some (n - 87)
      else None)"

fun hex_bytes :: "string \<Rightarrow> u8 list option" where
  "hex_bytes [] = Some []"
| "hex_bytes [c] = None"
| "hex_bytes (c # d # cs) =
     (case (hex_value c, hex_value d, hex_bytes cs) of
        (Some m, Some n, Some bs) \<Rightarrow> Some (of_nat (16 * m + n) # bs)
      | _ \<Rightarrow> None)"

definition fingerprint_bytes :: "string \<Rightarrow> u8 list option" where
  "fingerprint_bytes fp = hex_bytes (filter (\<lambda>c. c \<noteq> CHR '':'') fp)"

definition ascii :: "string \<Rightarrow> bool" where
  "ascii s \<longleftrightarrow> list_all (\<lambda>c. (of_char c :: nat) < 128) s"

definition ascii_upper :: "char \<Rightarrow> char" where
  "ascii_upper c = (let n = of_char c :: nat in if 97 \<le> n \<and> n \<le> 122 then char_of (n - 32) else c)"

text \<open>What the standard library documents of \<open>to_uppercase\<close> on ASCII strings.\<close>

definition ascii_upper_law :: "('k, 'sc, 'rs, 'd) tls_ops \<Rightarrow> bool" where
  "ascii_upper_law T \<longleftrightarrow> (\<forall>s. ascii s \<longrightarrow> tls_upper T s = map ascii_upper s)"

lemma char_of_eq_iff: "n < 256 \<Longrightarrow> char_of n = c \<longleftrightarrow> n = (of_char c :: nat)"
  by (metis char_of_char mod_less of_char_of)

lemma hex_value_iff: "m < 16 \<Longrightarrow> ascii_upper c = hex_upper m \<longleftrightarrow> hex_value c = Some m"
  by (auto simp: ascii_upper_def hex_upper_def hex_value_def Let_def char_of_eq_iff char_of_inj
      eq_commute [of c] split: if_splits)

lemma hex_value_less: "hex_value c = Some m \<Longrightarrow> m < 16"
  by (auto simp: hex_value_def Let_def split: if_splits)

lemma unat_byte_div: "unat (b::u8) div 16 < 16"
proof -
  have "unat b < 2 ^ LENGTH(8)" by (rule unsigned_less)
  then show ?thesis by simp
qed

lemma hex_byte: "hex_fixed hex_upper 2 (unat (b::u8)) = [hex_upper (unat b div 16), hex_upper (unat b mod 16)]"
  using unat_byte_div [of b] by (simp add: numeral_2_eq_2)

lemma byte_of_digits:
  assumes "m < 16" "n < 16"
  shows "(b::u8) = of_nat (16 * m + n) \<longleftrightarrow> unat b div 16 = m \<and> unat b mod 16 = n"
proof -
  have "unat (of_nat (16 * m + n) :: u8) = 16 * m + n"
    using assms by (subst unat_of_nat) (simp add: take_bit_nat_eq_self)
  then have "b = of_nat (16 * m + n) \<longleftrightarrow> unat b = 16 * m + n" by (metis word_eq_iff_unsigned)
  also have "\<dots> \<longleftrightarrow> unat b div 16 = m \<and> unat b mod 16 = n" using assms by auto
  finally show ?thesis .
qed

lemma hex_pair:
  "map ascii_upper [c, d] = hex_fixed hex_upper 2 (unat (b::u8)) \<longleftrightarrow>
     (\<exists>m n. hex_value c = Some m \<and> hex_value d = Some n \<and> b = of_nat (16 * m + n))"
proof
  assume "map ascii_upper [c, d] = hex_fixed hex_upper 2 (unat b)"
  then have "hex_value c = Some (unat b div 16)" "hex_value d = Some (unat b mod 16)"
    using unat_byte_div [of b] by (simp_all add: hex_byte hex_value_iff)
  then show "\<exists>m n. hex_value c = Some m \<and> hex_value d = Some n \<and> b = of_nat (16 * m + n)"
    using byte_of_digits [OF unat_byte_div, of "unat b mod 16" b] by simp
next
  assume "\<exists>m n. hex_value c = Some m \<and> hex_value d = Some n \<and> b = of_nat (16 * m + n)"
  then obtain m n where mn: "hex_value c = Some m" "hex_value d = Some n" "b = of_nat (16 * m + n)" by blast
  have less: "m < 16" "n < 16" using mn hex_value_less by blast+
  with byte_of_digits [OF less, of b] mn show "map ascii_upper [c, d] = hex_fixed hex_upper 2 (unat b)"
    by (simp add: hex_byte hex_value_iff)
qed

lemma hex_bytes_Cons2:
  "hex_bytes (c # d # cs) = Some (b # bs) \<longleftrightarrow>
     (\<exists>m n. hex_value c = Some m \<and> hex_value d = Some n \<and> b = of_nat (16 * m + n)) \<and> hex_bytes cs = Some bs"
  by (auto split: option.splits simp del: of_nat_add of_nat_mult)

lemma hex_bytes_iff:
  "map ascii_upper s = concat (map (\<lambda>b. hex_fixed hex_upper 2 (unat b)) bs) \<longleftrightarrow> hex_bytes s = Some bs"
proof (induction s arbitrary: bs rule: hex_bytes.induct)
  case 1
  then show ?case by (cases bs) (auto simp: hex_byte)
next
  case (2 c)
  then show ?case by (cases bs) (auto simp: hex_byte)
next
  case (3 c d cs)
  show ?case
  proof (cases bs)
    case (Cons b bs')
    have "map ascii_upper (c # d # cs) = concat (map (\<lambda>b. hex_fixed hex_upper 2 (unat b)) bs) \<longleftrightarrow>
        map ascii_upper [c, d] = hex_fixed hex_upper 2 (unat b) \<and>
        map ascii_upper cs = concat (map (\<lambda>b. hex_fixed hex_upper 2 (unat b)) bs')"
      unfolding Cons by (simp add: hex_byte)
    also have "\<dots> \<longleftrightarrow> hex_bytes (c # d # cs) = Some bs"
      unfolding Cons hex_bytes_Cons2 by (simp only: hex_pair 3)
    finally show ?thesis .
  next
    case Nil
    then show ?thesis by (simp split: option.splits)
  qed
qed

lemma fingerprints_fold:
  "fingerprints (fold (CertificatePins_add_fingerprint T) fps pins) =
     fingerprints pins @ map (\<lambda>fp. tls_upper T (filter (\<lambda>c. c \<noteq> CHR '':'') fp)) fps"
  by (induction fps arbitrary: pins) (auto simp: CertificatePins_add_fingerprint_def Let_def)

lemma ascii_filter: "ascii s \<Longrightarrow> ascii (filter P s)"
  by (auto simp: ascii_def list_all_iff)

text \<open>
  C37. A client with pinned fingerprints accepts exactly the pinned certificates. Whatever the
  configuration held before, after \<open>with_client_certificate_pinning\<close> the connector accepts a
  server certificate, for any chain and any server name, exactly when its digest is the one
  that some added fingerprint spells, in upper or lower case and with or without colons; a
  malformed fingerprint accepts nothing. In particular the check against the roots
  configured before is gone, and the server name is not looked at.
\<close>

theorem pinned_client_accepts:
  assumes "ascii_upper_law T" "\<forall>fp \<in> set fps. ascii fp"
    and "pins = fold (CertificatePins_add_fingerprint T) fps CertificatePins_new"
  shows "\<exists>v. TlsConfig_connector (TlsConfig_with_client_certificate_pinning pins c) = Some v \<and>
    (connector_verify T v certificate intermediates server_name = Inr () \<longleftrightarrow>
       (\<exists>fp \<in> set fps. fingerprint_bytes fp = Some (tls_sha256 T certificate)))"
proof -
  define digest where "digest = concat (map (\<lambda>b. hex_fixed hex_upper 2 (unat b)) (tls_sha256 T certificate))"
  have "tls_upper T (filter (\<lambda>c. c \<noteq> CHR '':'') fp) = digest \<longleftrightarrow>
      fingerprint_bytes fp = Some (tls_sha256 T certificate)" if "fp \<in> set fps" for fp
    using assms(1,2) that ascii_filter [of fp] hex_bytes_iff
    by (simp add: ascii_upper_law_def fingerprint_bytes_def digest_def)
  moreover have "CertificatePins_matches T pins certificate \<longleftrightarrow>
      (\<exists>fp \<in> set fps. tls_upper T (filter (\<lambda>c. c \<noteq> CHR '':'') fp) = digest)"
    unfolding CertificatePins_matches_def Let_def list_ex_iff assms(3) fingerprints_fold CertificatePins_new_def
      digest_def [symmetric] by auto
  ultimately have "CertificatePins_matches T pins certificate \<longleftrightarrow>
      (\<exists>fp \<in> set fps. fingerprint_bytes fp = Some (tls_sha256 T certificate))" by blast
  then show ?thesis
    by (simp add: TlsConfig_connector_def TlsConfig_with_client_certificate_pinning_def PinningVerifier_new_def
        PinningVerifier_verify_server_cert_def)
qed

definition example_tls :: "(unit, unit, unit, unit) tls_ops" where
  "example_tls = \<lparr>tls_upper = map ascii_upper, tls_sha256 = (\<lambda>c. take 2 (c @ [0, 0])), tls_open = (\<lambda>_. Inl []),
     tls_pem_certs = (\<lambda>_. []), tls_pem_private_key = (\<lambda>_. Inr None), tls_single_cert = (\<lambda>_ _. Inr ()),
     tls_root_empty = (), tls_root_add = (\<lambda>_ _. Inr ()), tls_native_certs = [], tls_root_verify = (\<lambda>_ _ _ _. Inl []),
     tls_verify_tls12 = (\<lambda>_ _ _. Inr ()), tls_verify_tls13 = (\<lambda>_ _ _. Inr ())\<rparr>"

theorem pinned_client_accepts_witness:
  "\<exists>v. TlsConfig_connector (TlsConfig_with_client_certificate_pinning
      (fold (CertificatePins_add_fingerprint example_tls) [''e3:0b''] CertificatePins_new) (TlsConfig_new :: (unit, unit) TlsConfig)) = Some v \<and>
    connector_verify example_tls v [0xE3, 0x0B, 7] [] ''host'' = Inr () \<and>
    connector_verify example_tls v [0xE3, 0x0C, 7] [] ''host'' \<noteq> Inr ()"
proof -
  have laws: "ascii_upper_law example_tls" "\<forall>fp \<in> set [''e3:0b'']. ascii fp"
    by (simp_all add: ascii_upper_law_def example_tls_def ascii_def)
  have fp: "fingerprint_bytes ''e3:0b'' = Some [0xE3, 0x0B]"
    by (simp add: fingerprint_bytes_def hex_value_def Let_def)
  have sha: "tls_sha256 example_tls [0xE3, 0x0B, 7] = [0xE3, 0x0B]" "tls_sha256 example_tls [0xE3, 0x0C, 7] = [0xE3, 0x0C]"
    by (simp_all add: example_tls_def)
  let ?config = "TlsConfig_with_client_certificate_pinning
      (fold (CertificatePins_add_fingerprint example_tls) [''e3:0b''] CertificatePins_new) (TlsConfig_new :: (unit, unit) TlsConfig)"
  obtain v where v: "TlsConfig_connector ?config = Some v"
    "connector_verify example_tls v [0xE3, 0x0B, 7] [] ''host'' = Inr ()"
    using pinned_client_accepts [OF laws refl, of "TlsConfig_new :: (unit, unit) TlsConfig" "[0xE3, 0x0B, 7]" "[]" "''host''"]
    unfolding sha using fp by auto
  have "connector_verify example_tls v [0xE3, 0x0C, 7] [] ''host'' \<noteq> Inr ()"
    using pinned_client_accepts [OF laws refl, of "TlsConfig_new :: (unit, unit) TlsConfig" "[0xE3, 0x0C, 7]" "[]" "''host''"]
    unfolding v(1) by (auto simp: sha fp)
  with v show ?thesis by blast
qed

section \<open>Loading\<close>

lemma collect_results_iff: "collect_results rs = Inr xs \<longleftrightarrow> rs = map Inr xs"
  by (induction rs arbitrary: xs) (auto simp: try_Inr_iff Cons_eq_map_conv)

lemma parse_certs_iff:
  "TlsConfig_parse_certs T pem = Inr certs \<longleftrightarrow> tls_pem_certs T pem = map Inr certs \<and> certs \<noteq> []"
  by (auto simp: TlsConfig_parse_certs_def try_Inr_iff collect_results_iff)

lemma parse_private_key_iff:
  "TlsConfig_parse_private_key T pem = Inr key \<longleftrightarrow> tls_pem_private_key T pem = Inr (Some key)"
  by (auto simp: TlsConfig_parse_private_key_def split: sum.splits option.splits)

text \<open>Reading a file and parsing text accept the same contents; only the texts of the errors differ.\<close>

lemma load_certs_iff:
  "TlsConfig_load_certs T path = Inr certs \<longleftrightarrow>
     (\<exists>file. tls_open T path = Inr file \<and> TlsConfig_parse_certs T file = Inr certs)"
  by (auto simp: TlsConfig_load_certs_def TlsConfig_parse_certs_def split: sum.splits if_splits)

lemma load_private_key_iff:
  "TlsConfig_load_private_key T path = Inr key \<longleftrightarrow>
     (\<exists>file. tls_open T path = Inr file \<and> TlsConfig_parse_private_key T file = Inr key)"
  by (auto simp: TlsConfig_load_private_key_def TlsConfig_parse_private_key_def split: sum.splits option.splits)

text \<open>A root store that holds exactly the given certificates, added in their order.\<close>

fun trusts :: "('k, 'sc, 'rs, 'd) tls_ops \<Rightarrow> cert list \<Rightarrow> 'rs \<Rightarrow> 'rs \<Rightarrow> bool" where
  "trusts T [] root_store roots \<longleftrightarrow> roots = root_store"
| "trusts T (c # cs) root_store roots \<longleftrightarrow>
     (case tls_root_add T c root_store of Inl _ \<Rightarrow> False | Inr root_store \<Rightarrow> trusts T cs root_store roots)"

lemma add_roots_iff: "add_roots T what cs root_store = Inr roots \<longleftrightarrow> trusts T cs root_store roots"
  by (induction T what cs root_store rule: add_roots.induct) (auto split: sum.splits)

lemma tls_errors:
  "TlsConfig_parse_certs T pem = Inl e \<Longrightarrow> \<exists>text. e = NetworkError_tls text"
  "TlsConfig_parse_private_key T pem = Inl e \<Longrightarrow> \<exists>text. e = NetworkError_tls text"
  "TlsConfig_load_certs T path = Inl e \<Longrightarrow> \<exists>text. e = NetworkError_tls text"
  "TlsConfig_load_private_key T path = Inl e \<Longrightarrow> \<exists>text. e = NetworkError_tls text"
  by (auto simp: TlsConfig_parse_certs_def TlsConfig_parse_private_key_def TlsConfig_load_certs_def
      TlsConfig_load_private_key_def split: sum.splits option.splits if_splits)

lemma add_roots_error: "add_roots T what cs root_store = Inl e \<Longrightarrow> \<exists>text. e = NetworkError_tls text"
  by (induction T what cs root_store rule: add_roots.induct) (auto split: sum.splits)

lemmas tls_builders =
  TlsConfig_with_server_cert_pem_def TlsConfig_with_server_cert_file_def TlsConfig_with_client_ca_pem_def
  TlsConfig_with_client_ca_file_def TlsConfig_acceptor_def TlsConfig_connector_def

text \<open>
  C38. A TLS configuration is built from complete data or not at all. \<open>with_server_cert_pem\<close>
  succeeds exactly when every certificate of the chain parses, there is at least one, a
  private key is found and rustls accepts the pair, and then the acceptor is the one rustls made of
  them; the version for files accepts a pair of files exactly when they can be opened and
  hold such data. \<open>with_client_ca_pem\<close> succeeds exactly when there is at least one certificate
  and every one parses and is accepted as a root, and then the connector trusts exactly these
  roots: a bad certificate is never skipped. None of them touches the other half of the
  configuration, and every failure is an error of the kind TLS.
\<close>

theorem tls_all_or_nothing:
  "(TlsConfig_with_server_cert_pem T cert_pem key_pem c = Inr c1 \<longleftrightarrow>
      (\<exists>certs key sc. tls_pem_certs T cert_pem = map Inr certs \<and> certs \<noteq> [] \<and>
         tls_pem_private_key T key_pem = Inr (Some key) \<and> tls_single_cert T certs key = Inr sc \<and>
         TlsConfig_acceptor c1 = Some sc \<and> TlsConfig_connector c1 = TlsConfig_connector c)) \<and>
   (TlsConfig_with_server_cert_file T cert_path key_path c = Inr c1 \<longleftrightarrow>
      (\<exists>cert_pem key_pem. tls_open T cert_path = Inr cert_pem \<and> tls_open T key_path = Inr key_pem \<and>
         TlsConfig_with_server_cert_pem T cert_pem key_pem c = Inr c1)) \<and>
   (TlsConfig_with_client_ca_pem T ca_pem c = Inr c2 \<longleftrightarrow>
      (\<exists>certs roots. tls_pem_certs T ca_pem = map Inr certs \<and> certs \<noteq> [] \<and> trusts T certs (tls_root_empty T) roots \<and>
         TlsConfig_connector c2 = Some (RootCertificates roots) \<and> TlsConfig_acceptor c2 = TlsConfig_acceptor c)) \<and>
   (TlsConfig_with_client_ca_file T ca_path c = Inr c2 \<longleftrightarrow>
      (\<exists>ca_pem. tls_open T ca_path = Inr ca_pem \<and> TlsConfig_with_client_ca_pem T ca_pem c = Inr c2)) \<and>
   {e. \<exists>cert_pem key_pem. TlsConfig_with_server_cert_pem T cert_pem key_pem c = Inl e} \<union>
   {e. \<exists>ca_pem. TlsConfig_with_client_ca_pem T ca_pem c = Inl e} \<union>
   {e. \<exists>cert_path key_path. TlsConfig_with_server_cert_file T cert_path key_path c = Inl e} \<union>
   {e. \<exists>ca_path. TlsConfig_with_client_ca_file T ca_path c = Inl e} \<subseteq> range NetworkError_tls"
proof (intro conjI)
  show "TlsConfig_with_server_cert_pem T cert_pem key_pem c = Inr c1 \<longleftrightarrow>
      (\<exists>certs key sc. tls_pem_certs T cert_pem = map Inr certs \<and> certs \<noteq> [] \<and>
         tls_pem_private_key T key_pem = Inr (Some key) \<and> tls_single_cert T certs key = Inr sc \<and>
         TlsConfig_acceptor c1 = Some sc \<and> TlsConfig_connector c1 = TlsConfig_connector c)"
    by (cases c1, cases c) (auto simp: tls_builders parse_certs_iff parse_private_key_iff try_Inr_iff)
  show "TlsConfig_with_client_ca_pem T ca_pem c = Inr c2 \<longleftrightarrow>
      (\<exists>certs roots. tls_pem_certs T ca_pem = map Inr certs \<and> certs \<noteq> [] \<and> trusts T certs (tls_root_empty T) roots \<and>
         TlsConfig_connector c2 = Some (RootCertificates roots) \<and> TlsConfig_acceptor c2 = TlsConfig_acceptor c)"
    by (cases c2, cases c) (auto simp: tls_builders parse_certs_iff add_roots_iff try_Inr_iff)
qed (auto simp: tls_builders load_certs_iff load_private_key_iff try_Inr_iff try_Inl_iff dest!: tls_errors add_roots_error)

end
