(* ===== verification/Tests_Core.thy ===== *)
theory Tests_Core
  imports Message_Queue Client Handlers Tls_Config
begin

text \<open>
  The unit tests of \<open>src/error\<close>, \<open>src/core\<close>, \<open>src/integration\<close> and \<open>src/tls\<close>, run on the model. A test
  is the conjunction of its assertions. Buffers, semaphores and channels are the concrete
  instances of their contracts; an unwrapped error makes a test fail.
\<close>

definition ascii_bytes :: "string \<Rightarrow> u8 list" where
  "ascii_bytes s = map of_char s"

section \<open>Errors\<close>

definition error_test_creation :: bool where
  "error_test_creation \<longleftrightarrow>
     NetworkError_to_string (NetworkError_connection ''test'') = ''Connection error: test'' \<and>
     NetworkError_to_string (NetworkError_timeout ''operation'') = ''Operation timed out: operation'' \<and>
     NetworkError_to_string (MessageTooLarge 1000 512) = ''Message too large: 1000 bytes (max: 512 bytes)''"

theorem error_tests_pass: error_test_creation
  by code_simp

section \<open>Messages\<close>

definition message_test_creation :: bool where
  "message_test_creation \<longleftrightarrow>
     (let msg = Message_new (ascii_bytes ''Hello'') in Message_size msg = 5 \<and> \<not> Message_is_empty msg)"

definition message_test_encode_decode :: bool where
  "message_test_encode_decode \<longleftrightarrow>
     (let original = Message_new (ascii_bytes ''Test message'') in
      case Message_encode vec_bytes original of
        Inr encoded \<Rightarrow>
          (case Message_decode vec_bytes (bm_slice vec_bytes encoded) of
             (Inr (Some decoded), buf) \<Rightarrow> msg_data original = msg_data decoded
           | _ \<Rightarrow> False)
      | Inl _ \<Rightarrow> False)"

definition message_test_too_large :: bool where
  "message_test_too_large \<longleftrightarrow>
     (let large_data = replicate (MAX_MESSAGE_SIZE + 1) 0; msg = Message_new large_data
      in isl (Message_encode vec_bytes msg))"

record TestData =
  td_id :: u32
  td_name :: string

definition message_test_json ::
  "(TestData \<Rightarrow> string + u8 list) \<Rightarrow> (u8 list \<Rightarrow> string + TestData) \<Rightarrow> bool" where
  "message_test_json to_vec from_slice \<longleftrightarrow>
     (let data = \<lparr>td_id = 42, td_name = ''test''\<rparr> in
      case Message_from_json to_vec data of
        Inr msg \<Rightarrow>
          (case Message_to_json from_slice msg of
             Inr decoded \<Rightarrow> data = decoded
           | Inl _ \<Rightarrow> False)
      | Inl _ \<Rightarrow> False)"

definition message_test_partial_decode :: bool where
  "message_test_partial_decode \<longleftrightarrow>
     (let msg = Message_new (ascii_bytes ''Test'') in
      case Message_encode vec_bytes msg of
        Inr encoded \<Rightarrow> fst (Message_decode vec_bytes (take 2 (bm_slice vec_bytes encoded))) = Inr None
      | Inl _ \<Rightarrow> False)"

theorem message_tests_pass:
  message_test_creation message_test_encode_decode message_test_too_large message_test_partial_decode
  by (simp_all add: message_test_creation_def message_test_encode_decode_def message_test_too_large_def
      message_test_partial_decode_def Message_encode_def Message_decode_def Message_size_def Message_is_empty_def
      Message_new_def vec_bytes_def HEADER_SIZE_def MAX_MESSAGE_SIZE_def ascii_bytes_def Let_def)

text \<open>The JSON test passes for every serializer whose output the parser reads back.\<close>

theorem message_json_test_passes:
  assumes "\<And>v. \<exists>json. to_vec v = Inr json \<and> from_slice json = Inr v"
  shows "message_test_json to_vec from_slice"
  using assms [of "\<lparr>td_id = 42, td_name = ''test''\<rparr>"]
  by (auto simp: message_test_json_def Message_from_json_def Message_to_json_def Message_new_def)

section \<open>The message queue\<close>

type_synonym test_queue = "(nat, Message list \<times> nat) MessageQueue"

text \<open>A queue that must not panic, a call that must succeed at once, and a received message.\<close>

definition with_queue :: "test_queue run \<Rightarrow> (test_queue \<Rightarrow> bool) \<Rightarrow> bool" where
  "with_queue r body \<longleftrightarrow> (case r of Returned q \<Rightarrow> body q | Panicked _ \<Rightarrow> False)"

definition unwrap_unit :: "unit net_result option \<times> test_queue \<Rightarrow> (test_queue \<Rightarrow> bool) \<Rightarrow> bool" where
  "unwrap_unit r body \<longleftrightarrow> (case r of (Some (Inr _), q) \<Rightarrow> body q | _ \<Rightarrow> False)"

definition unwrap_message :: "Message option \<times> test_queue \<Rightarrow> (Message \<Rightarrow> test_queue \<Rightarrow> bool) \<Rightarrow> bool" where
  "unwrap_message r body \<longleftrightarrow> (case r of (Some m, q) \<Rightarrow> body m q | (None, q) \<Rightarrow> False)"

definition queue_test_basic :: bool where
  "queue_test_basic \<longleftrightarrow>
     with_queue (MessageQueue_with_default_config counter_semaphore list_channel) (\<lambda>q.
       unwrap_unit (MessageQueue_enqueue counter_semaphore list_channel (Message_new (ascii_bytes ''test'')) q) (\<lambda>q.
       unwrap_message (MessageQueue_dequeue counter_semaphore list_channel q) (\<lambda>received q.
         let stats = MessageQueue_stats q
         in msg_data received = ascii_bytes ''test'' \<and> stats_enqueued stats = 1 \<and> stats_dequeued stats = 1 \<and>
            stats_dropped stats = 0)))"

definition queue_test_backpressure :: bool where
  "queue_test_backpressure \<longleftrightarrow>
     with_queue (MessageQueue_new counter_semaphore list_channel
         (MessageQueueConfig_with_drop_on_full False (MessageQueueConfig_with_max_size 2 MessageQueueConfig_new))) (\<lambda>q.
       unwrap_unit (MessageQueue_enqueue counter_semaphore list_channel (Message_new (ascii_bytes ''msg1'')) q) (\<lambda>q.
       unwrap_unit (MessageQueue_enqueue counter_semaphore list_channel (Message_new (ascii_bytes ''msg2'')) q) (\<lambda>q.
         let full = MessageQueue_is_full counter_semaphore q;
             (result, q) = MessageQueue_try_enqueue counter_semaphore list_channel (Message_new (ascii_bytes ''msg3'')) q;
             stats = MessageQueue_stats q
         in full \<and> (\<exists>e. result = Some (Inl e)) \<and> stats_dropped stats = 1)))"

definition queue_test_drop_on_full :: bool where
  "queue_test_drop_on_full \<longleftrightarrow>
     with_queue (MessageQueue_new counter_semaphore list_channel
         (MessageQueueConfig_with_drop_on_full True (MessageQueueConfig_with_max_size 1 MessageQueueConfig_new))) (\<lambda>q.
       unwrap_unit (MessageQueue_enqueue counter_semaphore list_channel (Message_new (ascii_bytes ''msg1'')) q) (\<lambda>q.
         let (result, q) = MessageQueue_enqueue counter_semaphore list_channel (Message_new (ascii_bytes ''msg2'')) q;
             stats = MessageQueue_stats q
         in (\<exists>e. result = Some (Inl e)) \<and> stats_dropped stats = 1 \<and> stats_enqueued stats = 1))"

definition queue_test_try_dequeue :: bool where
  "queue_test_try_dequeue \<longleftrightarrow>
     with_queue (MessageQueue_with_default_config counter_semaphore list_channel) (\<lambda>q.
       let (r0, q) = MessageQueue_try_dequeue counter_semaphore list_channel True q in
       r0 = None \<and>
       unwrap_unit (MessageQueue_enqueue counter_semaphore list_channel (Message_new (ascii_bytes ''test'')) q) (\<lambda>q.
       unwrap_message (MessageQueue_try_dequeue counter_semaphore list_channel True q) (\<lambda>msg q.
         msg_data msg = ascii_bytes ''test'' \<and> MessageQueue_is_empty q)))"

lemmas queue_eval =
  MessageQueue_with_default_config_def MessageQueue_new_def MessageQueueConfig_defs mq_defs MessageQueue_stats_def
  MessageQueue_is_full_def MessageQueue_is_empty_def with_queue_def unwrap_unit_def unwrap_message_def
  counter_semaphore_def list_channel_def

theorem queue_tests_pass:
  queue_test_basic queue_test_backpressure queue_test_drop_on_full queue_test_try_dequeue
  by (simp_all add: queue_test_basic_def queue_test_backpressure_def queue_test_drop_on_full_def queue_test_try_dequeue_def
      queue_eval Message_new_def cong: let_weak_cong)

section \<open>Processors\<close>

definition processor_test_identity :: bool where
  "processor_test_identity \<longleftrightarrow>
     (let msg = Message_new (ascii_bytes ''test'') in
      case IdentityProcessor_process msg of Inr result \<Rightarrow> msg_data msg = msg_data result | Inl _ \<Rightarrow> False)"

definition processor_test_encryption_roundtrip :: bool where
  "processor_test_encryption_roundtrip \<longleftrightarrow>
     (let key = ascii_bytes ''secret_key_12345'';
          encrypt = EncryptionProcessor_new key;
          decrypt = EncryptionProcessor_new key;
          original = Message_new (ascii_bytes ''Hello, World!'')
      in case EncryptionProcessor_process encrypt original of
           Inr encrypted \<Rightarrow>
             (case EncryptionProcessor_process decrypt encrypted of
                Inr decrypted \<Rightarrow> msg_data original = msg_data decrypted
              | Inl _ \<Rightarrow> False)
         | Inl _ \<Rightarrow> False)"

definition processor_test_pipeline :: bool where
  "processor_test_pipeline \<longleftrightarrow>
     (let key = ascii_bytes ''test_key'';
          pipeline = ProcessorPipeline_add IdentityProcessor_process
            (ProcessorPipeline_add (EncryptionProcessor_process (EncryptionProcessor_new key)) ProcessorPipeline_new);
          msg = Message_new (ascii_bytes ''test data'')
      in case ProcessorPipeline_process pipeline msg of
           Inr result \<Rightarrow> msg_data result \<noteq> ascii_bytes ''test data''
         | Inl _ \<Rightarrow> False)"

theorem processor_tests_pass:
  processor_test_identity processor_test_encryption_roundtrip processor_test_pipeline
  by (simp_all add: processor_test_identity_def processor_test_encryption_roundtrip_def processor_test_pipeline_def
      IdentityProcessor_process_def EncryptionProcessor_process_def EncryptionProcessor_new_def ProcessorPipeline_add_def
      ProcessorPipeline_new_def ProcessorPipeline_process_def Message_new_def ascii_bytes_def)

section \<open>Client, server, handlers and TLS\<close>

definition client_test_config :: bool where
  "client_test_config \<longleftrightarrow>
     (let config = ClientConfig_with_auto_reconnect False (ClientConfig_with_read_timeout (from_secs 10)
            (ClientConfig_with_connect_timeout (from_secs 5) ClientConfig_new))
      in connect_timeout config = from_secs 5 \<and> cl_read_timeout config = from_secs 10 \<and> \<not> auto_reconnect config)"

definition client_test_creation :: bool where
  "client_test_creation \<longleftrightarrow>
     (let client = (TcpClient_new ''127.0.0.1:8080'' :: unit TcpClient)
      in \<not> TcpClient_is_connected client \<and> cl_address client = ''127.0.0.1:8080'')"

definition server_test_config :: bool where
  "server_test_config \<longleftrightarrow>
     (let config = ServerConfig_with_read_timeout (from_secs 60)
            (ServerConfig_with_max_connections 500 (ServerConfig_new ''0.0.0.0:9000''))
      in bind_address config = ''0.0.0.0:9000'' \<and> max_connections config = 500 \<and> sv_read_timeout config = from_secs 60)"

definition server_test_creation :: bool where
  "server_test_creation \<longleftrightarrow>
     (let server = (TcpServer_new counter_semaphore ''127.0.0.1:8080'' :: (nat, unit, unit, u8 list) TcpServer)
      in \<not> TcpServer_is_running server \<and> TcpServer_connection_count server = 0)"

definition monitored_test_server_creation :: "('c, 'g) metric_ops \<Rightarrow> bool" where
  "monitored_test_server_creation M \<longleftrightarrow>
     (let config = ServerConfig_new ''127.0.0.1:8080'';
          server = (MonitoredServer_new counter_semaphore M config :: (nat, unit, unit, u8 list, 'c, 'g) MonitoredServer)
      in \<not> MonitoredServer_is_running server \<and> MonitoredServer_connection_count server = 0)"

definition logging_test_handler_creation :: bool where
  "logging_test_handler_creation \<longleftrightarrow>
     (let handler = (LoggingSessionHandler_new :: (unit, unit, u8 list, unit) LoggingSessionHandler)
      in lh_inner handler = None)"

definition tls_test_config_creation :: bool where
  "tls_test_config_creation \<longleftrightarrow>
     (let config = (TlsConfig_new :: (unit, unit) TlsConfig)
      in \<not> TlsConfig_has_server_config config \<and> \<not> TlsConfig_has_client_config config)"

definition tls_test_insecure_client_config :: bool where
  "tls_test_insecure_client_config \<longleftrightarrow>
     (let config = TlsConfig_with_client_insecure (TlsConfig_new :: (unit, unit) TlsConfig)
      in TlsConfig_has_client_config config \<and> TlsConfig_connector config \<noteq> None)"

theorem configuration_tests_pass:
  client_test_config client_test_creation server_test_config server_test_creation logging_test_handler_creation
  "monitored_test_server_creation M" tls_test_config_creation tls_test_insecure_client_config
  by (simp_all add: client_test_config_def client_test_creation_def server_test_config_def server_test_creation_def
      logging_test_handler_creation_def tls_test_config_creation_def tls_test_insecure_client_config_def config_defs
      TcpClient_new_def TcpClient_with_config_def TcpClient_is_connected_def TcpServer_new_def TcpServer_with_config_def
      TcpServer_is_running_def TcpServer_connection_count_def LoggingSessionHandler_new_def monitored_test_server_creation_def
      MonitoredServer_new_def MonitoredServer_is_running_def MonitoredServer_connection_count_def TlsConfig_new_def
      TlsConfig_has_server_config_def TlsConfig_has_client_config_def TlsConfig_with_client_insecure_def
      TlsConfig_connector_def)

end
