(* ===== verification/Tests_Pooling.thy ===== *)
theory Tests_Pooling
  imports Load_Balancer Connection_Pool Cache
begin

text \<open>
  The unit tests of \<open>src/pooling\<close>, run on the model. A test is the conjunction of its
  assertions; what it does not fix (clock readings, the random generator, the key that a
  hash map yields first, the state of a static counter) is an argument, and the lemma that
  the test passes says for which arguments it does. A reading \<open>clock i\<close> is the one made by the
  \<open>i\<close>-th operation of the test.
\<close>

type_synonym i32 = "32 word"

section \<open>The load balancer\<close>

text \<open>The address behind the guard that \<open>unwrap\<close> yields; \<open>None\<close> when it panics.\<close>

definition unwrap_address :: "BackendGuard option run \<Rightarrow> string option" where
  "unwrap_address r = (case r of Returned (Some g) \<Rightarrow> Some (BackendGuard_address g) | _ \<Rightarrow> None)"

definition lb_test_backend_creation :: bool where
  "lb_test_backend_creation \<longleftrightarrow>
     (let b = Backend_new ''localhost:8080''; weighted = Backend_with_weight ''localhost:8081'' 5
      in address b = ''localhost:8080'' \<and> weight b = 1 \<and> weight weighted = 5)"

definition lb_test_round_robin :: "bool \<Rightarrow> (nat \<Rightarrow> nat) \<Rightarrow> instant \<Rightarrow> bool" where
  "lb_test_round_robin checks gen_range now \<longleftrightarrow>
     (let bal = LoadBalancer_round_robin now
            [Backend_new ''server1:8080'', Backend_new ''server2:8080'', Backend_new ''server3:8080''];
          (b1, bal) = LoadBalancer_select checks gen_range bal;
          (b2, bal) = LoadBalancer_select checks gen_range bal;
          (b3, bal) = LoadBalancer_select checks gen_range bal;
          (b4, bal) = LoadBalancer_select checks gen_range bal
      in unwrap_address b1 = Some ''server1:8080'' \<and> unwrap_address b2 = Some ''server2:8080'' \<and>
         unwrap_address b3 = Some ''server3:8080'' \<and> unwrap_address b4 = Some ''server1:8080'')"

definition lb_test_least_connections :: "bool \<Rightarrow> (nat \<Rightarrow> nat) \<Rightarrow> instant \<Rightarrow> bool" where
  "lb_test_least_connections checks gen_range now \<longleftrightarrow>
     (let bal = LoadBalancer_new now (LoadBalancerConfig_new LeastConnections)
            [Backend_new ''server1:8080'', Backend_new ''server2:8080''];
          (g1, bal) = LoadBalancer_select checks gen_range bal;
          (g2, bal) = LoadBalancer_select checks gen_range bal
      in unwrap_address g1 \<noteq> None \<and> unwrap_address g2 = Some ''server2:8080'')"

definition lb_test_health_filtering :: "bool \<Rightarrow> (nat \<Rightarrow> nat) \<Rightarrow> (nat \<Rightarrow> instant) \<Rightarrow> bool" where
  "lb_test_health_filtering checks gen_range clock \<longleftrightarrow>
     (let bal = LoadBalancer_round_robin (clock 0) [Backend_new ''server1:8080'', Backend_new ''server2:8080''];
          bal = LoadBalancer_set_backend_health (clock 1) ''server1:8080'' False bal;
          (b1, bal) = LoadBalancer_select checks gen_range bal;
          (b2, bal) = LoadBalancer_select checks gen_range bal
      in unwrap_address b1 = Some ''server2:8080'' \<and> unwrap_address b2 = Some ''server2:8080'')"

definition lb_test_add_remove_backend :: "(nat \<Rightarrow> instant) \<Rightarrow> bool" where
  "lb_test_add_remove_backend clock \<longleftrightarrow>
     (let bal0 = LoadBalancer_round_robin (clock 0) [Backend_new ''server1:8080''];
          bal1 = LoadBalancer_add_backend (clock 1) (Backend_new ''server2:8080'') bal0;
          bal2 = LoadBalancer_remove_backend ''server1:8080'' bal1
      in LoadBalancer_backend_count bal0 = 1 \<and> LoadBalancer_backend_count bal1 = 2 \<and>
         LoadBalancer_backend_count bal2 = 1)"

text \<open>Statements between a selection that must succeed and the end of the test.\<close>

definition with_guard :: "BackendGuard option run \<times> LoadBalancer \<Rightarrow> (BackendGuard \<Rightarrow> LoadBalancer \<Rightarrow> bool) \<Rightarrow> bool" where
  "with_guard r body \<longleftrightarrow> (case r of (Returned (Some g), bal) \<Rightarrow> body g bal | _ \<Rightarrow> False)"

definition lb_test_backend_guard :: "bool \<Rightarrow> (nat \<Rightarrow> nat) \<Rightarrow> instant \<Rightarrow> bool" where
  "lb_test_backend_guard checks gen_range now \<longleftrightarrow>
     (let bal = LoadBalancer_round_robin now [Backend_new ''server1:8080'']
      in with_guard (LoadBalancer_select checks gen_range bal) (\<lambda>guard bal.
        let bal = BackendGuard_drop guard (BackendGuard_record_success guard bal);
            statuses = LoadBalancer_health_statuses bal
        in hs_total_requests (snd (statuses ! 0)) = 1 \<and> hs_failed_requests (snd (statuses ! 0)) = 0))"

definition lb_test_error_tracking :: "bool \<Rightarrow> (nat \<Rightarrow> nat) \<Rightarrow> instant \<Rightarrow> bool" where
  "lb_test_error_tracking checks gen_range now \<longleftrightarrow>
     (let bal = LoadBalancer_round_robin now [Backend_new ''server1:8080'']
      in with_guard (LoadBalancer_select checks gen_range bal) (\<lambda>guard bal.
        let bal = BackendGuard_record_failure guard (BackendGuard_record_failure guard bal);
            statuses = LoadBalancer_health_statuses bal
        in hs_total_requests (snd (statuses ! 0)) = 2 \<and> hs_failed_requests (snd (statuses ! 0)) = 2 \<and>
           HealthStatus_error_rate (snd (statuses ! 0)) = Fin 1))"

definition lb_test_healthy_backend_count :: "(nat \<Rightarrow> instant) \<Rightarrow> bool" where
  "lb_test_healthy_backend_count clock \<longleftrightarrow>
     (let bal0 = LoadBalancer_round_robin (clock 0)
            [Backend_new ''server1:8080'', Backend_new ''server2:8080'', Backend_new ''server3:8080''];
          bal1 = LoadBalancer_set_backend_health (clock 1) ''server1:8080'' False bal0;
          bal2 = LoadBalancer_set_backend_health (clock 2) ''server2:8080'' False bal1
      in LoadBalancer_healthy_backend_count bal0 = 3 \<and> LoadBalancer_healthy_backend_count bal1 = 2 \<and>
         LoadBalancer_healthy_backend_count bal2 = 1)"

lemmas lb_eval =
  LoadBalancer_round_robin_def LoadBalancer_new_def LoadBalancerConfig_defs LoadBalancer_select_def
  LoadBalancer_choose_def LoadBalancer_select_round_robin_def LoadBalancer_select_least_connections_def
  LoadBalancer_set_backend_health_def LoadBalancer_add_backend_def LoadBalancer_remove_backend_def
  LoadBalancer_backend_count_def LoadBalancer_healthy_backend_count_def LoadBalancer_health_statuses_def
  healthy_backends_def connect_backend_def BackendGuard_address_def BackendGuard_drop_def
  BackendGuard_record_success_def BackendGuard_record_failure_def BackendState_record_request_def
  BackendState_new_def BackendState_is_healthy_def BackendState_mark_unhealthy_def BackendState_get_status_def
  Backend_new_def Backend_with_weight_def modify_def deref_def slice_get_def unwrap_address_def with_guard_def
  upt_rec_numeral upt_rec

text \<open>All tests of the load balancer pass, for all readings and draws.\<close>

theorem load_balancer_tests_pass:
  "lb_test_backend_creation" "lb_test_round_robin checks gen_range now" "lb_test_least_connections checks gen_range now"
  "lb_test_health_filtering checks gen_range clock" "lb_test_add_remove_backend clock"
  "lb_test_backend_guard checks gen_range now" "lb_test_healthy_backend_count clock"
  by (simp_all add: lb_test_backend_creation_def lb_test_round_robin_def lb_test_least_connections_def
      lb_test_health_filtering_def lb_test_add_remove_backend_def lb_test_backend_guard_def
      lb_test_healthy_backend_count_def lb_eval)

theorem load_balancer_error_tracking_passes: "lb_test_error_tracking checks gen_range now"
  by (simp add: lb_test_error_tracking_def HealthStatus_error_rate_def f64_of_nat_exact f64_round_1 lb_eval)

section \<open>The cache\<close>

text \<open>The maps of the tests have strings as keys and 32-bit numbers as values.\<close>

type_synonym test_cache = "(string, i32) Cache"

definition cache_test_insert_get :: "(string list \<Rightarrow> string option) \<Rightarrow> (nat \<Rightarrow> instant) \<Rightarrow> bool" where
  "cache_test_insert_get next_key clock \<longleftrightarrow>
     (let c = (Cache_with_default_config :: test_cache);
          c = Cache_insert next_key (clock 0) ''key1'' 42 c;
          (r1, c) = Cache_get (clock 1) ''key1'' c;
          (r2, c) = Cache_get (clock 2) ''key2'' c
      in r1 = Some 42 \<and> r2 = None)"

definition cache_test_capacity :: "(string list \<Rightarrow> string option) \<Rightarrow> (nat \<Rightarrow> instant) \<Rightarrow> bool" where
  "cache_test_capacity next_key clock \<longleftrightarrow>
     (let c = (Cache_new (CacheConfig_with_capacity 2 CacheConfig_new) :: test_cache);
          c = Cache_insert next_key (clock 0) ''key1'' 1 c;
          c = Cache_insert next_key (clock 1) ''key2'' 2 c;
          c = Cache_insert next_key (clock 2) ''key3'' 3 c;
          (r1, c) = Cache_get (clock 3) ''key1'' c;
          (r2, c) = Cache_get (clock 4) ''key2'' c;
          (r3, c) = Cache_get (clock 5) ''key3'' c
      in r1 = None \<and> r2 = Some 2 \<and> r3 = Some 3)"

definition cache_test_lru_order :: "(string list \<Rightarrow> string option) \<Rightarrow> (nat \<Rightarrow> instant) \<Rightarrow> bool" where
  "cache_test_lru_order next_key clock \<longleftrightarrow>
     (let c = (Cache_new (CacheConfig_with_capacity 2 CacheConfig_new) :: test_cache);
          c = Cache_insert next_key (clock 0) ''key1'' 1 c;
          c = Cache_insert next_key (clock 1) ''key2'' 2 c;
          (_, c) = Cache_get (clock 2) ''key1'' c;
          c = Cache_insert next_key (clock 3) ''key3'' 3 c;
          (r1, c) = Cache_get (clock 4) ''key1'' c;
          (r2, c) = Cache_get (clock 5) ''key2'' c;
          (r3, c) = Cache_get (clock 6) ''key3'' c
      in r1 = Some 1 \<and> r2 = None \<and> r3 = Some 3)"

definition cache_test_ttl_expiration :: "(string list \<Rightarrow> string option) \<Rightarrow> (nat \<Rightarrow> instant) \<Rightarrow> bool" where
  "cache_test_ttl_expiration next_key clock \<longleftrightarrow>
     (let c = (Cache_new (CacheConfig_with_ttl (Some (from_millis 50)) CacheConfig_new) :: test_cache);
          c = Cache_insert next_key (clock 0) ''key1'' 42 c;
          (r1, c) = Cache_get (clock 1) ''key1'' c;
          (r2, c) = Cache_get (clock 2) ''key1'' c
      in r1 = Some 42 \<and> r2 = None)"

definition cache_test_prune_expired :: "(string list \<Rightarrow> string option) \<Rightarrow> (nat \<Rightarrow> instant) \<Rightarrow> bool" where
  "cache_test_prune_expired next_key clock \<longleftrightarrow>
     (let c = (Cache_new (CacheConfig_with_ttl (Some (from_millis 50)) CacheConfig_new) :: test_cache);
          c = Cache_insert next_key (clock 0) ''key1'' 1 c;
          c = Cache_insert next_key (clock 1) ''key2'' 2 c;
          (pruned, c) = Cache_prune_expired (clock 2) c
      in pruned = 2 \<and> stats_size (Cache_stats c) = 0)"

definition cache_test_get_or_insert_with :: "(string list \<Rightarrow> string option) \<Rightarrow> (nat \<Rightarrow> instant) \<Rightarrow> bool" where
  "cache_test_get_or_insert_with next_key clock \<longleftrightarrow>
     (let c = (Cache_with_default_config :: test_cache);
          (value1, c) = Cache_get_or_insert_with next_key (clock 0) id (clock 1) ''key1'' (\<lambda>_. 42) c;
          (value2, c) = Cache_get_or_insert_with next_key (clock 2) id (clock 3) ''key1'' (\<lambda>_. 100) c
      in value1 = 42 \<and> value2 = 42)"

definition cache_test_stats :: "(string list \<Rightarrow> string option) \<Rightarrow> (nat \<Rightarrow> instant) \<Rightarrow> bool" where
  "cache_test_stats next_key clock \<longleftrightarrow>
     (let c = (Cache_with_default_config :: test_cache);
          c = Cache_insert next_key (clock 0) ''key1'' 1 c;
          c = Cache_insert next_key (clock 1) ''key2'' 2 c;
          (_, c) = Cache_get (clock 2) ''key1'' c;
          (_, c) = Cache_get (clock 3) ''key1'' c;
          (_, c) = Cache_get (clock 4) ''key2'' c;
          stats = Cache_stats c
      in stats_size stats = 2 \<and> total_accesses stats = 3)"

definition cache_test_tiered :: "(string list \<Rightarrow> string option) \<Rightarrow> (nat \<Rightarrow> instant) \<Rightarrow> bool" where
  "cache_test_tiered next_key clock \<longleftrightarrow>
     (let c = (TieredCache_new 10 (Some (from_secs 60)) :: (string, i32) TieredCache);
          c = TieredCache_insert next_key (clock 0) ''key1'' 42 c;
          (r1, c) = TieredCache_get (clock 1) ''key1'' c
      in r1 = Some 42 \<and> stats_size (TieredCache_stats c) = 1)"

definition cache_test_remove :: "(string list \<Rightarrow> string option) \<Rightarrow> (nat \<Rightarrow> instant) \<Rightarrow> bool" where
  "cache_test_remove next_key clock \<longleftrightarrow>
     (let c = (Cache_with_default_config :: test_cache);
          c = Cache_insert next_key (clock 0) ''key1'' 42 c;
          (r1, c) = Cache_get (clock 1) ''key1'' c;
          (removed, c) = Cache_remove ''key1'' c;
          (r2, c) = Cache_get (clock 2) ''key1'' c
      in r1 = Some 42 \<and> removed = Some 42 \<and> r2 = None)"

definition cache_test_clear :: "(string list \<Rightarrow> string option) \<Rightarrow> (nat \<Rightarrow> instant) \<Rightarrow> bool" where
  "cache_test_clear next_key clock \<longleftrightarrow>
     (let c = (Cache_with_default_config :: test_cache);
          c = Cache_insert next_key (clock 0) ''key1'' 1 c;
          c = Cache_insert next_key (clock 1) ''key2'' 2 c;
          c = Cache_clear c
      in stats_size (Cache_stats c) = 0)"

lemmas cache_eval =
  Cache_with_default_config_def Cache_new_def CacheConfig_defs cache_defs Cache_get_or_insert_with_def
  Cache_stats_def TieredCache_new_def TieredCache_insert_def TieredCache_get_def TieredCache_stats_def
  entry_defs elapsed_def

text \<open>Any two clock readings of a test are at most a minute apart.\<close>

definition within_minute :: "(nat \<Rightarrow> instant) \<Rightarrow> bool" where
  "within_minute clock \<longleftrightarrow> (\<forall>i j. clock i - clock j \<le> from_secs 60)"

lemma within_minute_fresh:
  assumes "within_minute clock"
  shows "from_secs 300 < clock i - clock j \<longleftrightarrow> False" "from_secs 60 < clock i - clock j \<longleftrightarrow> False"
    "from_secs 600 < clock i - clock j \<longleftrightarrow> False" "from_secs 3600 < clock i - clock j \<longleftrightarrow> False"
proof -
  have "clock i - clock j \<le> from_secs 60" using assms by (simp add: within_minute_def)
  then show "from_secs 300 < clock i - clock j \<longleftrightarrow> False" "from_secs 60 < clock i - clock j \<longleftrightarrow> False"
    "from_secs 600 < clock i - clock j \<longleftrightarrow> False" "from_secs 3600 < clock i - clock j \<longleftrightarrow> False"
    by (simp_all add: from_secs_def)
qed

lemma cache_test_insert_get_passes: "within_minute clock \<Longrightarrow> cache_test_insert_get next_key clock"
  by (simp add: cache_test_insert_get_def cache_eval within_minute_fresh cong: let_weak_cong)

lemma cache_test_capacity_passes: "within_minute clock \<Longrightarrow> cache_test_capacity next_key clock"
  by (simp add: cache_test_capacity_def cache_eval within_minute_fresh cong: let_weak_cong)

lemma cache_test_lru_order_passes: "within_minute clock \<Longrightarrow> cache_test_lru_order next_key clock"
  by (simp add: cache_test_lru_order_def cache_eval within_minute_fresh cong: let_weak_cong)

lemma cache_test_get_or_insert_with_passes: "within_minute clock \<Longrightarrow> cache_test_get_or_insert_with next_key clock"
  by (simp add: cache_test_get_or_insert_with_def cache_eval within_minute_fresh cong: let_weak_cong)

lemma cache_test_stats_passes: "within_minute clock \<Longrightarrow> cache_test_stats next_key clock"
  by (simp add: cache_test_stats_def cache_eval within_minute_fresh cong: let_weak_cong)

lemma cache_test_tiered_passes: "within_minute clock \<Longrightarrow> cache_test_tiered next_key clock"
  by (simp add: cache_test_tiered_def cache_eval within_minute_fresh cong: let_weak_cong)

lemma cache_test_remove_passes: "within_minute clock \<Longrightarrow> cache_test_remove next_key clock"
  by (simp add: cache_test_remove_def cache_eval within_minute_fresh cong: let_weak_cong)

lemma cache_test_clear_passes: "within_minute clock \<Longrightarrow> cache_test_clear next_key clock"
  by (simp add: cache_test_clear_def cache_eval within_minute_fresh cong: let_weak_cong)

text \<open>
  The test of expiry passes when the first two readings are within the time to live and the
  sleep separates the third from them. The test of pruning needs only the sleep.
\<close>

theorem cache_sleeping_tests_pass:
  assumes "clock 0 \<le> clock 1" "clock 1 + from_millis 100 \<le> clock 2"
  shows "cache_test_prune_expired next_key clock"
    and "clock 1 - clock 0 \<le> from_millis 50 \<Longrightarrow> cache_test_ttl_expiration next_key clock"
  using assms
  by (auto simp: cache_test_prune_expired_def cache_test_ttl_expiration_def cache_eval from_millis_def not_less)

section \<open>The connection pool\<close>

record MockConnection =
  mock_id :: u32
  fail_validation :: bool

datatype MockError = MockError

definition MockError_to_string :: "MockError \<Rightarrow> string" where
  "MockError_to_string e = ''Mock error''"

text \<open>The static counter \<open>NEXT_ID\<close>, shared by all tests, is given and returned by \<open>create\<close>.\<close>

definition MockConnection_create :: "u32 \<Rightarrow> (MockError + MockConnection) \<times> u32" where
  "MockConnection_create next_id = (Inr \<lparr>mock_id = next_id, fail_validation = False\<rparr>, next_id + 1)"

definition MockConnection_is_valid :: "MockConnection \<Rightarrow> bool" where
  "MockConnection_is_valid conn \<longleftrightarrow> \<not> fail_validation conn"

definition MockConnection_close :: "MockConnection \<Rightarrow> MockError + unit" where
  "MockConnection_close conn = Inr ()"

type_synonym mock_pool = "(nat, MockConnection) ConnectionPool"

definition mock_acquire ::
  "instant \<Rightarrow> u32 \<Rightarrow> mock_pool \<Rightarrow> (MockError PoolError + MockConnection) \<times> mock_pool" where
  "mock_acquire now next_id p =
     (let (r, closed, p) =
        ConnectionPool_acquire counter_semaphore now MockConnection_is_valid (fst (MockConnection_create next_id)) p
      in (r, p))"

definition pool_test_creation :: bool where
  "pool_test_creation \<longleftrightarrow>
     (let p = (ConnectionPool_new counter_semaphore (PoolConfig_with_max_size 5 PoolConfig_new) :: mock_pool);
          stats = ConnectionPool_stats p
      in stats_available stats = 0 \<and> stats_total stats = 0 \<and> stats_max_size stats = 5)"

definition pool_test_acquire_connection :: "instant \<Rightarrow> u32 \<Rightarrow> bool" where
  "pool_test_acquire_connection now next_id \<longleftrightarrow>
     (let p = (ConnectionPool_with_default_config counter_semaphore :: mock_pool);
          (conn, p) = mock_acquire now next_id p;
          stats = ConnectionPool_stats p
      in (case conn of Inr conn \<Rightarrow> mock_id conn \<ge> 1 | Inl _ \<Rightarrow> False) \<and> stats_total stats = 1)"

definition pool_test_connection_reuse :: "(nat \<Rightarrow> instant) \<Rightarrow> (nat \<Rightarrow> u32) \<Rightarrow> bool" where
  "pool_test_connection_reuse clock next_id \<longleftrightarrow>
     (let p = (ConnectionPool_with_default_config counter_semaphore :: mock_pool) in
      case mock_acquire (clock 0) (next_id 0) p of
        (Inr conn, p) \<Rightarrow>
          let conn1_id = mock_id conn;
              p = PooledGuard_drop counter_semaphore (clock 1) conn p;
              stats = ConnectionPool_stats p;
              (conn2, p) = mock_acquire (clock 2) (next_id 1) p
          in stats_available stats = 1 \<and>
             (case conn2 of Inr conn2 \<Rightarrow> mock_id conn2 = conn1_id | Inl _ \<Rightarrow> False)
      | (Inl _, p) \<Rightarrow> False)"

definition pool_test_max_connections :: "(nat \<Rightarrow> instant) \<Rightarrow> (nat \<Rightarrow> u32) \<Rightarrow> bool" where
  "pool_test_max_connections clock next_id \<longleftrightarrow>
     (let p = (ConnectionPool_new counter_semaphore (PoolConfig_with_max_size 2 PoolConfig_new) :: mock_pool);
          (conn1, p) = mock_acquire (clock 0) (next_id 0) p;
          (conn2, p) = mock_acquire (clock 1) (next_id 1) p;
          stats = ConnectionPool_stats p;
          config = PoolConfig_with_acquire_timeout (from_millis 100) (PoolConfig_with_max_size 2 PoolConfig_new);
          p = (ConnectionPool_new counter_semaphore config :: mock_pool);
          (c1, p) = mock_acquire (clock 2) (next_id 2) p;
          (c2, p) = mock_acquire (clock 3) (next_id 3) p;
          (result, p) = mock_acquire (clock 4) (next_id 4) p
      in \<not> isl conn1 \<and> \<not> isl conn2 \<and> stats_total stats = 2 \<and> \<not> isl c1 \<and> \<not> isl c2 \<and> result = Inl Timeout)"

lemmas pool_eval =
  ConnectionPool_with_default_config_def ConnectionPool_new_def PoolConfig_defs ConnectionPool_stats_def
  mock_acquire_def ConnectionPool_acquire_def ConnectionPool_permit_def ConnectionPool_take_def remove_expired_eq
  ConnectionPool_create_connection_def MockConnection_create_def MockConnection_is_valid_def counter_semaphore_def
  PooledGuard_drop_def PooledGuard_return_def release_permit_def PooledConnection_new_def PooledConnection_touch_def
  PooledConnection_is_expired_def elapsed_def

text \<open>
  The tests of the pool but the one that runs ten tasks at once pass; reuse of a connection
  needs that the test does not outlive the idle timeout of ten minutes, and that the counter
  has not wrapped around.
\<close>

theorem pool_tests_pass:
  "pool_test_creation" "next_id \<noteq> 0 \<Longrightarrow> pool_test_acquire_connection now next_id"
  "pool_test_max_connections clock ids"
  by (simp_all add: pool_test_creation_def pool_test_acquire_connection_def pool_test_max_connections_def pool_eval
      word_le_nat_alt unat_gt_0 Suc_le_eq cong: let_weak_cong)

theorem pool_connection_reuse_passes: "within_minute clock \<Longrightarrow> pool_test_connection_reuse clock ids"
  by (simp add: pool_test_connection_reuse_def pool_eval within_minute_fresh cong: let_weak_cong)

end
