(* ===== verification/Tests_Stability.thy ===== *)
theory Tests_Stability
  imports Circuit_Breaker Rate_Limiter Graceful_Shutdown Tracing
begin

text \<open>
  The unit tests of \<open>src/stability\<close> and \<open>src/tracing\<close>, run on the model. A test is the
  conjunction of its assertions; the clock readings are its argument (\<open>clock i\<close> is the one made
  by the \<open>i\<close>-th operation that reads the clock), and the lemma that the test passes says for
  which readings it does.
\<close>

type_synonym i32 = "32 word"

section \<open>The circuit breaker\<close>

definition cb_test_initial_state :: "instant \<Rightarrow> bool" where
  "cb_test_initial_state now \<longleftrightarrow>
     (let cb = CircuitBreaker_new
      in CircuitBreaker_state cb = Closed \<and> fst (CircuitBreaker_is_request_allowed now cb))"

definition cb_test_open_on_failures :: "(nat \<Rightarrow> instant) \<Rightarrow> bool" where
  "cb_test_open_on_failures clock \<longleftrightarrow>
     (let cb = CircuitBreaker_with_config (CircuitBreakerConfig_with_failure_threshold 3 CircuitBreakerConfig_new);
          cb = fold (\<lambda>i. CircuitBreaker_record_failure (clock i)) [0, 1, 2] cb
      in CircuitBreaker_state cb = Open \<and> \<not> fst (CircuitBreaker_is_request_allowed (clock 3) cb))"

definition cb_test_half_open_after_timeout :: "(nat \<Rightarrow> instant) \<Rightarrow> bool" where
  "cb_test_half_open_after_timeout clock \<longleftrightarrow>
     (let cb = CircuitBreaker_with_config (CircuitBreakerConfig_with_timeout (from_millis 100)
            (CircuitBreakerConfig_with_failure_threshold 2 CircuitBreakerConfig_new));
          cb = CircuitBreaker_record_failure (clock 0) cb;
          cb = CircuitBreaker_record_failure (clock 1) cb;
          (allowed, cb') = CircuitBreaker_is_request_allowed (clock 2) cb
      in CircuitBreaker_state cb = Open \<and> allowed \<and> CircuitBreaker_state cb' = HalfOpen)"

definition cb_test_close_from_half_open :: "(nat \<Rightarrow> instant) \<Rightarrow> bool" where
  "cb_test_close_from_half_open clock \<longleftrightarrow>
     (let cb = CircuitBreaker_with_config (CircuitBreakerConfig_with_timeout (from_millis 100)
            (CircuitBreakerConfig_with_success_threshold 2
              (CircuitBreakerConfig_with_failure_threshold 2 CircuitBreakerConfig_new)));
          cb = CircuitBreaker_record_failure (clock 0) cb;
          cb = CircuitBreaker_record_failure (clock 1) cb;
          (_, cb) = CircuitBreaker_is_request_allowed (clock 2) cb;
          cb = CircuitBreaker_record_success cb;
          cb = CircuitBreaker_record_success cb
      in CircuitBreaker_state cb = Closed)"

definition cb_test_reopen_on_half_open_failure :: "(nat \<Rightarrow> instant) \<Rightarrow> bool" where
  "cb_test_reopen_on_half_open_failure clock \<longleftrightarrow>
     (let cb = CircuitBreaker_with_config (CircuitBreakerConfig_with_timeout (from_millis 100)
            (CircuitBreakerConfig_with_failure_threshold 2 CircuitBreakerConfig_new));
          cb = CircuitBreaker_record_failure (clock 0) cb;
          cb = CircuitBreaker_record_failure (clock 1) cb;
          (_, cb) = CircuitBreaker_is_request_allowed (clock 2) cb;
          cb' = CircuitBreaker_record_failure (clock 3) cb
      in CircuitBreaker_state cb = HalfOpen \<and> CircuitBreaker_state cb' = Open)"

definition cb_test_window_reset :: "(nat \<Rightarrow> instant) \<Rightarrow> bool" where
  "cb_test_window_reset clock \<longleftrightarrow>
     (let cb = CircuitBreaker_with_config (CircuitBreakerConfig_with_window_size (from_millis 100)
            (CircuitBreakerConfig_with_failure_threshold 3 CircuitBreakerConfig_new));
          cb = CircuitBreaker_record_failure (clock 0) cb;
          cb = CircuitBreaker_record_failure (clock 1) cb;
          cb = CircuitBreaker_record_failure (clock 2) cb
      in CircuitBreaker_state cb = Closed)"

definition cb_test_call_success :: "(nat \<Rightarrow> instant) \<Rightarrow> bool" where
  "cb_test_call_success clock \<longleftrightarrow>
     (let cb = CircuitBreaker_new;
          (result, cb) = CircuitBreaker_call (clock 0) id (Inr 42 :: string + i32) (clock 1) cb
      in result = Inr 42)"

definition cb_test_call_failure :: "(nat \<Rightarrow> instant) \<Rightarrow> bool" where
  "cb_test_call_failure clock \<longleftrightarrow>
     (let cb = CircuitBreaker_with_config (CircuitBreakerConfig_with_failure_threshold 1 CircuitBreakerConfig_new);
          (result, cb) = CircuitBreaker_call (clock 0) id (Inl ''error'' :: string + i32) (clock 1) cb
      in isl result \<and> CircuitBreaker_state cb = Open)"

definition cb_test_call_circuit_open :: "(nat \<Rightarrow> instant) \<Rightarrow> bool" where
  "cb_test_call_circuit_open clock \<longleftrightarrow>
     (let cb = CircuitBreaker_with_config (CircuitBreakerConfig_with_failure_threshold 1 CircuitBreakerConfig_new);
          cb = CircuitBreaker_record_failure (clock 0) cb;
          (result, cb) = CircuitBreaker_call (clock 1) id (Inr 42 :: string + i32) (clock 2) cb
      in result = Inl CircuitOpen)"

text \<open>The calls on an explicit state, for evaluation.\<close>

abbreviation breaker_state ::
  "CircuitBreakerConfig \<Rightarrow> CircuitState \<Rightarrow> u32 \<Rightarrow> u32 \<Rightarrow> instant option \<Rightarrow> instant option \<Rightarrow> CircuitBreaker" where
  "breaker_state c s n k l t \<equiv>
     \<lparr>cb_config = c, cb_inner =
        \<lparr>cb_state = s, failure_count = n, success_count = k, last_failure_time = l, opened_at = t\<rparr>\<rparr>"

lemma record_failure_eval:
  "CircuitBreaker_record_failure now (breaker_state c Closed n k None t) =
     (if n + 1 \<ge> failure_threshold c then breaker_state c Open (n + 1) k (Some now) (Some now)
      else breaker_state c Closed (n + 1) k (Some now) t)"
  "\<not> now - l > window_size c \<Longrightarrow> CircuitBreaker_record_failure now (breaker_state c Closed n k (Some l) t) =
     (if n + 1 \<ge> failure_threshold c then breaker_state c Open (n + 1) k (Some now) (Some now)
      else breaker_state c Closed (n + 1) k (Some now) t)"
  "now - l > window_size c \<Longrightarrow> CircuitBreaker_record_failure now (breaker_state c Closed n k (Some l) t) =
     (if 1 \<ge> failure_threshold c then breaker_state c Open 1 k (Some now) (Some now)
      else breaker_state c Closed 1 k (Some now) t)"
  "CircuitBreaker_record_failure now (breaker_state c HalfOpen n k ol t) = breaker_state c Open 1 0 (Some now) (Some now)"
  by (simp_all add: CircuitBreaker_record_failure_def elapsed_def Let_def split: option.splits)

lemma request_allowed_eval:
  "CircuitBreaker_is_request_allowed now (breaker_state c Closed n k l t) = (True, breaker_state c Closed n k l t)"
  "now - t' \<ge> open_timeout c \<Longrightarrow>
   CircuitBreaker_is_request_allowed now (breaker_state c Open n k l (Some t')) = (True, breaker_state c HalfOpen 0 0 l (Some t'))"
  "\<not> now - t' \<ge> open_timeout c \<Longrightarrow>
   CircuitBreaker_is_request_allowed now (breaker_state c Open n k l (Some t')) = (False, breaker_state c Open n k l (Some t'))"
  by (simp_all add: CircuitBreaker_is_request_allowed_def elapsed_def)

lemma record_success_eval:
  "CircuitBreaker_record_success (breaker_state c Closed n k l t) = breaker_state c Closed 0 k None t"
  "CircuitBreaker_record_success (breaker_state c HalfOpen n k l t) =
     (if k + 1 \<ge> success_threshold c then breaker_state c Closed 0 0 l None else breaker_state c HalfOpen n (k + 1) l t)"
  by (simp_all add: CircuitBreaker_record_success_def Let_def)

lemmas cb_eval =
  CircuitBreaker_new_def CircuitBreaker_with_config_def CircuitBreakerConfig_defs CircuitBreaker_state_def
  CircuitBreaker_call_def record_failure_eval request_allowed_eval record_success_eval from_secs_def from_millis_def
  not_le not_less word_le_nat_alt word_less_nat_alt

text \<open>
  The tests of the breaker pass: those that do not sleep when neighbouring readings are within
  the window of ten seconds (and, for the refused call, within the timeout), those that sleep
  when moreover the readings around the sleep are separated by it.
\<close>

theorem breaker_tests_pass:
  assumes "\<And>i. clock (Suc i) - clock i \<le> from_secs 10"
  shows "cb_test_initial_state (clock 0)" "cb_test_open_on_failures clock" "cb_test_call_success clock"
    "cb_test_call_failure clock" "cb_test_call_circuit_open clock"
proof -
  note steps = assms [of 0] assms [of 1, unfolded Suc_1] assms [of 2, simplified]
  show "cb_test_open_on_failures clock"
    using steps by (simp add: cb_test_open_on_failures_def cb_eval cong: let_weak_cong)
  show "cb_test_call_circuit_open clock"
    using steps by (simp add: cb_test_call_circuit_open_def cb_eval cong: let_weak_cong)
qed (simp_all add: cb_test_initial_state_def cb_test_call_success_def cb_test_call_failure_def cb_eval cong: let_weak_cong)

theorem breaker_sleeping_tests_pass:
  assumes "clock 1 - clock 0 \<le> from_secs 10" "clock 1 + from_millis 150 \<le> clock 2"
  shows "cb_test_half_open_after_timeout clock" "cb_test_close_from_half_open clock"
    "cb_test_reopen_on_half_open_failure clock"
    and "clock 1 - clock 0 \<le> from_millis 100 \<Longrightarrow> cb_test_window_reset clock"
proof -
  have "from_millis 100 \<le> clock 2 - clock 1" "from_millis 100 < clock 2 - clock 1"
    using assms by (simp_all add: from_millis_def)
  with assms show "cb_test_half_open_after_timeout clock" "cb_test_close_from_half_open clock"
    "cb_test_reopen_on_half_open_failure clock"
    "clock 1 - clock 0 \<le> from_millis 100 \<Longrightarrow> cb_test_window_reset clock"
    by (simp_all add: cb_test_half_open_after_timeout_def cb_test_close_from_half_open_def
        cb_test_reopen_on_half_open_failure_def cb_test_window_reset_def cb_eval cong: let_weak_cong)
qed

section \<open>The rate limiter\<close>

definition rl_test_initial_capacity :: "(nat \<Rightarrow> instant) \<Rightarrow> bool" where
  "rl_test_initial_capacity clock \<longleftrightarrow>
     (let rl = RateLimiter_per_second (clock 0) 10 in fst (RateLimiter_available_tokens (clock 1) rl) = 10)"

definition rl_test_acquire_tokens :: "(nat \<Rightarrow> instant) \<Rightarrow> bool" where
  "rl_test_acquire_tokens clock \<longleftrightarrow>
     (let rl = RateLimiter_per_second (clock 0) 10;
          (r1, rl) = RateLimiter_try_acquire (clock 1) 5 rl;
          (n1, rl) = RateLimiter_available_tokens (clock 2) rl;
          (r2, rl) = RateLimiter_try_acquire (clock 3) 5 rl;
          (n2, rl) = RateLimiter_available_tokens (clock 4) rl;
          (r3, rl) = RateLimiter_try_acquire (clock 5) 1 rl
      in r1 \<and> n1 = 5 \<and> r2 \<and> n2 = 0 \<and> \<not> r3)"

definition rl_test_refill :: "(nat \<Rightarrow> instant) \<Rightarrow> bool" where
  "rl_test_refill clock \<longleftrightarrow>
     (let config = RateLimiterConfig_with_refill_interval (from_millis 100)
            (RateLimiterConfig_with_refill_amount 10 (RateLimiterConfig_with_capacity 10 RateLimiterConfig_new));
          rl = RateLimiter_with_config (clock 0) config;
          (r1, rl) = RateLimiter_try_acquire (clock 1) 10 rl;
          (n1, rl) = RateLimiter_available_tokens (clock 2) rl;
          (n2, rl) = RateLimiter_available_tokens (clock 3) rl
      in r1 \<and> n1 = 0 \<and> n2 > 0)"

definition rl_test_per_second :: "(nat \<Rightarrow> instant) \<Rightarrow> bool" where
  "rl_test_per_second clock \<longleftrightarrow>
     (let rl = RateLimiter_per_second (clock 0) 100 in fst (RateLimiter_available_tokens (clock 1) rl) = 100)"

definition rl_test_per_minute :: "(nat \<Rightarrow> instant) \<Rightarrow> bool" where
  "rl_test_per_minute clock \<longleftrightarrow>
     (let rl = RateLimiter_per_minute (clock 0) 60 in fst (RateLimiter_available_tokens (clock 1) rl) = 60)"

text \<open>The readings of the loop in \<open>acquire\<close> are \<open>pass\<close>; it starts at \<open>clock 2\<close> and is over at \<open>clock 3\<close>.\<close>

definition rl_test_async_acquire :: "(nat \<Rightarrow> instant) \<Rightarrow> (nat \<Rightarrow> pass_clock) \<Rightarrow> nat \<Rightarrow> bool" where
  "rl_test_async_acquire clock pass fuel \<longleftrightarrow>
     (let config = RateLimiterConfig_with_refill_interval (from_millis 100)
            (RateLimiterConfig_with_refill_amount 2 (RateLimiterConfig_with_capacity 2 RateLimiterConfig_new));
          rl = RateLimiter_with_config (clock 0) config;
          (r1, rl) = RateLimiter_try_acquire (clock 1) 2 rl;
          start = clock 2
      in r1 \<and>
         (case RateLimiter_acquire_one start pass (\<lambda>_. id) fuel (from_secs 5) rl of
            Some (Returned (Inr granted), _, _) \<Rightarrow> granted \<and> elapsed (clock 3) start \<ge> from_millis 50
          | _ \<Rightarrow> False))"

definition rl_test_async_acquire_timeout :: "(nat \<Rightarrow> instant) \<Rightarrow> (nat \<Rightarrow> pass_clock) \<Rightarrow> nat \<Rightarrow> bool" where
  "rl_test_async_acquire_timeout clock pass fuel \<longleftrightarrow>
     (let config = RateLimiterConfig_with_refill_interval (from_secs 60)
            (RateLimiterConfig_with_refill_amount 1 (RateLimiterConfig_with_capacity 1 RateLimiterConfig_new));
          rl = RateLimiter_with_config (clock 0) config;
          (r1, rl) = RateLimiter_try_acquire (clock 1) 1 rl
      in r1 \<and>
         (case RateLimiter_acquire_one (clock 2) pass (\<lambda>_. id) fuel (from_millis 100) rl of
            Some (Returned (Inl e), _, _) \<Rightarrow> e = RateLimiterError.Timeout
          | _ \<Rightarrow> False))"

definition rl_test_keyed_limiter :: "(nat \<Rightarrow> instant) \<Rightarrow> bool" where
  "rl_test_keyed_limiter clock \<longleftrightarrow>
     (let k = KeyedRateLimiter_new (RateLimiterConfig_per_second 5);
          (r1, k) = KeyedRateLimiter_try_acquire id (clock 0) (clock 1) ''user1'' 5 k;
          (r2, k) = KeyedRateLimiter_try_acquire id (clock 2) (clock 3) ''user2'' 5 k;
          (r3, k) = KeyedRateLimiter_try_acquire id (clock 4) (clock 5) ''user1'' 1 k;
          (r4, k) = KeyedRateLimiter_try_acquire id (clock 6) (clock 7) ''user2'' 1 k
      in r1 \<and> r2 \<and> \<not> r3 \<and> \<not> r4 \<and> KeyedRateLimiter_key_count k = 2)"

definition rl_test_keyed_limiter_remove :: "(nat \<Rightarrow> instant) \<Rightarrow> bool" where
  "rl_test_keyed_limiter_remove clock \<longleftrightarrow>
     (let k = KeyedRateLimiter_new (RateLimiterConfig_per_second 5);
          (_, k) = KeyedRateLimiter_try_acquire id (clock 0) (clock 1) ''user1'' 1 k;
          (_, k) = KeyedRateLimiter_try_acquire id (clock 2) (clock 3) ''user2'' 1 k;
          k' = KeyedRateLimiter_remove_key ''user1'' k
      in KeyedRateLimiter_key_count k = 2 \<and> KeyedRateLimiter_key_count k' = 1)"

definition rl_test_reset :: "(nat \<Rightarrow> instant) \<Rightarrow> bool" where
  "rl_test_reset clock \<longleftrightarrow>
     (let rl = RateLimiter_per_second (clock 0) 10;
          (_, rl) = RateLimiter_try_acquire (clock 1) 10 rl;
          (n1, rl) = RateLimiter_available_tokens (clock 2) rl;
          rl = RateLimiter_reset (clock 3) rl;
          (n2, rl) = RateLimiter_available_tokens (clock 4) rl
      in n1 = 0 \<and> n2 = 10)"

text \<open>
  Between calls at one instant a limiter is an exact counter: nothing is refilled, and whole
  numbers of tokens are represented exactly.
\<close>

definition limiter :: "RateLimiterConfig \<Rightarrow> nat \<Rightarrow> instant \<Rightarrow> RateLimiter" where
  "limiter c m t = \<lparr>rl_config = c, rl_bucket = \<lparr>tokens = Fin (of_nat m), last_refill = t\<rparr>\<rparr>"

definition countable_config :: "RateLimiterConfig \<Rightarrow> bool" where
  "countable_config c \<longleftrightarrow> refill_valid c \<and> unat (rl_capacity c) \<le> 2 ^ 53"

lemma new_limiter: "countable_config c \<Longrightarrow> RateLimiter_with_config t c = limiter c (unat (rl_capacity c)) t"
  by (simp add: RateLimiter_with_config_def countable_config_def f64_of_nat_exact limiter_def)

lemma limiter_config [simp]: "rl_config (limiter c m t) = c"
  by (simp add: limiter_def)

lemma reset_limiter: "countable_config c \<Longrightarrow> RateLimiter_reset t (limiter c m u) = limiter c (unat (rl_capacity c)) t"
  by (simp add: RateLimiter_reset_def countable_config_def f64_of_nat_exact limiter_def)

lemma refill_same_instant:
  assumes "countable_config c" "m \<le> unat (rl_capacity c)"
  shows "RateLimiter_refill_tokens t c \<lparr>tokens = Fin (of_nat m), last_refill = t\<rparr> =
    \<lparr>tokens = Fin (of_nat m), last_refill = t\<rparr>"
proof -
  let ?b = "\<lparr>tokens = Fin (of_nat m), last_refill = t\<rparr>"
  have cap: "u64_value (rl_capacity c) = of_nat (unat (rl_capacity c))"
    using assms(1) by (intro u64_value_exact) (simp add: countable_config_def)
  have le: "(of_nat m :: rat) \<le> u64_value (rl_capacity c)" unfolding cap using assms(2) by (rule of_nat_mono)
  obtain x where "tokens (RateLimiter_refill_tokens t c ?b) = Fin (min (magnitude (of_nat m + x)) (u64_value (rl_capacity c)))"
    "0 \<le> x" "x \<le> refill_rate c * of_nat (t - last_refill ?b) * (1 + 1 / 2 ^ 49)"
    by (rule refill_tokens_value [of ?b "of_nat m" c t]) (use assms le in \<open>simp_all add: countable_config_def\<close>)
  moreover have "magnitude (of_nat m) = of_nat m" using assms by (intro magnitude_of_nat) (simp add: countable_config_def)
  ultimately have "tokens (RateLimiter_refill_tokens t c ?b) = Fin (of_nat m)"
    using le by (simp add: min_def)
  then show ?thesis by (simp add: RateLimiter_refill_tokens_def Let_def)
qed

lemma try_acquire_same_instant:
  assumes "countable_config c" "m \<le> unat (rl_capacity c)" "unat n \<le> 2 ^ 53"
  shows "RateLimiter_try_acquire t n (limiter c m t) =
    (unat n \<le> m, limiter c (if unat n \<le> m then m - unat n else m) t)"
proof -
  define k where "k = unat n"
  have m: "m \<le> 2 ^ 53" using assms(1,2) by (simp add: countable_config_def)
  have k: "f64_of_nat k = Fin (of_nat k)" using assms(3) by (intro f64_of_nat_exact) (simp add: k_def)
  have "f64_sub (Fin (of_nat m)) (Fin (of_nat k)) = Fin (of_nat (m - k))" if "k \<le> m"
  proof -
    have "f64_sub (Fin (of_nat m)) (Fin (of_nat k)) = f64_of_nat (m - k)"
      using that by (simp add: f64_sub_def f64_of_nat_def of_nat_diff)
    also have "\<dots> = Fin (of_nat (m - k))" using m by (intro f64_of_nat_exact) simp
    finally show ?thesis .
  qed
  then show ?thesis
    unfolding RateLimiter_try_acquire_def k_def [symmetric] limiter_def
    by (simp add: refill_same_instant [OF assms(1,2)] k Let_def)
qed

lemma available_same_instant:
  assumes "countable_config c" "m \<le> unat (rl_capacity c)"
  shows "RateLimiter_available_tokens t (limiter c m t) = (of_nat m, limiter c m t)"
proof -
  have "(of_nat m :: rat) < of_nat (2 ^ 64)" using assms by (subst of_nat_less_iff) (simp add: countable_config_def)
  then show ?thesis
    by (simp add: RateLimiter_available_tokens_def refill_same_instant [OF assms] Let_def f64_floor_def limiter_def)
qed

lemmas rl_eval =
  RateLimiter_per_second_def RateLimiter_per_minute_def RateLimiterConfig_defs new_limiter try_acquire_same_instant
  available_same_instant reset_limiter countable_config_def refill_valid_def f64_of_nat_exact from_secs_def
  from_millis_def duration_max_def

text \<open>The tests of the limiter that do not wait pass when they run at one instant.\<close>

theorem rate_limiter_tests_pass:
  "rl_test_initial_capacity (\<lambda>_. t)" "rl_test_acquire_tokens (\<lambda>_. t)" "rl_test_per_second (\<lambda>_. t)"
  "rl_test_per_minute (\<lambda>_. t)" "rl_test_reset (\<lambda>_. t)"
  by (simp_all add: rl_test_initial_capacity_def rl_test_acquire_tokens_def rl_test_per_second_def
      rl_test_per_minute_def rl_test_reset_def rl_eval cong: let_weak_cong)

theorem keyed_limiter_tests_pass:
  "rl_test_keyed_limiter (\<lambda>_. t)" "rl_test_keyed_limiter_remove (\<lambda>_. t)"
  by (simp_all add: rl_test_keyed_limiter_def rl_test_keyed_limiter_remove_def KeyedRateLimiter_try_acquire_def
      KeyedRateLimiter_entry_def KeyedRateLimiter_try_at_def KeyedRateLimiter_new_def KeyedRateLimiter_key_count_def
      KeyedRateLimiter_remove_key_def rl_eval cong: let_weak_cong)

text \<open>After a long enough time the bucket is full.\<close>

definition refilled :: "RateLimiterConfig \<Rightarrow> duration \<Rightarrow> bool" where
  "refilled c d \<longleftrightarrow> d \<le> duration_max \<and>
     of_nat (unat (rl_capacity c)) * (1 + 1 / 2 ^ 49) \<le> refill_rate c * of_nat d"

lemma refill_full_limiter:
  assumes "countable_config c" "m \<le> unat (rl_capacity c)" "refilled c (u - t)"
  shows "RateLimiter_refill_tokens u c (rl_bucket (limiter c m t)) = rl_bucket (limiter c (unat (rl_capacity c)) u)"
proof -
  have cap: "u64_value (rl_capacity c) = of_nat (unat (rl_capacity c))"
    using assms(1) by (intro u64_value_exact) (simp add: countable_config_def)
  have "(of_nat m :: rat) \<le> u64_value (rl_capacity c)" unfolding cap using assms(2) by (rule of_nat_mono)
  then have "tokens (RateLimiter_refill_tokens u c (rl_bucket (limiter c m t))) = Fin (u64_value (rl_capacity c))"
    using assms unfolding refilled_def cap [symmetric]
    by (intro refill_tokens_full [of _ "of_nat m"]) (simp_all add: limiter_def countable_config_def)
  then show ?thesis unfolding cap by (simp add: RateLimiter_refill_tokens_def limiter_def Let_def)
qed

lemma refilled_calls:
  assumes "countable_config c" "m \<le> unat (rl_capacity c)" "refilled c (u - t)"
  shows "RateLimiter_available_tokens u (limiter c m t) = RateLimiter_available_tokens u (limiter c (unat (rl_capacity c)) u)"
    and "RateLimiter_try_acquire u n (limiter c m t) = RateLimiter_try_acquire u n (limiter c (unat (rl_capacity c)) u)"
  using refill_full_limiter [OF assms] refill_same_instant [OF assms(1) order_refl, of u]
  by (simp_all add: RateLimiter_available_tokens_def RateLimiter_try_acquire_def limiter_def Let_def)

text \<open>Before the first token is due, nothing is granted.\<close>

lemma try_acquire_early:
  assumes "countable_config c" "rl_capacity c \<ge> 1" "u - t \<le> duration_max"
    and "refill_rate c * (1 + 1 / 2 ^ 49) * of_nat (u - t) + of_nat (unat (rl_capacity c)) / 2 ^ 53 < 1"
  shows "\<not> fst (RateLimiter_try_acquire u 1 (limiter c 0 t))"
proof -
  have cap: "u64_value (rl_capacity c) = of_nat (unat (rl_capacity c))"
    using assms(1) by (intro u64_value_exact) (simp add: countable_config_def)
  let ?b = "rl_bucket (limiter c 0 t)"
  have b: "tokens ?b = Fin 0" "0 \<le> u64_value (rl_capacity c)" "u - last_refill ?b = u - t"
    by (simp_all add: limiter_def u64_value_bounds)
  obtain r where r: "tokens (RateLimiter_refill_tokens u c ?b) = Fin r"
    by (rule refill_tokens_value [of ?b 0 c u]) (use assms b in \<open>simp_all add: countable_config_def\<close>)
  have "r \<le> 0 + refill_rate c * (1 + 1 / 2 ^ 49) * of_nat (u - last_refill ?b) + u64_value (rl_capacity c) / 2 ^ 53"
    by (rule refill_tokens_le [OF _ _ _ _ _ r]) (use assms b in \<open>simp_all add: countable_config_def\<close>)
  then have "r < 1" unfolding cap b(3) using assms(4) by linarith
  then show ?thesis
    using r f64_of_nat_exact [of 1] by (simp add: RateLimiter_try_acquire_def limiter_def Let_def)
qed

text \<open>
  The tests that wait, with the waits as they are meant: the sleep of the first test lasts at
  least its 150 milliseconds; \<open>acquire\<close> is granted at its second pass, at least 101
  milliseconds after the bucket was emptied; and it times out at its second pass.
\<close>

theorem rl_test_refill_passes:
  assumes "clock 1 = clock 0" "clock 2 = clock 0" "clock 0 + from_millis 150 \<le> clock 3" "clock 3 - clock 0 \<le> duration_max"
  shows "rl_test_refill clock"
proof -
  let ?c = "RateLimiterConfig_with_refill_interval (from_millis 100)
            (RateLimiterConfig_with_refill_amount 10 (RateLimiterConfig_with_capacity 10 RateLimiterConfig_new))"
  have c: "countable_config ?c" "unat (rl_capacity ?c) = 10" by (simp_all add: rl_eval)
  have "(150000000 :: rat) \<le> of_nat (clock 3 - clock 0)"
    using assms(3) of_nat_mono [of 150000000 "clock 3 - clock 0", where 'a = rat] by (simp add: from_millis_def)
  then have "refilled ?c (clock 3 - clock 0)"
    using assms(4) by (simp add: refilled_def refill_rate_def config_defs from_millis_def)
  then show ?thesis
    using c refilled_calls(1) [OF c(1), of 0 "clock 3" "clock 0"]
    by (simp add: rl_test_refill_def assms(1) [simplified] assms(2) new_limiter try_acquire_same_instant available_same_instant
        cong: let_weak_cong)
qed

text \<open>A first pass that is refused, then a second one.\<close>

lemma acquire_second_pass:
  assumes "f (at_try (pass 0)) s = (False, s1)" "at_check (pass 0) < deadline" "sleep_of c deadline (at_sleep (pass 0)) \<noteq> None"
    and "f (at_try (pass 1)) s1 = (granted, s2)" "granted \<or> deadline \<le> at_check (pass 1)"
  shows "\<exists>sleeps. acquire_loop f c pass (\<lambda>_. id) deadline 0 (Suc (Suc fuel)) s =
    Some (Returned (if granted then Inr True else Inl Timeout), sleeps, s2)"
  using assms by auto

theorem rl_test_async_acquire_passes:
  assumes "clock 1 = clock 0" "clock 2 = clock 0" "at_try (pass 0) = clock 0" "at_check (pass 0) < clock 0 + from_secs 5"
    and "clock 0 + from_millis 101 \<le> at_try (pass 1)" "at_try (pass 1) - clock 0 \<le> duration_max"
    and "at_try (pass 1) \<le> clock 3"
  shows "rl_test_async_acquire clock pass (Suc (Suc fuel))"
proof -
  define c where "c = RateLimiterConfig_with_refill_interval (from_millis 100)
            (RateLimiterConfig_with_refill_amount 2 (RateLimiterConfig_with_capacity 2 RateLimiterConfig_new))"
  have c: "countable_config c" "unat (rl_capacity c) = 2" by (simp_all add: c_def rl_eval)
  have "(101000000 :: rat) \<le> of_nat (at_try (pass 1) - clock 0)"
    using assms(5) of_nat_mono [of 101000000 "at_try (pass 1) - clock 0", where 'a = rat] by (simp add: from_millis_def)
  then have "refilled c (at_try (pass 1) - clock 0)"
    using assms(6) by (simp add: c_def refilled_def refill_rate_def config_defs from_millis_def)
  then have "RateLimiter_try_acquire (at_try (pass 1)) 1 (limiter c 0 (clock 0)) = (True, limiter c 1 (at_try (pass 1)))"
    by (simp add: refilled_calls(2) [OF c(1)] try_acquire_same_instant [OF c(1)] c(2))
  moreover have "sleep_of c (clock 0 + from_secs 5) u \<noteq> None" for u
    by (simp add: c_def sleep_of_def wait_time_def config_defs)
  ultimately have "\<exists>sleeps. RateLimiter_acquire_one (clock 0) pass (\<lambda>_. id) (Suc (Suc fuel)) (from_secs 5) (limiter c 0 (clock 0)) =
      Some (Returned (Inr True), sleeps, limiter c 1 (at_try (pass 1)))"
    using acquire_second_pass [of "\<lambda>t. RateLimiter_try_acquire t 1" pass "limiter c 0 (clock 0)" "limiter c 0 (clock 0)"
        "clock 0 + from_secs 5" c True "limiter c 1 (at_try (pass 1))" fuel] assms(3,4)
    by (simp add: RateLimiter_acquire_one_def RateLimiter_acquire_def try_acquire_same_instant [OF c(1)]
        del: acquire_loop.simps)
  moreover have "from_millis 50 \<le> clock 3 - clock 0" using assms(5,7) by (simp add: from_millis_def)
  ultimately show ?thesis
    unfolding rl_test_async_acquire_def c_def [symmetric]
    by (auto simp: new_limiter [OF c(1)] c(2) try_acquire_same_instant [OF c(1)] assms(1) [simplified] assms(2) elapsed_def
        Let_def)
qed

theorem rl_test_async_acquire_timeout_passes:
  assumes "clock 1 = clock 0" "clock 2 = clock 0" "at_try (pass 0) = clock 0" "at_check (pass 0) < clock 0 + from_millis 100"
    and "at_try (pass 1) \<le> clock 0 + from_secs 1" "clock 0 + from_millis 100 \<le> at_check (pass 1)"
  shows "rl_test_async_acquire_timeout clock pass (Suc (Suc fuel))"
proof -
  define c where "c = RateLimiterConfig_with_refill_interval (from_secs 60)
            (RateLimiterConfig_with_refill_amount 1 (RateLimiterConfig_with_capacity 1 RateLimiterConfig_new))"
  have c: "countable_config c" "unat (rl_capacity c) = 1" by (simp_all add: c_def rl_eval)
  have "of_nat (at_try (pass 1) - clock 0) \<le> (1000000000 :: rat)"
    using assms(5) of_nat_mono [of "at_try (pass 1) - clock 0" 1000000000, where 'a = rat] by (simp add: from_secs_def)
  then have "\<not> fst (RateLimiter_try_acquire (at_try (pass 1)) 1 (limiter c 0 (clock 0)))"
    using assms(5)
    by (intro try_acquire_early [OF c(1)]) (simp_all add: c_def refill_rate_def config_defs from_secs_def duration_max_def)
  then obtain rl where "RateLimiter_try_acquire (at_try (pass 1)) 1 (limiter c 0 (clock 0)) = (False, rl)"
    by (metis prod.collapse)
  moreover have "sleep_of c (clock 0 + from_millis 100) u \<noteq> None" for u
    by (simp add: c_def sleep_of_def wait_time_def config_defs)
  ultimately have "\<exists>sleeps. RateLimiter_acquire_one (clock 0) pass (\<lambda>_. id) (Suc (Suc fuel)) (from_millis 100) (limiter c 0 (clock 0)) =
      Some (Returned (Inl Timeout), sleeps, rl)"
    using acquire_second_pass [of "\<lambda>t. RateLimiter_try_acquire t 1" pass "limiter c 0 (clock 0)" "limiter c 0 (clock 0)"
        "clock 0 + from_millis 100" c False rl fuel] assms(3,4,6)
    by (simp add: RateLimiter_acquire_one_def RateLimiter_acquire_def try_acquire_same_instant [OF c(1)]
        del: acquire_loop.simps)
  then show ?thesis
    unfolding rl_test_async_acquire_timeout_def c_def [symmetric]
    by (auto simp: new_limiter [OF c(1)] c(2) try_acquire_same_instant [OF c(1)] assms(1) [simplified] assms(2) Let_def)
qed

section \<open>Graceful shutdown\<close>

definition gs_test_shutdown_signal :: "signal_flags \<Rightarrow> bool" where
  "gs_test_shutdown_signal flags \<longleftrightarrow>
     (let (signal, flags) = ShutdownSignal_new flags;
          before = ShutdownSignal_is_triggered flags signal;
          flags = ShutdownSignal_trigger signal flags
      in \<not> before \<and> ShutdownSignal_is_triggered flags signal)"

text \<open>
  The task that triggers the signal does so at some time \<open>T\<close>, at least 50 milliseconds after it
  was spawned; the test awaits the signal from \<open>start\<close> on.
\<close>

definition gs_test_shutdown_wait :: "instant \<Rightarrow> (instant \<Rightarrow> duration) \<Rightarrow> instant \<Rightarrow> bool" where
  "gs_test_shutdown_wait T late start \<longleftrightarrow>
     (case ShutdownSignal_wait (\<lambda>t. T \<le> t) late start of
        Some t \<Rightarrow> elapsed t start \<ge> from_millis 50
      | None \<Rightarrow> False)"

definition gs_test_tracking :: "('n, 'w) notify_ops \<Rightarrow> bool" where
  "gs_test_tracking N \<longleftrightarrow>
     (let g0 = GracefulShutdown_new N (from_secs 1);
          (guard1, g1) = GracefulShutdown_enter g0;
          (guard2, g2) = GracefulShutdown_enter g1;
          g3 = ShutdownGuard_drop N g2;
          g4 = ShutdownGuard_drop N g3
      in GracefulShutdown_active_request_count g0 = 0 \<and>
         guard1 \<noteq> None \<and> GracefulShutdown_active_request_count g1 = 1 \<and>
         guard2 \<noteq> None \<and> GracefulShutdown_active_request_count g2 = 2 \<and>
         GracefulShutdown_active_request_count g3 = 1 \<and> GracefulShutdown_active_request_count g4 = 0)"

definition gs_test_reject_after_shutdown :: "('n, 'w) notify_ops \<Rightarrow> bool" where
  "gs_test_reject_after_shutdown N \<longleftrightarrow>
     (let g = GracefulShutdown_shutdown (GracefulShutdown_new N (from_secs 1))
      in fst (GracefulShutdown_enter g) = None)"

text \<open>The steps that the waiter can make on its own, at most \<open>n\<close>.\<close>

fun run_waiter :: "('n, 'w) notify_ops \<Rightarrow> 'n GracefulShutdown \<Rightarrow> nat \<Rightarrow> 'w completion \<Rightarrow> 'w completion" where
  "run_waiter N g 0 w = w"
| "run_waiter N g (Suc n) w =
     (case wait_for_completion_idle N g w of None \<Rightarrow> w | Some w' \<Rightarrow> run_waiter N g n w')"

text \<open>
  The waiter runs until it blocks; then the spawned task wakes up at \<open>wake\<close> and drops the
  guard; then the waiter runs again.
\<close>

definition gs_test_wait_for_completion :: "('n, 'w) notify_ops \<Rightarrow> instant \<Rightarrow> instant \<Rightarrow> bool" where
  "gs_test_wait_for_completion N start wake \<longleftrightarrow>
     (let g = GracefulShutdown_new N (from_secs 2);
          (guard, g) = GracefulShutdown_enter g;
          w = run_waiter N g 2 (GracefulShutdown_wait_for_completion start);
          blocked = (wait_for_completion_idle N g w = None \<and> wait_for_completion_sleep wake g w = None);
          g = ShutdownGuard_drop N g;
          w = run_waiter N g 2 w
      in guard \<noteq> None \<and> blocked \<and> w = Finished True \<and> elapsed wake start \<ge> from_millis 100)"

definition gs_test_timeout :: "('n, 'w) notify_ops \<Rightarrow> instant \<Rightarrow> instant \<Rightarrow> bool" where
  "gs_test_timeout N start wake \<longleftrightarrow>
     (let g = GracefulShutdown_new N (from_millis 100);
          (guard, g) = GracefulShutdown_enter g;
          w = run_waiter N g 2 (GracefulShutdown_wait_for_completion start)
      in guard \<noteq> None \<and> wait_for_completion_idle N g w = None \<and>
         wait_for_completion_sleep wake g w = Some (Finished False))"

definition gs_test_shutdown_and_wait :: "('n, 'w) notify_ops \<Rightarrow> instant \<Rightarrow> instant \<Rightarrow> bool" where
  "gs_test_shutdown_and_wait N start wake \<longleftrightarrow>
     (let g = GracefulShutdown_new N (from_secs 1);
          (guard, g) = GracefulShutdown_enter g;
          (w, g) = GracefulShutdown_shutdown_and_wait start g;
          w = run_waiter N g 2 w;
          blocked = (wait_for_completion_idle N g w = None \<and> wait_for_completion_sleep wake g w = None);
          g = ShutdownGuard_drop N g;
          w = run_waiter N g 2 w
      in guard \<noteq> None \<and> blocked \<and> w = Finished True \<and> GracefulShutdown_is_shutdown_requested g)"

definition gs_test_coordinator :: "('n, 'w) notify_ops \<Rightarrow> signal_flags \<Rightarrow> instant \<Rightarrow> bool" where
  "gs_test_coordinator N flags now \<longleftrightarrow>
     (let co = ShutdownCoordinator_new N (from_secs 1);
          (signal1, flags, co) = ShutdownCoordinator_create_signal flags co;
          (signal2, flags, co) = ShutdownCoordinator_create_signal flags co;
          before = (ShutdownSignal_is_triggered flags signal1 \<or> ShutdownSignal_is_triggered flags signal2);
          (w, flags, co) = (ShutdownCoordinator_shutdown_all now flags co :: 'w completion \<times> signal_flags \<times> 'n ShutdownCoordinator)
      in \<not> before \<and> run_waiter N (graceful co) 1 w = Finished True \<and>
         ShutdownSignal_is_triggered flags signal1 \<and> ShutdownSignal_is_triggered flags signal2)"

lemmas gs_eval =
  GracefulShutdown_new_def GracefulShutdown_enter_def GracefulShutdown_enter_add_def
  GracefulShutdown_is_shutdown_requested_def GracefulShutdown_active_request_count_def GracefulShutdown_shutdown_def
  ShutdownGuard_drop_def ShutdownGuard_drop_sub_def ShutdownGuard_drop_notify_def ShutdownSignal_new_def
  ShutdownSignal_trigger_def ShutdownSignal_is_triggered_def GracefulShutdown_wait_for_completion_def
  GracefulShutdown_shutdown_and_wait_def ShutdownCoordinator_new_def ShutdownCoordinator_create_signal_def
  ShutdownCoordinator_shutdown_all_def

text \<open>
  The tests of the shutdown pass for every \<open>Notify\<close>, when the waits are as the tests mean them:
  the sleeps last at least as long as they should and end before the timeout.
\<close>

theorem shutdown_tests_pass:
  "gs_test_shutdown_signal flags" "gs_test_tracking N" "gs_test_reject_after_shutdown N" "gs_test_coordinator N flags now"
  by (simp_all add: gs_test_shutdown_signal_def gs_test_tracking_def gs_test_reject_after_shutdown_def
      gs_test_coordinator_def gs_eval Let_def nth_append list_update_append)

theorem shutdown_wait_test_passes:
  assumes "start + from_millis 50 \<le> T" "\<And>t. late t \<le> J"
  shows "gs_test_shutdown_wait T late start"
proof -
  have T: "\<not> T \<le> start" using assms(1) by (simp add: from_millis_def)
  obtain t where "ShutdownSignal_wait (\<lambda>t. T \<le> t) late start = Some t" "T \<le> t"
    using signal_wait_returns [of "\<lambda>t. T \<le> t" T late J start] T assms(2) by auto
  then show ?thesis using assms(1) by (simp add: gs_test_shutdown_wait_def elapsed_def)
qed

theorem shutdown_sleeping_tests_pass:
  assumes "notify N"
  shows "start + from_millis 100 \<le> wake \<Longrightarrow> wake < start + from_secs 2 \<Longrightarrow> gs_test_wait_for_completion N start wake"
    and "start + from_millis 100 \<le> wake \<Longrightarrow> gs_test_timeout N start wake"
    and "wake < start + from_secs 1 \<Longrightarrow> gs_test_shutdown_and_wait N start wake"
  using notify.new_not_ready [OF assms] notify.notify_wakes [OF assms notify.waits_on_new [OF assms]]
  by (simp_all add: gs_test_wait_for_completion_def gs_test_timeout_def gs_test_shutdown_and_wait_def gs_eval Let_def
      numeral_2_eq_2 elapsed_def)

section \<open>Tracing\<close>

text \<open>The counter of trace identifiers and the clock are shared by all tests: both are arguments.\<close>

definition tracing_test_trace_id_generation :: "u64 \<Rightarrow> bool" where
  "tracing_test_trace_id_generation counter \<longleftrightarrow>
     (let (id1, counter) = generate_trace_id counter; (id2, counter) = generate_trace_id counter
      in id1 \<noteq> id2 \<and> take 6 id1 = ''trace-'')"

definition tracing_test_trace_context :: "system_time \<Rightarrow> u64 \<Rightarrow> bool" where
  "tracing_test_trace_context time counter \<longleftrightarrow>
     (let (ctx, counter) = TraceContext_new time ''my-service'' ''operation'' counter
      in tc_service_name ctx = ''my-service'' \<and> tc_operation ctx = ''operation'' \<and> tc_parent_span_id ctx = None)"

definition tracing_test_child_span :: "system_time \<Rightarrow> system_time \<Rightarrow> u64 \<Rightarrow> bool" where
  "tracing_test_child_span time time' counter \<longleftrightarrow>
     (let (parent, counter) = TraceContext_new time ''service'' ''parent-op'' counter;
          (child, counter) = TraceContext_child_span time' ''child-op'' parent counter
      in tc_trace_id child = tc_trace_id parent \<and> tc_span_id child \<noteq> tc_span_id parent \<and>
         tc_parent_span_id child = Some (tc_span_id parent))"

definition tracing_test_span_duration :: "system_time \<Rightarrow> u64 \<Rightarrow> instant \<Rightarrow> instant \<Rightarrow> bool" where
  "tracing_test_span_duration time counter start now \<longleftrightarrow>
     (let (ctx, counter) = TraceContext_new time ''service'' ''test'' counter;
          span = Span_new start ctx;
          summary = Span_end now span
      in ss_duration_ms summary \<ge> 10)"

definition tracing_test_span_collector :: "system_time \<Rightarrow> u64 \<Rightarrow> instant \<Rightarrow> instant \<Rightarrow> bool" where
  "tracing_test_span_collector time counter start now \<longleftrightarrow>
     (let collector = SpanCollector_new;
          (ctx, counter) = TraceContext_new time ''service'' ''op1'' counter;
          span = Span_new start ctx;
          span = Span_set_attribute ''key'' ''value'' span;
          summary = Span_end now span;
          collector = SpanCollector_record summary collector;
          spans = SpanCollector_get_spans collector
      in length spans = 1 \<and> ss_operation (spans ! 0) = ''op1'')"

lemmas tracing_eval =
  TraceContext_new_def TraceContext_child_span_def Span_new_def Span_set_attribute_def Span_end_def Span_elapsed_ms_def
  SpanCollector_new_def SpanCollector_record_def SpanCollector_get_spans_def elapsed_def

theorem tracing_tests_pass:
  "tracing_test_trace_context time counter" "tracing_test_span_collector time counter start now"
  by (simp_all add: tracing_test_trace_context_def tracing_test_span_collector_def tracing_eval Let_def split_beta)

theorem trace_id_test_passes: "tracing_test_trace_id_generation counter"
  by (simp add: tracing_test_trace_id_generation_def generate_trace_id_def lower.word_eq_iff [where 'a = 64 and k = 16])

text \<open>
  The test of child spans passes exactly when the clock has moved between the two spans (as
  a 64-bit count of nanoseconds).
\<close>

theorem child_span_test_passes_iff:
  "tracing_test_child_span (Inr nanos) (Inr nanos') counter \<longleftrightarrow> (of_nat nanos :: u64) \<noteq> of_nat nanos'"
  by (auto simp: tracing_test_child_span_def tracing_eval generate_span_id_def Let_def split_beta
      lower.word_eq_iff [where 'a = 64 and k = 16])

theorem span_duration_test_passes:
  assumes "start + from_millis 10 \<le> now" "now - start < 2 ^ 64"
  shows "tracing_test_span_duration time counter start now"
proof -
  let ?ms = "(now - start) div 1000000"
  have "10 \<le> ?ms" using assms(1) div_le_mono [of 10000000 "now - start" 1000000] by (simp add: from_millis_def)
  moreover have "?ms < 2 ^ 64" using assms(2) by (rule le_less_trans [OF div_le_dividend])
  then have "unat (of_nat ?ms :: u64) = ?ms" by (rule unat_usize_of_nat)
  ultimately show ?thesis
    by (simp add: tracing_test_span_duration_def tracing_eval Let_def split_beta word_le_nat_alt)
qed

end
