(* ===== verification/Spec2Isabelle.thy ===== *)
theory Spec2Isabelle
  imports Echo_Programs Message_Container Message_Queue Breaker_Refinement Graceful_Shutdown Rate_Limiter
    Load_Balancer Connection_Pool Cache_Refinement Tracing Tls_Config
    Tests_Core Tests_Pooling Tests_Stability
begin

text \<open>
  A verification development for the crate \<open>rust_network_system\<close>: asynchronous TCP clients and
  servers that exchange length-prefixed messages, and the components around them that
  bound load, survive failures, pool resources, process messages and report what happens.

  \<^bold>\<open>The parts and how they interact.\<close> A client encodes a message into a frame (four bytes of
  big-endian length, then the body) and writes it to its stream. The server accepts a
  connection when it has a permit and spawns a task, which wraps the stream in a session,
  receives messages until an error, and calls a handler for each one. Handlers are wrapped for
  logging, monitoring, or to run a pipeline of processors on a thread pool. The message queue,
  circuit breaker, graceful shutdown, rate limiter, load balancer, connection pool and cache are
  used by programs beside the client and the server. Errors of all parts are values of
  \<open>NetworkError\<close>.

  \<^bold>\<open>The theories.\<close> The paths are those of the crate's directory \<open>src\<close>; a definition \<open>T_f\<close> is the
  method \<open>T::f\<close>, a record or datatype \<open>T\<close> is the type \<open>T\<close>, and a definition named after a part of a
  method (\<open>receive_loop\<close>, \<open>task_begin\<close>, \<open>ConnectionPool_take\<close>) is the block of the method that
  runs without giving up control.
  \<^item> \<open>Prelude\<close>: machine integers, instants and durations in nanoseconds, panics and timeouts as
    values, big-endian bytes, printing; the locales \<open>step_system\<close>, \<open>event_system\<close> and
    \<open>guard_counter\<close>, which carry the invariant proofs of all components, and \<open>simulation\<close>, by
    which the message queue, the circuit breaker and the cache refine their specifications.
  \<^item> \<open>Network_Error\<close> (\<open>error/mod.rs\<close>): the variants, constructors and display texts.
  \<^item> \<open>Bytes_Buffer\<close>, \<open>Tokio_Sync\<close>: the contracts of \<open>BytesMut\<close> and of tokio's semaphore, bounded
    channel and \<open>Notify\<close> as locales, each with an instance.
  \<^item> \<open>Message_Frame\<close> (\<open>core/message.rs\<close>): \<open>encode\<close> and \<open>decode\<close> refine an abstract decoder on byte lists
    and are inverse; decoding consumes exactly one frame or nothing.
  \<^item> \<open>Message_Container\<close> (\<open>core/message.rs\<close>): container messages, with the container and its
    format as arguments; which values \<open>to_container\<close> finds in a message, and in which range.
  \<^item> \<open>Receive_Loop\<close>, \<open>Session\<close> (\<open>session/mod.rs\<close>): the loop that assembles one message and the
    session around it. For every way the stream is cut into reads \<open>receive\<close> delivers the next
    message and keeps the rest; it returns by its assembly timeout; a closed session stays
    closed.
  \<^item> \<open>Session_Calls\<close> (\<open>session/mod.rs\<close>): the calls of several tasks on one session, cut at their waits
    for its three locks (\<open>call_step\<close>). The halves are used by one call at a time, no call succeeds after a
    \<open>close\<close> has returned, and the calls never block each other for ever.
  \<^item> \<open>Client\<close> (\<open>core/client.rs\<close>): connecting, sending, receiving and reconnecting, with the
    backoff schedule, the repeated frame after a lost connection and the state invariant.
  \<^item> \<open>Server\<close> (\<open>core/server.rs\<close>): accept loop, session tasks, cleanup and stop as operations;
    \<open>runtime_step\<close> interleaves the tasks and the calls on the sessions freely, \<open>server_step\<close> adds the server's own calls.
    \<open>stop\<close> waits for the tasks: it takes what they do during each of its waits as an argument. All
    permits are available between two turns of the accept loop, so \<open>max_connections\<close> does not limit
    the live connections; the counter counts the tasks that have not counted themselves out; \<open>stop\<close> can
    always return, and has then closed the listed sessions and asked every waiting task to abort;
    \<open>broadcast\<close> reaches every live session once; a cleanup pass closes exactly the idle ones; a task never
    goes back to an earlier stage.
  \<^item> \<open>Message_Queue\<close> (\<open>core/message_queue.rs\<close>): refinement of a bounded first-in first-out list for
    sequences of calls, and order, bound and no loss for every interleaving (\<open>mq_step\<close>).
  \<^item> \<open>Circuit_Breaker\<close>, \<open>Breaker_Refinement\<close>, \<open>Graceful_Shutdown\<close> (\<open>stability\<close>): when the breaker opens,
    stays open and recovers, and that it implements a machine of four states; that a wait which returns true has seen all guards dropped, that a listening
    waiter is woken, and the two races of the code.
  \<^item> \<open>Float64\<close>, \<open>Rate_Limiter\<close> (\<open>stability/rate_limiter.rs\<close>): binary64 arithmetic as rationals rounded to
    the nearest even value, the token bucket on it, and its keyed variant. The bucket stays
    within its capacity; grants stay within the configured rate up to an explicit rounding
    term; tokens come back; \<open>acquire\<close> returns; keys do not influence each other.
  \<^item> \<open>Load_Balancer\<close>, \<open>Connection_Pool\<close>, \<open>Cache\<close>, \<open>Cache_Refinement\<close> (\<open>pooling\<close>): counters equal live guards and the strategies
    are fair; permits, connections and the reported total in every interleaving (\<open>pool_step\<close>);
    read after insert, expiry, least-recently-used eviction, and the cache as an implementation of
    a list in order of recency.
  \<^item> \<open>Processors\<close> (\<open>integration/thread_pool.rs\<close>): pipelines of codecs are undone by the reversed pipeline.
  \<^item> \<open>Handlers\<close> (the trait of \<open>session/mod.rs\<close> and \<open>integration\<close>): logging and monitoring change nothing a
    session does, the metrics are exact, a thread pool delivers what the processor made.
  \<^item> \<open>Hex_Format\<close>, \<open>Tracing\<close> (\<open>tracing/mod.rs\<close>): trace identifiers identify traces, span identifiers do
    not identify spans.
  \<^item> \<open>Tls_Config\<close> (\<open>tls/config.rs\<close>): loading of certificates and keys and the verifiers; a
    configuration is built from complete data or not at all, and a client with pins accepts
    exactly the pinned certificates.
  \<^item> \<open>Echo_Programs\<close> (\<open>examples\<close>): the four example programs. Each client runs to its end against its
    server and gets its own messages back, through every layer in both directions.
  \<^item> \<open>Tests_Core\<close>, \<open>Tests_Pooling\<close>, \<open>Tests_Stability\<close> (the test modules beside the code): the unit tests as
    definitions on the model, and lemmas that they pass, with the clock readings, generators
    and shared counters for which they do.
  \<^item> this theory: the composition of client, server, handlers and processors.

  \<^bold>\<open>State, time and concurrency.\<close> An object is a record of its fields and an operation returns the
  updated record. Every clock reading, random draw, read or write of a stream and answer of an
  outside service is an argument, so a statement holds for all of them. A read is \<open>Elapsed\<close>
  or \<open>Completed\<close> with an error or the bytes read; a list of reads that ends before the loop does means
  that the task still waits. Where tasks share an object, an inductive step relation has one
  rule per block between two points where another task can run, and the properties are
  invariants of its reachable states. A value that a block does not mention is not captured by it:
  a parameter that is passed only to be dropped is dropped when its function returns. Atomic operations are sequentially consistent.

  \<^bold>\<open>Loops and fuel.\<close> The receive loop recurses on the reads it consumes and needs no fuel.
  \<open>RateLimiter_acquire\<close> takes fuel; \<open>timeout div wait + 2\<close> passes are proved to be enough. \<open>reconnect\<close>
  recurses on the attempts that are left. The background loops (accepting, cleanup, health checks,
  maintenance) do not end; their bodies are steps of the relations or elements of a sequence.

  \<^bold>\<open>Arguments that stand for other code\<close>, with the laws used of them: the \<open>bytes\<close> crate, tokio's
  synchronisation, streams and timers, \<open>serde_json\<close>, the container crate, \<open>flate2\<close>, \<open>rustls\<close> with
  \<open>rustls_pemfile\<close> and \<open>sha2\<close>, the logger, metrics and thread-pool crates, the generator of random
  numbers, the file system, the iteration order of hash maps. Each property that assumes a law
  has a witness on an instance of it.

  \<^bold>\<open>What the code does not do.\<close> Some theorems state behaviour the documentation does not suggest:
  \<open>server_limit_not_enforced\<close>, \<open>shutdown_lost_wakeup\<close>, \<open>shutdown_late_request\<close>, \<open>cache_exceeds_capacity\<close>, \<open>cache_clear_race\<close>, \<open>lb_probes_never_evict\<close>,
  \<open>lb_weighted_zero_panics\<close>, \<open>pool_prune_exceeds_max\<close>, \<open>pool_lifetime_not_enforced\<close>,
  \<open>client_receive_drops_rest\<close>, \<open>client_failed_connect_blocks\<close>, \<open>message_queue_zero_panics\<close>,
  \<open>rate_limiter_acquire_panics\<close>, \<open>span_ids_collide\<close>.

  \<^bold>\<open>Not modelled.\<close> The module declarations of \<open>lib.rs\<close> and the \<open>mod.rs\<close> files, \<open>Debug\<close> implementations and
  calls of the \<open>tracing\<close> macros, which have no effect on the state; the console
  output of the examples; the integration tests, the benchmarks and the unit tests of containers, of
  random session identifiers and of many tasks at once; overflow of \<open>Instant + Duration\<close>, which takes centuries of uptime; the TLS
  handshake, which is inside \<open>rustls\<close>; the format of the container crate; a \<open>stop\<close> whose own future is
  dropped while it waits; weak memory orderings.
\<close>

section \<open>From client to server\<close>

lemma client_server_delivery:
  assumes "bytes_buffer B" "accepting_stream written writable write_all" "\<forall>m \<in> set ms. Message_fits m"
    and "cl_state c = Connected" "cl_stream c = Some st" "written st = []"
    and "fold (\<lambda>m c. snd (TcpClient_send B writable write_all m c)) ms c = c'" "cl_stream c' = Some st'"
    and "chunk_reads reads" "read_bytes reads = written st'"
    and "s = Session_new B sid t halves addr rt wt it" "rt * 3 \<le> duration_max"
    and "prompt_calls it (rt * 3) t calls" "length ms < length calls" "sending_handler (on_message H)"
  shows "\<exists>s' h'. session_loop B (on_message H) calls (reads @ [Completed (Inr [])]) s h = (ms, Broke closed_by_peer_error, s', h')"
proof -
  obtain st'' where "c' = c\<lparr>cl_stream := Some st''\<rparr>" "written st'' = concat (map Message_frame ms)"
    using bytes_buffer.client_sends_frames [OF assms(1-5)] assms(6,7) by auto
  with assms(8,10) have "read_bytes reads = concat (map Message_frame ms)" by simp
  then have bytes: "bm_slice B (read_buffer s) @ read_bytes reads = concat (map Message_frame ms)"
    using bytes_buffer.slice_with_capacity [OF assms(1)] by (simp add: assms(11) Session_new_def)
  show ?thesis
    by (rule bytes_buffer.session_loop_delivers [OF assms(1,3,15,14), where t = t, OF _ _ _ _ _ assms(9) bytes])
       (use assms(12,13) in \<open>simp_all add: assms(11) Session_new_def\<close>)
qed

text \<open>
  C1. Messages travel whole and in order from a client to the handler of the server. A
  connected client sends any list of messages that fit, one after the other; the bytes its
  stream has taken arrive at the server's session in any chunks, followed by the close of
  the connection. Then the session loop passes exactly these messages to \<open>on_message\<close>, in
  order and each once, and ends with the close by the peer; neither the framing, nor the
  way the bytes are cut, nor replies that the handler sends meanwhile, can change that.
\<close>

theorem end_to_end_delivery:
  assumes "bytes_buffer B" "accepting_stream written writable write_all" "\<forall>m \<in> set ms. Message_fits m"
    and "cl_state c = Connected" "cl_stream c = Some st" "written st = []"
    and "fold (\<lambda>m c. snd (TcpClient_send B writable write_all m c)) ms c = c'" "cl_stream c' = Some st'"
    and "chunk_reads reads" "read_bytes reads = written st'"
    and "s = Session_new B sid t halves addr rt wt it" "rt * 3 \<le> duration_max"
    and "prompt_calls it (rt * 3) t calls" "length ms < length calls" "sending_handler (on_message H)"
  shows "\<exists>s' h'. session_loop B (on_message H) calls (reads @ [Completed (Inr [])]) s h = (ms, Broke closed_by_peer_error, s', h')"
  by (rule client_server_delivery [OF assms])

text \<open>A client over a stream that keeps what is written, and what it sends.\<close>

definition example_client :: "u8 list TcpClient" where
  "example_client = (TcpClient_new ''127.0.0.1:8080'')\<lparr>cl_stream := Some [], cl_state := Connected\<rparr>"

lemma example_client_connected: "cl_state example_client = Connected" "cl_stream example_client = Some []"
  by (simp_all add: example_client_def)

definition example_messages :: "Message list" where
  "example_messages = [\<lparr>msg_data = [65]\<rparr>, \<lparr>msg_data = [66, 67]\<rparr>]"

lemma example_messages_fit: "\<forall>m \<in> set example_messages. Message_fits m"
  by (simp add: example_messages_def Message_fits_def MAX_MESSAGE_SIZE_def)

lemma example_sent:
  obtains c' where
    "fold (\<lambda>m c. snd (TcpClient_send vec_bytes always_writable keep_written m c)) example_messages example_client = c'"
    "cl_stream c' = Some (read_bytes example_reads)"
proof -
  obtain st' where sent:
    "fold (\<lambda>m c. snd (TcpClient_send vec_bytes always_writable keep_written m c)) example_messages example_client =
      example_client\<lparr>cl_stream := Some st'\<rparr>" "st' = concat (map Message_frame example_messages)"
    using vec.client_sends_frames [OF keep_written_accepts example_messages_fit example_client_connected] by auto
  moreover have "read_bytes example_reads = st'"
    by (simp add: sent(2) example_messages_def example_reads_def Message_frame_def u32_to_be_bytes_def)
  ultimately show thesis by (intro that) auto
qed

lemmas example_setting =
  example_session_def example_reads_def example_messages_def elapsed_def from_secs_def duration_max_def silent_sending

theorem end_to_end_delivery_witness:
  "\<exists>s' h'. session_loop vec_bytes (on_message silent_handler) [(\<lambda>_. 0, 200, 210), (\<lambda>_. 0, 220, 230), (\<lambda>_. 0, 240, 250)]
     (example_reads @ [Completed (Inr [])]) example_session () =
       (example_messages, Broke closed_by_peer_error, s', h')"
  by (rule example_sent,
      rule end_to_end_delivery [OF vec.bytes_buffer_axioms keep_written_accepts example_messages_fit
        example_client_connected refl _ _ _ refl])
    (assumption | simp add: example_setting)+

section \<open>From client to server through processing pipelines\<close>

lemma processed_codec:
  assumes "gzip G"
    and "list_all2 (\<lambda>m m'. ProcessorPipeline_process
        (fold ProcessorPipeline_add (map (forward G) stages) ProcessorPipeline_new) m = Inr m') originals ms"
  shows "processed (ProcessorPipeline_process
      (fold ProcessorPipeline_add (rev (map (backward G) stages)) ProcessorPipeline_new)) ms = originals"
  using assms(2)
proof (induction rule: list_all2_induct)
  case (Cons m ms0 m' ms')
  have "list_all2 codec (map (forward G) stages) (map (backward G) stages)"
    using gzip.stage_codec [OF assms(1)] by (simp add: list_all2_conv_all_nth)
  from pipeline_codec [OF this] Cons show ?case
    by (simp add: processed_def ProcessorPipeline_process_def processors_build ProcessorPipeline_new_def)
qed (simp add: processed_def)

text \<open>
  C5. Processing pipelines are inverse across the network. The sender runs every message
  through a pipeline of encryption and compression stages and a connected client sends the
  results; the server's session hands what it receives to a thread pool whose processor is
  the pipeline of the inverse stages in the reverse order. Then the handler behind the pool
  receives exactly the original messages, in order and each once, and no error is
  reported, however the bytes are cut.
\<close>

theorem end_to_end_processed:
  assumes "gzip G" "bytes_buffer B" "accepting_stream written writable write_all" "pool_runs_jobs P"
    and "list_all2 (\<lambda>m m'. ProcessorPipeline_process
        (fold ProcessorPipeline_add (map (forward G) stages) ProcessorPipeline_new) m = Inr m') originals ms"
    and "\<forall>m \<in> set ms. Message_fits m" "cl_state c = Connected" "cl_stream c = Some st" "written st = []"
    and "fold (\<lambda>m c. snd (TcpClient_send B writable write_all m c)) ms c = c'" "cl_stream c' = Some st'"
    and "chunk_reads reads" "read_bytes reads = written st'"
    and "s = Session_new B sid t halves addr rt wt it" "rt * 3 \<le> duration_max"
    and "prompt_calls it (rt * 3) t calls" "length ms < length calls" "sending_handler (on_message H)"
    and "tp = fst (ThreadPoolSessionHandler_with_pool (recording_handler H) (ProcessorPipeline_process
        (fold ProcessorPipeline_add (rev (map (backward G) stages)) ProcessorPipeline_new)) p)"
  shows "\<exists>s' p' h'. session_loop B (on_message (thread_pool_handler P tp)) calls (reads @ [Completed (Inr [])]) s
      (p, [], [], h) = (ms, Broke closed_by_peer_error, s', p', [], originals, h')"
proof -
  let ?proc = "ProcessorPipeline_process (fold ProcessorPipeline_add (rev (map (backward G) stages)) ProcessorPipeline_new)"
  have tp: "tp = \<lparr>tp_inner = recording_handler H, tp_processor = ?proc\<rparr>"
    by (simp add: assms(19) ThreadPoolSessionHandler_with_pool_def)
  have sending: "sending_handler (on_message (thread_pool_handler P tp))"
    by (intro thread_pool_sending) (simp add: tp recording_sending assms(18))
  have "\<exists>s' x'. session_loop B (on_message (thread_pool_handler P tp)) calls (reads @ [Completed (Inr [])]) s
      (p, [], [], h) = (ms, Broke closed_by_peer_error, s', x')"
    by (rule client_server_delivery [OF assms(2,3,6-17) sending])
  then obtain s' p' errors log h' where run: "session_loop B (on_message (thread_pool_handler P tp)) calls
      (reads @ [Completed (Inr [])]) s (p, [], [], h) = (ms, Broke closed_by_peer_error, s', p', errors, log, h')"
    by auto
  have "log = processed ?proc ms" "length errors = length ms - length (processed ?proc ms)"
    using thread_pool_loop [OF assms(4) run [unfolded tp]] by simp_all
  moreover have "processed ?proc ms = originals" by (rule processed_codec [OF assms(1,5)])
  moreover have "length originals = length ms" using assms(5) by (rule list_all2_lengthD)
  ultimately show ?thesis using run by simp
qed

text \<open>Messages encrypted by the sender arrive decrypted.\<close>

theorem end_to_end_processed_witness:
  "\<exists>s' p' h'. session_loop vec_bytes (on_message (thread_pool_handler eager_pool
       (fst (ThreadPoolSessionHandler_with_pool (recording_handler silent_handler) (ProcessorPipeline_process
         (fold ProcessorPipeline_add (rev (map (backward stored_gzip) [Encrypt [1]])) ProcessorPipeline_new)) ()))))
     [(\<lambda>_. 0, 200, 210), (\<lambda>_. 0, 220, 230), (\<lambda>_. 0, 240, 250)]
     (example_reads @ [Completed (Inr [])]) example_session ((), [], [], ()) =
       (example_messages, Broke closed_by_peer_error, s', p', [], [\<lparr>msg_data = [64]\<rparr>, \<lparr>msg_data = [67, 66]\<rparr>], h')"
proof (rule example_sent)
  fix c' :: "u8 list TcpClient"
  assume sent: "fold (\<lambda>m c. snd (TcpClient_send vec_bytes always_writable keep_written m c)) example_messages example_client = c'"
    "cl_stream c' = Some (read_bytes example_reads)"
  have encoded: "list_all2 (\<lambda>m m'. ProcessorPipeline_process
      (fold ProcessorPipeline_add (map (forward stored_gzip) [Encrypt [1]]) ProcessorPipeline_new) m = Inr m')
      [\<lparr>msg_data = [64]\<rparr>, \<lparr>msg_data = [67, 66]\<rparr>] example_messages"
    by (simp add: example_messages_def ProcessorPipeline_process_def ProcessorPipeline_add_def ProcessorPipeline_new_def
        EncryptionProcessor_process_def EncryptionProcessor_new_def Message_new_def Let_def)
  show ?thesis
    by (rule end_to_end_processed [OF stored.gzip_axioms vec.bytes_buffer_axioms keep_written_accepts eager_pool_runs
        encoded example_messages_fit example_client_connected refl sent _ refl example_session_def])
      (simp_all add: example_setting)
qed

end
